(* ===== verification/BB_Prelude.thy ===== *)
theory BB_Prelude
  imports Main "HOL-Library.Word" "HOL-Library.AList"
begin

text \<open>
  Shared vocabulary of the development: machine integers at their Rust width with the checked and
  saturating operations the code calls, durations and instants, hash maps as association lists with
  distinct keys, ordered maps as association lists sorted by key, and the generic facts about them
  that the component theories use.
\<close>

section \<open>Machine integers\<close>

type_synonym u8 = "8 word"
type_synonym u32 = "32 word"
type_synonym u64 = "64 word"
type_synonym u128 = "128 word"
type_synonym usize = "64 word"

named_theorems checked_simps \<open>characteristic facts of the checked integer operations\<close>

definition checked_add :: "'a::len word \<Rightarrow> 'a word \<Rightarrow> 'a word option" where
  "checked_add a b = (if unat a + unat b < 2 ^ LENGTH('a) then Some (a + b) else None)"

definition checked_sub :: "'a::len word \<Rightarrow> 'a word \<Rightarrow> 'a word option" where
  "checked_sub a b = (if b \<le> a then Some (a - b) else None)"

definition checked_mul :: "'a::len word \<Rightarrow> 'a word \<Rightarrow> 'a word option" where
  "checked_mul a b = (if unat a * unat b < 2 ^ LENGTH('a) then Some (a * b) else None)"

definition saturating_add :: "'a::len word \<Rightarrow> 'a word \<Rightarrow> 'a word" where
  "saturating_add a b = (if unat a + unat b < 2 ^ LENGTH('a) then a + b else - 1)"

definition saturating_sub :: "'a::len word \<Rightarrow> 'a word \<Rightarrow> 'a word" where
  "saturating_sub a b = (if b \<le> a then a - b else 0)"

lemma unat_checked_add [checked_simps]:
  fixes a b c :: "'a::len word"
  assumes "checked_add a b = Some c"
  shows "unat c = unat a + unat b"
proof -
  from assms have lt: "unat a + unat b < 2 ^ LENGTH('a)" and c: "c = a + b"
    by (auto simp: checked_add_def split: if_splits)
  from lt show ?thesis unfolding c by (rule unat_add_lem [THEN iffD1])
qed

lemma checked_add_None [checked_simps]:
  fixes a b :: "'a::len word"
  shows "checked_add a b = None \<longleftrightarrow> 2 ^ LENGTH('a) \<le> unat a + unat b"
  by (auto simp: checked_add_def)

lemma unat_checked_sub [checked_simps]:
  fixes a b c :: "'a::len word"
  assumes "checked_sub a b = Some c"
  shows "unat c = unat a - unat b" and "unat b \<le> unat a"
  using assms by (auto simp: checked_sub_def unat_sub word_le_nat_alt split: if_splits)

lemma checked_sub_None [checked_simps]:
  fixes a b :: "'a::len word"
  shows "checked_sub a b = None \<longleftrightarrow> unat a < unat b"
  by (auto simp: checked_sub_def word_le_nat_alt)

lemma unat_checked_mul [checked_simps]:
  fixes a b c :: "'a::len word"
  assumes "checked_mul a b = Some c"
  shows "unat c = unat a * unat b"
proof -
  from assms have lt: "unat a * unat b < 2 ^ LENGTH('a)" and c: "c = a * b"
    by (auto simp: checked_mul_def split: if_splits)
  from lt show ?thesis unfolding c by (rule unat_mult_lem [THEN iffD1])
qed

lemma unat_saturating_sub:
  fixes a b :: "'a::len word"
  shows "unat (saturating_sub a b) = unat a - unat b"
  by (simp add: saturating_sub_def unat_sub word_le_nat_alt)

lemma unat_succ_word:
  fixes a :: "'a::len word"
  shows "unat a + 1 < 2 ^ LENGTH('a) \<Longrightarrow> unat (a + 1) = unat a + 1"
  using unat_checked_add [of a 1 "a + 1"] by (cases "LENGTH('a) = 1") (auto simp: checked_add_def)

section \<open>Time\<close>

text \<open>
  A \<open>Duration\<close> is a number of nanoseconds, at most \<open>Duration::MAX\<close>
  (\<open>u64::MAX\<close> seconds and 999,999,999 nanoseconds).  An \<open>Instant\<close> is a number of nanoseconds
  since the clock's origin; on the supported targets its second count is an \<open>i64\<close>, which is
  where \<open>Instant::checked_add\<close> gives up.
\<close>

type_synonym duration = nat
type_synonym instant = nat

definition nanos_per_sec :: nat where
  "nanos_per_sec = 1000000000"

definition duration_limit :: nat where
  "duration_limit = 2 ^ 64 * nanos_per_sec"

definition instant_limit :: nat where
  "instant_limit = 2 ^ 63 * nanos_per_sec"

definition instant_checked_add :: "instant \<Rightarrow> duration \<Rightarrow> instant option" where
  "instant_checked_add t d = (if t + d < instant_limit then Some (t + d) else None)"

text \<open>\<open>saturating_duration_since\<close> and \<open>duration_since\<close> both saturate at zero.\<close>

definition duration_since :: "instant \<Rightarrow> instant \<Rightarrow> duration" where
  "duration_since later earlier = later - earlier"

lemma instant_checked_add_Some [simp]:
  "instant_checked_add t d = Some t' \<longleftrightarrow> t' = t + d \<and> t + d < instant_limit"
  by (auto simp: instant_checked_add_def)

lemma instant_checked_add_None [simp]:
  "instant_checked_add t d = None \<longleftrightarrow> instant_limit \<le> t + d"
  by (auto simp: instant_checked_add_def)

section \<open>Hash maps\<close>

text \<open>
  A \<open>HashMap\<close> is an association list with distinct keys; \<open>insert\<close> is \<^const>\<open>AList.update\<close>,
  \<open>remove\<close> is \<^const>\<open>AList.delete\<close> and \<open>get\<close> is \<^const>\<open>map_of\<close>.
  Iteration order, which Rust leaves open, is the list's order.
\<close>

named_theorems hmap_simps \<open>lookup, domain and length facts of association lists\<close>

abbreviation keys :: "('k \<times> 'v) list \<Rightarrow> 'k list" where
  "keys m \<equiv> map fst m"

lemma keys_update_new [hmap_simps]:
  "k \<notin> set (keys m) \<Longrightarrow> AList.update k v m = m @ [(k, v)]"
  by (induction m) auto

lemma delete_notin [hmap_simps]:
  "k \<notin> set (keys m) \<Longrightarrow> AList.delete k m = m"
  by (induction m) (auto simp: AList.delete_eq)

lemma set_delete [hmap_simps]:
  "set (AList.delete k m) = {p \<in> set m. fst p \<noteq> k}"
  by (auto simp: AList.delete_eq split: prod.splits)

lemma set_keys_delete [hmap_simps]:
  "set (keys (AList.delete k m)) = set (keys m) - {k}"
  by (auto simp: set_delete)

lemma distinct_keys_delete [hmap_simps]:
  "distinct (keys m) \<Longrightarrow> distinct (keys (AList.delete k m))"
  by (rule distinct_delete)

lemma length_delete [hmap_simps]:
  "distinct (keys m) \<Longrightarrow> k \<in> set (keys m) \<Longrightarrow> length (AList.delete k m) = length m - 1"
proof (induction m)
  case (Cons p m)
  show ?case
  proof (cases "fst p = k")
    case True
    with Cons.prems have "k \<notin> set (keys m)" by auto
    then have "AList.delete k m = m" by (rule delete_notin)
    with True show ?thesis by (cases p) (simp add: AList.delete_eq)
  next
    case False
    with Cons have ih: "length (AList.delete k m) = length m - 1" and "m \<noteq> []" by auto
    with False show ?thesis by (cases p) (simp add: AList.delete_eq)
  qed
qed simp

lemma map_of_in_keys: "map_of m k = Some v \<Longrightarrow> k \<in> set (keys m)"
  by (auto dest: map_of_SomeD intro: rev_image_eqI)

lemma map_of_notin_keys: "map_of m k = None \<longleftrightarrow> k \<notin> set (keys m)"
  by (induction m) auto

lemma in_keys_map_of: "k \<in> set (keys m) \<Longrightarrow> \<exists>v. map_of m k = Some v"
  by (cases "map_of m k") (auto simp: map_of_notin_keys)

lemma map_of_delete: "map_of (AList.delete k m) = (map_of m)(k := None)"
  by (rule delete_conv')

lemma map_of_update: "map_of (AList.update k v m) = (map_of m)(k \<mapsto> v)"
  by (rule update_conv')

lemma map_of_keys_in: "map_of m k = Some v \<Longrightarrow> (k, v) \<in> set m"
  by (rule map_of_SomeD)

lemma mem_map_of: "distinct (keys m) \<Longrightarrow> (k, v) \<in> set m \<Longrightarrow> map_of m k = Some v"
  by (rule map_of_is_SomeI)

section \<open>Ordered maps\<close>

text \<open>A \<open>BTreeMap\<close> is an association list with strictly increasing keys.\<close>

fun btree_insert :: "'k::linorder \<Rightarrow> 'v \<Rightarrow> ('k \<times> 'v) list \<Rightarrow> ('k \<times> 'v) list" where
  "btree_insert k v [] = [(k, v)]"
| "btree_insert k v ((k', v') # m) =
     (if k < k' then (k, v) # (k', v') # m
      else if k = k' then (k, v) # m
      else (k', v') # btree_insert k v m)"

definition first_key_value :: "('k \<times> 'v) list \<Rightarrow> ('k \<times> 'v) option" where
  "first_key_value m = (case m of [] \<Rightarrow> None | p # _ \<Rightarrow> Some p)"

definition first_key :: "('k \<times> 'v) list \<Rightarrow> 'k option" where
  "first_key m = map_option fst (first_key_value m)"

lemma first_key_simps [simp]:
  "first_key [] = None" "first_key (p # m) = Some (fst p)"
  by (simp_all add: first_key_def first_key_value_def)

lemma first_key_None [simp]: "first_key m = None \<longleftrightarrow> m = []"
  by (cases m) auto

lemma btree_insert_last [hmap_simps]:
  "\<forall>k' \<in> set (keys m). k' < k \<Longrightarrow> btree_insert k v m = m @ [(k, v)]"
  by (induction m) auto

lemma set_keys_btree_insert: "set (keys (btree_insert k v m)) = insert k (set (keys m))"
proof (induction m)
  case (Cons p m)
  then show ?case by (cases p) (simp add: insert_commute split: if_splits)
qed simp

lemma sorted_keys_btree_insert:
  "sorted_wrt (<) (keys m) \<Longrightarrow> sorted_wrt (<) (keys (btree_insert k v m))"
proof (induction m)
  case Nil
  then show ?case by simp
next
  case (Cons p m)
  obtain k' v' where p: "p = (k', v')" by (cases p)
  from Cons show ?case
    by (auto simp: p set_keys_btree_insert simp del: set_map dest: order.strict_trans)
qed

lemma sorted_keys_delete:
  "sorted_wrt (<) (keys m) \<Longrightarrow> sorted_wrt (<) (keys (AList.delete k m))"
  by (induction m) (auto simp: AList.delete_eq)

lemma sorted_keys_distinct:
  fixes m :: "('k::linorder \<times> 'v) list"
  shows "sorted_wrt (<) (keys m) \<Longrightarrow> distinct (keys m)"
  by (simp add: strict_sorted_iff)

section \<open>Lists\<close>

lemma length_filter_split: "length (filter P xs) + length (filter (\<lambda>x. \<not> P x) xs) = length xs"
  by (induction xs) auto

lemma removeAll_filter_eq: "filter (\<lambda>y. y \<noteq> x) xs = removeAll x xs"
  by (induction xs) auto

lemma distinct_card_length: "distinct xs \<Longrightarrow> card (set xs) = length xs"
  by (rule distinct_card)

text \<open>Removing one position of a list, as \<open>VecDeque::remove\<close> does: the element and the rest.\<close>

definition vec_remove :: "nat \<Rightarrow> 'a list \<Rightarrow> ('a option \<times> 'a list)" where
  "vec_remove i xs = (if i < length xs then (Some (xs ! i), take i xs @ drop (Suc i) xs) else (None, xs))"

lemma vec_remove_distinct:
  assumes "distinct xs" and "i < length xs"
  shows "vec_remove i xs = (Some (xs ! i), removeAll (xs ! i) xs)"
proof -
  from assms have split: "xs = take i xs @ xs ! i # drop (Suc i) xs"
    by (simp add: id_take_nth_drop)
  have "removeAll (xs ! i) xs = take i xs @ drop (Suc i) xs"
  proof -
    from assms(1) have "xs ! i \<notin> set (take i xs)" and "xs ! i \<notin> set (drop (Suc i) xs)"
      by (metis split distinct_append distinct.simps(2) disjoint_iff list.set_intros(1),
          metis split distinct_append distinct.simps(2))
    then show ?thesis
      by (subst split) simp
  qed
  with assms show ?thesis by (simp add: vec_remove_def)
qed

lemma map_insort_key: "map f (insort_key f x xs) = insort (f x) (map f xs)"
  by (induction xs) auto

lemma map_sort_key: "map f (sort_key f xs) = sort (map f xs)"
  by (induction xs) (simp_all add: map_insort_key)

section \<open>Transition systems\<close>

text \<open>
  The states a component can reach, and the two contracts its steps are proved to satisfy: an
  invariant every step keeps, and an observation that, once made, never changes.
\<close>

inductive reach :: "('s \<Rightarrow> bool) \<Rightarrow> ('s \<Rightarrow> 's \<Rightarrow> bool) \<Rightarrow> 's \<Rightarrow> bool"
  for init :: "'s \<Rightarrow> bool" and step :: "'s \<Rightarrow> 's \<Rightarrow> bool" where
  reach_init: "init s \<Longrightarrow> reach init step s"
| reach_step: "reach init step s \<Longrightarrow> step s t \<Longrightarrow> reach init step t"

locale invariant_system =
  fixes init :: "'s \<Rightarrow> bool" and step :: "'s \<Rightarrow> 's \<Rightarrow> bool" and inv :: "'s \<Rightarrow> bool"
  assumes init_inv: "init s \<Longrightarrow> inv s"
    and step_inv: "inv s \<Longrightarrow> step s t \<Longrightarrow> inv t"
begin

lemma reach_inv: "reach init step s \<Longrightarrow> inv s"
  by (induction rule: reach.induct) (auto intro: init_inv step_inv)

lemma steps_inv: "step\<^sup>*\<^sup>* s t \<Longrightarrow> inv s \<Longrightarrow> inv t"
  by (induction rule: rtranclp_induct) (auto intro: step_inv)

end

locale stable_observation =
  fixes step :: "'s \<Rightarrow> 's \<Rightarrow> bool" and obs :: "'s \<Rightarrow> 'o option"
  assumes step_stable: "step s t \<Longrightarrow> obs s = Some x \<Longrightarrow> obs t = Some x"
begin

lemma steps_stable: "step\<^sup>*\<^sup>* s t \<Longrightarrow> obs s = Some x \<Longrightarrow> obs t = Some x"
  by (induction rule: rtranclp_induct) (auto intro: step_stable)

end

lemma reach_steps: "reach init step s \<Longrightarrow> step\<^sup>*\<^sup>* s t \<Longrightarrow> reach init step t"
  by (rotate_tac, induction rule: rtranclp_induct) (auto intro: reach_step)

end
