(* ===== verification/BB_Types.thy ===== *)
theory BB_Types
  imports BB_Prelude
begin

text \<open>
  The data model shared by the components: the library's errors and their stable codes
  (\<open>error.rs\<close>), identities (\<open>ids.rs\<close>), cancellation reasons, stop causes, public task
  states, typed exits and their redacted summaries (\<open>execution.rs\<close>), the failure enums of the
  retry, recurring and service models, cleanup progress (\<open>shutdown.rs\<close>) and resource limits
  (\<open>observation.rs\<close>).  Constructors keep the source's names; where two enums share a variant
  name the second carries a short prefix.
\<close>

section \<open>Identities\<close>

text \<open>The identifiers are random UUIDs; all the code uses of them is equality and order.\<close>

type_synonym execution_id = nat
type_synonym task_spec_id = nat
type_synonym lane_id = nat
type_synonym scope_id = nat

record attempt_id =
  aid_execution :: execution_id
  aid_number :: u32

text \<open>
  User code behind a trait object is opaque: the library only holds a reference to it and calls it.
\<close>

type_synonym task_id = nat
type_synonym work_ref = nat
type_synonym listener_ref = nat
type_synonym progress_ref = nat

section \<open>Library errors\<close>

datatype (plugins only: code size) beaver_error =
    BuilderMissingField string
  | QueueFull
  | DamReleased
  | LockPoisoned
  | NoDam
  | ExecutorShuttingDown
  | ShutdownTimedOut
  | WorkerFailed string
  | InvalidLaneCapacity
  | InvalidLaneConcurrency
  | LaneConfigConflict string
  | ScopeConfigConflict string
  | SlotConfigConflict string
  | ResourceLimitExceeded string
  | InvalidResourceLimit string
  | RuntimeUnavailable
  | RangeIntervalRangesExceedTotal u32 usize

primrec beaver_error_code :: "beaver_error \<Rightarrow> string" where
  "beaver_error_code (BuilderMissingField _) = ''BB-BUILDER-MISSING-FIELD''"
| "beaver_error_code QueueFull = ''BB-QUEUE-FULL''"
| "beaver_error_code DamReleased = ''BB-DAM-RELEASED''"
| "beaver_error_code LockPoisoned = ''BB-LOCK-POISONED''"
| "beaver_error_code NoDam = ''BB-NO-DAM''"
| "beaver_error_code ExecutorShuttingDown = ''BB-EXECUTOR-SHUTTING-DOWN''"
| "beaver_error_code ShutdownTimedOut = ''BB-SHUTDOWN-TIMED-OUT''"
| "beaver_error_code (WorkerFailed _) = ''BB-WORKER-FAILED''"
| "beaver_error_code InvalidLaneCapacity = ''BB-INVALID-LANE-CAPACITY''"
| "beaver_error_code InvalidLaneConcurrency = ''BB-INVALID-LANE-CONCURRENCY''"
| "beaver_error_code (LaneConfigConflict _) = ''BB-LANE-CONFIG-CONFLICT''"
| "beaver_error_code (ScopeConfigConflict _) = ''BB-SCOPE-CONFIG-CONFLICT''"
| "beaver_error_code (SlotConfigConflict _) = ''BB-SLOT-CONFIG-CONFLICT''"
| "beaver_error_code (ResourceLimitExceeded _) = ''BB-RESOURCE-LIMIT-EXCEEDED''"
| "beaver_error_code (InvalidResourceLimit _) = ''BB-INVALID-RESOURCE-LIMIT''"
| "beaver_error_code RuntimeUnavailable = ''BB-RUNTIME-UNAVAILABLE''"
| "beaver_error_code (RangeIntervalRangesExceedTotal _ _) = ''BB-RANGE-COUNT-EXCEEDS-TOTAL''"

datatype (plugins only: code size) runtime_error =
    RtLockPoisoned
  | TaskExecutionFailed string
  | RetriesExhausted
  | InternalInvariantViolation string

primrec runtime_error_code :: "runtime_error \<Rightarrow> string" where
  "runtime_error_code RtLockPoisoned = ''BB-RUNTIME-LOCK-POISONED''"
| "runtime_error_code (TaskExecutionFailed _) = ''BB-RUNTIME-TASK-FAILED''"
| "runtime_error_code RetriesExhausted = ''BB-RUNTIME-RETRIES-EXHAUSTED''"
| "runtime_error_code (InternalInvariantViolation code) = code"

section \<open>Cancellation, states and exits\<close>

datatype (plugins only: code size) cancel_reason =
    UserRequested
  | ExecutorShutdown
  | LaneClosingReason
  | ScopeCancelled
  | ReplacedReason
  | OtherReason string

datatype (plugins only: code size) stop_cause = CancelCause cancel_reason | DeadlineCause

datatype (plugins only: code size) task_state =
    Queued
  | Running u32
  | Sleeping u32 instant
  | Stopping stop_cause
  | StCompleted
  | StFailed
  | StCancelled
  | StAborted
  | StPanicked
  | StExecutorStopped

fun is_terminal :: "task_state \<Rightarrow> bool" where
  "is_terminal StCompleted = True"
| "is_terminal StFailed = True"
| "is_terminal StCancelled = True"
| "is_terminal StAborted = True"
| "is_terminal StPanicked = True"
| "is_terminal StExecutorStopped = True"
| "is_terminal _ = False"

datatype (plugins only: code size) panic_source =
    FactoryPanic
  | WorkFuturePanic
  | ChildPanic
  | SchedulePanic
  | RestartPolicyPanic
  | ServiceBodyPanic
  | ShutdownHookPanic

datatype (plugins only: code size) execution_kind = Finite | Recurring | Service

datatype (plugins only: code size) abort_policy = CooperativeOnly | Allowed

datatype (plugins only: code size) executor_stop_reason =
    StopRuntimeUnavailable
  | StopRunnerCancelled
  | StopInternalInvariantViolation

datatype (plugins only: code size) retry_policy_stage = PredicateStage | BackoffStage

datatype (plugins only: code size) 'e retry_failure =
    NonRetryable 'e
  | Exhausted 'e
  | AttemptTimedOut u32 "'e option" bool

datatype (plugins only: code size) 'e recurring_failure =
    TickFailed u64 'e
  | ConsecutiveFailuresExceeded u64 'e
  | ScheduleEnded
  | ScheduleOverflow string
  | RecCounterOverflow string
  | RecRestartLimitExceeded

primrec recurring_failure_code :: "'e recurring_failure \<Rightarrow> string" where
  "recurring_failure_code (TickFailed _ _) = ''BB-RECURRING-TICK-FAILED''"
| "recurring_failure_code (ConsecutiveFailuresExceeded _ _) =
     ''BB-RECURRING-CONSECUTIVE-FAILURES-EXCEEDED''"
| "recurring_failure_code ScheduleEnded = ''BB-RECURRING-SCHEDULE-ENDED''"
| "recurring_failure_code (ScheduleOverflow code) = code"
| "recurring_failure_code (RecCounterOverflow _) = ''BB-RECURRING-COUNTER-OVERFLOW''"
| "recurring_failure_code RecRestartLimitExceeded = ''BB-RECURRING-RESTART-LIMIT-EXCEEDED''"

datatype (plugins only: code size) 'e service_failure =
    BodyFailed u64 'e
  | RestartLimitExceeded u64 "'e option"
  | GenerationOverflow
  | CounterOverflow string "'e option"

primrec service_failure_code :: "'e service_failure \<Rightarrow> string" where
  "service_failure_code (BodyFailed _ _) = ''BB-SERVICE-BODY-FAILED''"
| "service_failure_code (RestartLimitExceeded _ _) = ''BB-SERVICE-RESTART-LIMIT-EXCEEDED''"
| "service_failure_code GenerationOverflow = ''BB-SERVICE-GENERATION-OVERFLOW''"
| "service_failure_code (CounterOverflow code _) = code"

datatype (plugins only: code size) 'e task_failure =
    Operation 'e
  | RetryFailed "'e retry_failure"
  | RecurringFailed "'e recurring_failure"
  | ServiceFailed "'e service_failure"
  | DeadlineExceeded "'e option"
  | PolicyPanicked retry_policy_stage "'e option"
  | ChildFailed
  | TimerUnavailable

datatype (plugins only: code size) ('t, 'e) task_exit =
    Completed 't
  | Failed "'e task_failure"
  | Cancelled cancel_reason
  | Aborted "stop_cause option"
  | Panicked panic_source string
  | ExecutorStopped executor_stop_reason

datatype (plugins only: code size) task_exit_summary =
    SumCompleted
  | SumFailed
  | SumCancelled cancel_reason
  | SumAborted "stop_cause option"
  | SumPanicked panic_source
  | SumExecutorStopped executor_stop_reason

primrec summary :: "('t, 'e) task_exit \<Rightarrow> task_exit_summary" where
  "summary (Completed _) = SumCompleted"
| "summary (Failed _) = SumFailed"
| "summary (Cancelled reason) = SumCancelled reason"
| "summary (Aborted preceding) = SumAborted preceding"
| "summary (Panicked source _) = SumPanicked source"
| "summary (ExecutorStopped reason) = SumExecutorStopped reason"

fun is_completed :: "task_exit_summary \<Rightarrow> bool" where
  "is_completed SumCompleted = True"
| "is_completed _ = False"

fun is_failed :: "task_exit_summary \<Rightarrow> bool" where
  "is_failed SumFailed = True"
| "is_failed _ = False"

primrec summary_state :: "task_exit_summary \<Rightarrow> task_state" where
  "summary_state SumCompleted = StCompleted"
| "summary_state SumFailed = StFailed"
| "summary_state (SumCancelled _) = StCancelled"
| "summary_state (SumAborted _) = StAborted"
| "summary_state (SumPanicked _) = StPanicked"
| "summary_state (SumExecutorStopped _) = StExecutorStopped"

lemma is_terminal_summary_state [simp]: "is_terminal (summary_state s)"
  by (cases s) auto

record task_snapshot =
  snap_execution_id :: execution_id
  snap_task_spec_id :: task_spec_id
  snap_state :: task_state
  snap_stop_cause :: "stop_cause option"
  snap_final_exit :: "task_exit_summary option"
  snap_kind :: execution_kind
  snap_lane_id :: "lane_id option"
  snap_scope_id :: "scope_id option"
  snap_scope_generation :: "u64 option"

datatype (plugins only: code size) cancel_request_outcome = Requested | AlreadyStopping | AlreadyTerminal

datatype (plugins only: code size) forced_cancellation_outcome =
    ForcedRequested
  | ForcedAlreadyRequested
  | ForcedAlreadyTerminal

datatype (plugins only: code size) forced_cancellation_error = NotAllowed | NoTrackedFuture

section \<open>Cleanup progress\<close>

datatype (plugins only: code size) cleanup_phase = TrackedChildren | LegacyCallback | ShutdownHookPhase | WorkerJoin

datatype (plugins only: code size) cleanup_outcome =
    CleanupNotRequired
  | CleanupCompleted
  | CleanupFailed string
  | ForcedCancelled bool

datatype (plugins only: code size) cleanup_progress =
    ProgressNotRequired
  | Pending cleanup_phase
  | Finished cleanup_outcome

section \<open>Resource limits\<close>

record resource_limits =
  max_active_executions :: usize
  max_lanes :: usize
  max_scopes :: usize
  max_slots :: usize
  max_event_subscribers :: usize
  max_children_per_execution :: usize
  max_waiting_producers_per_lane :: usize
  max_ordering_keys_per_lane :: usize
  terminal_history_capacity :: usize
  terminal_history_ttl :: "duration option"
  event_capacity :: usize
  max_tag_bytes :: usize

definition default_limits :: resource_limits where
  "default_limits = \<lparr>
     max_active_executions = 100000,
     max_lanes = 1024,
     max_scopes = 4096,
     max_slots = 4096,
     max_event_subscribers = 64,
     max_children_per_execution = 1024,
     max_waiting_producers_per_lane = 4096,
     max_ordering_keys_per_lane = 65536,
     terminal_history_capacity = 1024,
     terminal_history_ttl = Some (60 * 60 * nanos_per_sec),
     event_capacity = 1024,
     max_tag_bytes = 256 \<rparr>"

definition limit_values :: "resource_limits \<Rightarrow> (string \<times> usize) list" where
  "limit_values l =
     [(''max_active_executions'', max_active_executions l),
      (''max_lanes'', max_lanes l),
      (''max_scopes'', max_scopes l),
      (''max_slots'', max_slots l),
      (''max_event_subscribers'', max_event_subscribers l),
      (''max_children_per_execution'', max_children_per_execution l),
      (''max_waiting_producers_per_lane'', max_waiting_producers_per_lane l),
      (''max_ordering_keys_per_lane'', max_ordering_keys_per_lane l),
      (''event_capacity'', event_capacity l),
      (''max_tag_bytes'', max_tag_bytes l)]"

text \<open>\<open>validate\<close> returns the first field whose value is zero.\<close>

definition limits_validate :: "resource_limits \<Rightarrow> string + unit" where
  "limits_validate l =
     (case find (\<lambda>(_, value). value = 0) (limit_values l) of
        Some (field, _) \<Rightarrow> Inl field
      | None \<Rightarrow> Inr ())"

lemma limits_validate_ok:
  "limits_validate l = Inr () \<longleftrightarrow> (\<forall>(field, value) \<in> set (limit_values l). value \<noteq> 0)"
proof -
  have "limits_validate l = Inr () \<longleftrightarrow> find (\<lambda>(_, value). value = 0) (limit_values l) = None"
    by (auto simp: limits_validate_def split: option.splits)
  then show ?thesis by (auto simp: find_None_iff)
qed

lemma default_limits_valid: "limits_validate default_limits = Inr ()"
  by (simp add: limits_validate_ok limit_values_def default_limits_def)

section \<open>Work results\<close>

datatype (plugins only: code size) 't work_result = NeedRetry | Done 't

fun need_retry :: "'t work_result \<Rightarrow> bool" where
  "need_retry NeedRetry = True"
| "need_retry (Done _) = False"

fun as_done :: "'t work_result \<Rightarrow> 't option" where
  "as_done (Done v) = Some v"
| "as_done NeedRetry = None"

section \<open>Panic messages\<close>

text \<open>
  A panic payload is a static string, an owned string or something else; the runtime reports the
  text of the first two.  A panic whose text says that the Tokio timer is missing is not a business
  panic but an unavailable timer.
\<close>

datatype (plugins only: code size) panic_payload = StaticStr string | OwnedString string | OtherPayload

fun panic_message :: "panic_payload \<Rightarrow> string" where
  "panic_message (StaticStr m) = m"
| "panic_message (OwnedString m) = m"
| "panic_message OtherPayload = ''panic (unknown payload)''"

fun starts_with :: "string \<Rightarrow> string \<Rightarrow> bool" where
  "starts_with [] _ = True"
| "starts_with (_ # _) [] = False"
| "starts_with (p # ps) (c # cs) = (p = c \<and> starts_with ps cs)"

fun str_contains :: "string \<Rightarrow> string \<Rightarrow> bool" where
  "str_contains pat [] = (pat = [])"
| "str_contains pat (c # cs) = (starts_with pat (c # cs) \<or> str_contains pat cs)"

definition is_timer_unavailable_message :: "string \<Rightarrow> bool" where
  "is_timer_unavailable_message m =
     (str_contains ''timers are disabled'' m
      \<or> str_contains ''no reactor running'' m
      \<or> str_contains ''must be called from the context of a Tokio'' m)"

definition panic_exit :: "panic_source \<Rightarrow> panic_payload \<Rightarrow> ('t, 'e) task_exit" where
  "panic_exit source payload =
     (let message = panic_message payload in
      if is_timer_unavailable_message message then Failed TimerUnavailable
      else Panicked source message)"

text \<open>
  How a spawned Tokio task ends, as its join handle reports it: a value, a panic with its payload,
  or cancellation (aborted, or dropped by a runtime that went away).
\<close>

datatype (plugins only: code size) 'a join_result = JoinOk 'a | JoinPanic panic_payload | JoinCancelled

end
