(* ===== verification/BB_Execution.thy ===== *)
theory BB_Execution
  imports BB_Types
begin

text \<open>
  One execution: \<open>ExecutionCore\<close>, \<open>ResultCell\<close> and the tracked-children set of
  \<open>execution.rs\<close>.  Every region the code runs under a lock is one function on the record
  \<open>exec_core\<close>; what it then does to the outside (events, hooks, children, the registry) is a list
  of effects in program order.  The weak reference to the registry is the flag \<open>has_registry\<close>
  (whether upgrading it succeeds).
\<close>

section \<open>State\<close>

record core_state =
  public_state :: task_state
  stop_cause :: "stop_cause option"
  terminal :: "task_exit_summary option"

record tracked_child =
  child_attempt :: u32
  child_control :: execution_id

record child_set =
  admission_open :: bool
  current_attempt :: u32
  attempt_admission_open :: bool
  controls :: "tracked_child list"

text \<open>The only hook the code installs removes the execution from its lane's queue.\<close>

datatype (plugins only: code size) cancel_hook = RemoveQueued execution_id

record exec_core =
  ec_execution_id :: execution_id
  ec_task_spec_id :: task_spec_id
  ec_state :: core_state
  ec_cancellation :: bool
  ec_terminal_watch :: "task_exit_summary option"
  ec_has_registry :: bool
  ec_children :: child_set
  ec_tag :: "string option"
  ec_lane_id :: "lane_id option"
  ec_scope_id :: "scope_id option"
  ec_scope_generation :: "u64 option"
  ec_kind :: execution_kind
  ec_resume_epoch :: u64
  ec_abort_policy :: abort_policy
  ec_abort_handle :: bool
  ec_forced_requested :: bool
  ec_registered :: bool
  ec_execution_path :: "execution_id list"
  ec_cleanup :: cleanup_progress
  ec_queued_cancel_hook :: "cancel_hook option"

datatype (plugins only: code size) exec_effect =
    EmitStateChanged task_snapshot
  | RunHook cancel_hook
  | CancelControl execution_id cancel_reason
  | WaitControl execution_id
  | AbortBody
  | RegistryFinish execution_id task_exit_summary

definition new_child_set :: child_set where
  "new_child_set = \<lparr>admission_open = True, current_attempt = 1,
     attempt_admission_open = True, controls = []\<rparr>"

definition core_new ::
  "execution_id \<Rightarrow> task_spec_id \<Rightarrow> bool \<Rightarrow> string option \<Rightarrow> execution_id list \<Rightarrow> exec_core" where
  "core_new execution_id task_spec_id registry tag ancestors = \<lparr>
     ec_execution_id = execution_id,
     ec_task_spec_id = task_spec_id,
     ec_state = \<lparr>public_state = Queued, stop_cause = None, terminal = None\<rparr>,
     ec_cancellation = False,
     ec_terminal_watch = None,
     ec_has_registry = registry,
     ec_children = new_child_set,
     ec_tag = tag,
     ec_lane_id = None,
     ec_scope_id = None,
     ec_scope_generation = None,
     ec_kind = Finite,
     ec_resume_epoch = 0,
     ec_abort_policy = CooperativeOnly,
     ec_abort_handle = False,
     ec_forced_requested = False,
     ec_registered = False,
     ec_execution_path = ancestors @ [execution_id],
     ec_cleanup = ProgressNotRequired,
     ec_queued_cancel_hook = None \<rparr>"

section \<open>Operations of the core\<close>

definition snapshot :: "exec_core \<Rightarrow> task_snapshot" where
  "snapshot c = \<lparr>
     snap_execution_id = ec_execution_id c,
     snap_task_spec_id = ec_task_spec_id c,
     snap_state = public_state (ec_state c),
     snap_stop_cause = stop_cause (ec_state c),
     snap_final_exit = terminal (ec_state c),
     snap_kind = ec_kind c,
     snap_lane_id = ec_lane_id c,
     snap_scope_id = ec_scope_id c,
     snap_scope_generation = ec_scope_generation c \<rparr>"

text \<open>
  The cell holds at most one typed exit; a second \<open>store\<close> keeps the first and reports its summary.
\<close>

type_synonym ('t, 'e) result_cell = "('t, 'e) task_exit option"

definition result_store ::
  "('t, 'e) result_cell \<Rightarrow> ('t, 'e) task_exit \<Rightarrow> task_exit_summary \<times> ('t, 'e) result_cell" where
  "result_store cell exit =
     (case cell of
        Some existing \<Rightarrow> (summary existing, cell)
      | None \<Rightarrow> (summary exit, Some exit))"

definition result_take ::
  "('t, 'e) result_cell \<Rightarrow> ('t, 'e) task_exit option \<times> ('t, 'e) result_cell" where
  "result_take cell = (cell, None)"

definition emit_state :: "exec_core \<Rightarrow> exec_effect list" where
  "emit_state c =
     (if \<not> ec_registered c then []
      else if ec_has_registry c then [EmitStateChanged (snapshot c)]
      else [])"

definition set_active_state :: "task_state \<Rightarrow> exec_core \<Rightarrow> exec_core \<times> exec_effect list" where
  "set_active_state next c =
     (if terminal (ec_state c) = None \<and> stop_cause (ec_state c) = None
      then let c' = c\<lparr>ec_state := (ec_state c)\<lparr>public_state := next\<rparr>\<rparr> in (c', emit_state c')
      else (c, []))"

definition claim_start :: "exec_core \<Rightarrow> bool \<times> exec_core \<times> exec_effect list" where
  "claim_start c =
     (if terminal (ec_state c) \<noteq> None \<or> stop_cause (ec_state c) \<noteq> None then (False, c, [])
      else let c' = c\<lparr>ec_state := (ec_state c)\<lparr>public_state := Running 1\<rparr>\<rparr>
           in (True, c', emit_state c'))"

definition install_queued_cancel_hook :: "cancel_hook \<Rightarrow> exec_core \<Rightarrow> exec_core" where
  "install_queued_cancel_hook hook c = c\<lparr>ec_queued_cancel_hook := Some hook\<rparr>"

definition clear_queued_cancel_hook :: "exec_core \<Rightarrow> exec_core" where
  "clear_queued_cancel_hook c = c\<lparr>ec_queued_cancel_hook := None\<rparr>"

definition install_abort_handle :: "exec_core \<Rightarrow> exec_core" where
  "install_abort_handle c = c\<lparr>ec_abort_handle := True\<rparr>"

definition clear_abort_handle :: "exec_core \<Rightarrow> exec_core" where
  "clear_abort_handle c = c\<lparr>ec_abort_handle := False\<rparr>"

text \<open>
  \<open>request_stop\<close> decides under the state lock and only afterwards publishes: it takes the queued
  hook, reads the children, raises the cancellation flag, emits, runs the hook and cancels the
  children.  The two halves are separate functions because other threads may run in between.
\<close>

definition request_stop_mark ::
  "stop_cause \<Rightarrow> exec_core \<Rightarrow> cancel_request_outcome \<times> exec_core" where
  "request_stop_mark cause c =
     (if terminal (ec_state c) \<noteq> None then (AlreadyTerminal, c)
      else if stop_cause (ec_state c) \<noteq> None then (AlreadyStopping, c)
      else (Requested,
            c\<lparr>ec_state := (ec_state c)\<lparr>stop_cause := Some cause, public_state := Stopping cause\<rparr>\<rparr>))"

definition request_stop_publish :: "exec_core \<Rightarrow> exec_core \<times> exec_effect list" where
  "request_stop_publish c =
     (let children = map child_control (controls (ec_children c));
          hook = ec_queued_cancel_hook c;
          c' = c\<lparr>ec_queued_cancel_hook := None, ec_cancellation := True\<rparr>
      in (c', emit_state c'
              @ (case hook of None \<Rightarrow> [] | Some h \<Rightarrow> [RunHook h])
              @ map (\<lambda>child. CancelControl child ExecutorShutdown) children))"

definition request_stop ::
  "stop_cause \<Rightarrow> exec_core \<Rightarrow> cancel_request_outcome \<times> exec_core \<times> exec_effect list" where
  "request_stop cause c =
     (case request_stop_mark cause c of
        (Requested, c1) \<Rightarrow> (let (c2, effects) = request_stop_publish c1 in (Requested, c2, effects))
      | (outcome, c1) \<Rightarrow> (outcome, c1, []))"

definition cancel ::
  "cancel_reason \<Rightarrow> exec_core \<Rightarrow> cancel_request_outcome \<times> exec_core \<times> exec_effect list" where
  "cancel reason c = request_stop (CancelCause reason) c"

definition deadline ::
  "exec_core \<Rightarrow> cancel_request_outcome \<times> exec_core \<times> exec_effect list" where
  "deadline c = request_stop DeadlineCause c"

definition request_forced_cancellation ::
  "exec_core \<Rightarrow> (forced_cancellation_error + forced_cancellation_outcome) \<times> exec_core \<times> exec_effect list" where
  "request_forced_cancellation c =
     (if is_terminal (public_state (ec_state c)) then (Inr ForcedAlreadyTerminal, c, [])
      else if ec_abort_policy c \<noteq> Allowed then (Inl NotAllowed, c, [])
      else if \<not> ec_abort_handle c then (Inl NoTrackedFuture, c, [])
      else if ec_forced_requested c then (Inr ForcedAlreadyRequested, c, [])
      else (Inr ForcedRequested, c\<lparr>ec_forced_requested := True\<rparr>, [AbortBody]))"

definition forced_exit :: "exec_core \<Rightarrow> ('t, 'e) task_exit" where
  "forced_exit c = Aborted (stop_cause (ec_state c))"

text \<open>The resume generation wraps at \<open>u64::MAX\<close>.\<close>

definition notify_resumed :: "exec_core \<Rightarrow> exec_core" where
  "notify_resumed c =
     c\<lparr>ec_resume_epoch := (case checked_add (ec_resume_epoch c) 1 of None \<Rightarrow> 0 | Some value \<Rightarrow> value)\<rparr>"

section \<open>Cleanup\<close>

fun sticky_failure :: "cleanup_progress \<Rightarrow> bool" where
  "sticky_failure (Finished (CleanupFailed _)) = True"
| "sticky_failure (Finished (ForcedCancelled _)) = True"
| "sticky_failure _ = False"

definition set_cleanup_pending :: "cleanup_phase \<Rightarrow> exec_core \<Rightarrow> exec_core" where
  "set_cleanup_pending phase c =
     (if sticky_failure (ec_cleanup c) then c else c\<lparr>ec_cleanup := Pending phase\<rparr>)"

definition finish_cleanup :: "cleanup_outcome \<Rightarrow> exec_core \<Rightarrow> exec_core" where
  "finish_cleanup outcome c =
     (let preserve_failure = sticky_failure (ec_cleanup c)
            \<and> (outcome = CleanupCompleted \<or> outcome = CleanupNotRequired)
      in if preserve_failure then c else c\<lparr>ec_cleanup := Finished outcome\<rparr>)"

section \<open>Terminal commit\<close>

text \<open>
  Which exit becomes terminal, given the stop cause accepted so far and the exit the runner
  computed: a forced abort always stands, an accepted cancellation replaces anything else, an
  accepted deadline keeps a deadline failure (with its last error) and replaces anything else.
\<close>

fun select_exit :: "stop_cause option \<Rightarrow> ('t, 'e) task_exit \<Rightarrow> ('t, 'e) task_exit" where
  "select_exit _ (Aborted preceding) = Aborted preceding"
| "select_exit (Some (CancelCause reason)) _ = Cancelled reason"
| "select_exit (Some DeadlineCause) (Failed (DeadlineExceeded last_error)) =
     Failed (DeadlineExceeded last_error)"
| "select_exit (Some DeadlineCause) _ = Failed (DeadlineExceeded None)"
| "select_exit None exit = exit"

text \<open>
  The commit selects and stores under the state lock; afterwards it publishes: the terminal watch
  channel, and the registry if the execution is registered by then.
\<close>

definition commit_locked ::
  "exec_core \<Rightarrow> ('t, 'e) result_cell \<Rightarrow> ('t, 'e) task_exit
   \<Rightarrow> task_exit_summary option \<times> exec_core \<times> ('t, 'e) result_cell" where
  "commit_locked c cell normal_exit =
     (if terminal (ec_state c) \<noteq> None then (None, c, cell)
      else
        let selected = select_exit (stop_cause (ec_state c)) normal_exit;
            (smry, cell') = result_store cell selected
        in (Some smry,
            c\<lparr>ec_state := (ec_state c)\<lparr>public_state := summary_state smry, terminal := Some smry\<rparr>\<rparr>,
            cell'))"

definition commit_publish :: "task_exit_summary \<Rightarrow> exec_core \<Rightarrow> exec_core \<times> exec_effect list" where
  "commit_publish smry c =
     (let c' = c\<lparr>ec_terminal_watch := Some smry\<rparr>
      in (c', if ec_registered c' \<and> ec_has_registry c'
              then [RegistryFinish (ec_execution_id c') smry] else []))"

definition commit ::
  "exec_core \<Rightarrow> ('t, 'e) result_cell \<Rightarrow> ('t, 'e) task_exit
   \<Rightarrow> bool \<times> exec_core \<times> ('t, 'e) result_cell \<times> exec_effect list" where
  "commit c cell normal_exit =
     (case commit_locked c cell normal_exit of
        (None, c1, cell1) \<Rightarrow> (False, c1, cell1, [])
      | (Some smry, c1, cell1) \<Rightarrow>
          (let (c2, effects) = commit_publish smry c1 in (True, c2, cell1, effects)))"

section \<open>Typed results\<close>

datatype (plugins only: code size) join_result_error = AlreadyTaken

definition try_join ::
  "exec_core \<Rightarrow> ('t, 'e) result_cell
   \<Rightarrow> (join_result_error + ('t, 'e) task_exit option) \<times> ('t, 'e) result_cell" where
  "try_join c cell =
     (if \<not> is_terminal (public_state (ec_state c)) then (Inr None, cell)
      else case result_take cell of
             (None, cell') \<Rightarrow> (Inl AlreadyTaken, cell')
           | (Some exit, cell') \<Rightarrow> (Inr (Some exit), cell'))"

section \<open>Tracked children\<close>

definition begin_attempt :: "u32 \<Rightarrow> exec_core \<Rightarrow> exec_core" where
  "begin_attempt attempt c =
     c\<lparr>ec_children := (ec_children c)\<lparr>current_attempt := attempt,
         attempt_admission_open := admission_open (ec_children c)\<rparr>\<rparr>"

text \<open>
  Closing is two halves around the awaits: the first closes admission, takes the controls, marks
  the cleanup pending and cancels every child; the second, after every child was awaited, finishes
  the cleanup.
\<close>

definition close_children_begin :: "exec_core \<Rightarrow> execution_id list \<times> exec_core \<times> exec_effect list" where
  "close_children_begin c =
     (let taken = map child_control (controls (ec_children c));
          c1 = c\<lparr>ec_children := (ec_children c)\<lparr>admission_open := False,
                  attempt_admission_open := False, controls := []\<rparr>\<rparr>;
          c2 = (if taken \<noteq> [] then set_cleanup_pending TrackedChildren c1 else c1)
      in (taken, c2, map (\<lambda>child. CancelControl child ExecutorShutdown) taken @ map WaitControl taken))"

definition close_children_finish :: "bool \<Rightarrow> exec_core \<Rightarrow> exec_core" where
  "close_children_finish had_controls c =
     (if had_controls then finish_cleanup CleanupCompleted c else c)"

definition close_attempt_children_begin ::
  "u32 \<Rightarrow> exec_core \<Rightarrow> execution_id list \<times> exec_core \<times> exec_effect list" where
  "close_attempt_children_begin attempt c =
     (let ch = ec_children c;
          ch1 = (if current_attempt ch = attempt then ch\<lparr>attempt_admission_open := False\<rparr> else ch);
          taken = map child_control (filter (\<lambda>child. child_attempt child = attempt) (controls ch));
          retained = filter (\<lambda>child. child_attempt child \<noteq> attempt) (controls ch);
          c1 = c\<lparr>ec_children := ch1\<lparr>controls := retained\<rparr>\<rparr>;
          c2 = (if taken \<noteq> [] then set_cleanup_pending TrackedChildren c1 else c1)
      in (taken, c2, map (\<lambda>child. CancelControl child ExecutorShutdown) taken @ map WaitControl taken))"

datatype (plugins only: code size) spawn_child_error =
    ParentClosing
  | SpawnExecutorUnavailable
  | LimitReached nat

text \<open>
  \<open>spawn_child\<close> under the children lock.  The limit comes from the registry, or 1024 when there is
  none; \<open>child\<close> is what spawning the child future returned (its identity, or an error).
\<close>

definition spawn_child ::
  "usize option \<Rightarrow> u32 \<Rightarrow> (unit + execution_id) \<Rightarrow> exec_core
   \<Rightarrow> (spawn_child_error + execution_id) \<times> exec_core" where
  "spawn_child limit attempt child c =
     (let ch = ec_children c;
          maximum = (case limit of None \<Rightarrow> 1024 | Some m \<Rightarrow> unat m)
      in if \<not> admission_open ch \<or> \<not> attempt_admission_open ch \<or> current_attempt ch \<noteq> attempt
         then (Inl ParentClosing, c)
         else if maximum \<le> length (controls ch) then (Inl (LimitReached maximum), c)
         else case child of
                Inl _ \<Rightarrow> (Inl SpawnExecutorUnavailable, c)
              | Inr execution_id \<Rightarrow>
                  (Inr execution_id,
                   c\<lparr>ec_children := ch\<lparr>controls := controls ch @
                       [\<lparr>child_attempt = attempt, child_control = execution_id\<rparr>]\<rparr>\<rparr>))"

section \<open>Cancellation-aware sleep\<close>

datatype (plugins only: code size) sleep_start =
    SleepCancelledNow
  | SleepStarted instant exec_core "exec_effect list"

text \<open>An instant that cannot be represented is reported as a cancellation.\<close>

definition sleep_begin :: "instant \<Rightarrow> u32 \<Rightarrow> duration \<Rightarrow> exec_core \<Rightarrow> sleep_start" where
  "sleep_begin now attempt d c =
     (if ec_cancellation c then SleepCancelledNow
      else case instant_checked_add now d of
             None \<Rightarrow> SleepCancelledNow
           | Some wake_at \<Rightarrow>
               (let (c', effects) = set_active_state (Sleeping attempt wake_at) c
                in SleepStarted wake_at c' effects))"

text \<open>
  When the sleep ends the cancellation flag decides: a zero sleep reads it after yielding, a timed
  sleep ends by the (biased) cancellation branch or reads it when the timer fires.
\<close>

definition sleep_end :: "u32 \<Rightarrow> exec_core \<Rightarrow> bool \<times> exec_core \<times> exec_effect list" where
  "sleep_end attempt c =
     (if ec_cancellation c then (False, c, [])
      else let (c', effects) = set_active_state (Running attempt) c in (True, c', effects))"

section \<open>Structured waits\<close>

datatype (plugins only: code size) execution_wait_error = WouldJoin execution_id execution_id

text \<open>\<open>path\<close> is the task-local execution path of the caller, if it runs inside an execution.\<close>

definition would_join :: "execution_id list option \<Rightarrow> execution_id \<Rightarrow> bool" where
  "would_join path target = (case path of None \<Rightarrow> False | Some ids \<Rightarrow> target \<in> set ids)"

definition wait_checked ::
  "execution_id list option \<Rightarrow> exec_core \<Rightarrow> (execution_wait_error + task_exit_summary option)" where
  "wait_checked path c =
     (if would_join path (ec_execution_id c)
      then Inl (WouldJoin
             (case path of
                None \<Rightarrow> ec_execution_id c
              | Some ids \<Rightarrow> (if ids = [] then ec_execution_id c else last ids))
             (ec_execution_id c))
      else Inr (ec_terminal_watch c))"

section \<open>Exits computed by the runners\<close>

definition join_error_exit ::
  "exec_core \<Rightarrow> panic_source \<Rightarrow> panic_payload option \<Rightarrow> ('t, 'e) task_exit" where
  "join_error_exit c source payload =
     (case payload of
        Some p \<Rightarrow> panic_exit source p
      | None \<Rightarrow> (if ec_forced_requested c then forced_exit c
                 else ExecutorStopped StopRuntimeUnavailable))"

text \<open>A typed operation either panics in its factory or is spawned and joined.\<close>

datatype (plugins only: code size) ('a) factory_run =
    FactoryPanicked panic_payload
  | BodyJoined "'a join_result"

fun operation_exit :: "exec_core \<Rightarrow> ('e + 't) factory_run \<Rightarrow> ('t, 'e) task_exit" where
  "operation_exit c (BodyJoined (JoinOk (Inr value))) = Completed value"
| "operation_exit c (BodyJoined (JoinOk (Inl error))) = Failed (Operation error)"
| "operation_exit c (BodyJoined (JoinPanic payload)) = join_error_exit c WorkFuturePanic (Some payload)"
| "operation_exit c (BodyJoined JoinCancelled) = join_error_exit c WorkFuturePanic None"
| "operation_exit c (FactoryPanicked payload) = Panicked FactoryPanic (panic_message payload)"

text \<open>The policy runners (retry, recurring, service) return the exit themselves.\<close>

fun policy_exit :: "exec_core \<Rightarrow> ('t, 'e) task_exit factory_run \<Rightarrow> ('t, 'e) task_exit" where
  "policy_exit c (BodyJoined (JoinOk exit)) = exit"
| "policy_exit c (BodyJoined (JoinPanic payload)) = join_error_exit c WorkFuturePanic (Some payload)"
| "policy_exit c (BodyJoined JoinCancelled) = join_error_exit c WorkFuturePanic None"
| "policy_exit c (FactoryPanicked payload) = Panicked FactoryPanic (panic_message payload)"

text \<open>
  A one-shot future has no factory.  A child future is dropped by its own cancellation
  (\<open>None\<close>: the biased cancellation branch won).
\<close>

fun future_exit ::
  "exec_core \<Rightarrow> panic_source \<Rightarrow> ('e + 't) join_result option \<Rightarrow> ('t, 'e) task_exit" where
  "future_exit c source None = ExecutorStopped StopRunnerCancelled"
| "future_exit c source (Some (JoinOk (Inr value))) = Completed value"
| "future_exit c source (Some (JoinOk (Inl error))) = Failed (Operation error)"
| "future_exit c source (Some (JoinPanic payload)) = join_error_exit c source (Some payload)"
| "future_exit c source (Some JoinCancelled) = join_error_exit c source None"

end
