(* ===== verification/BB_Lifecycle.thy ===== *)
theory BB_Lifecycle
  imports BB_Execution
begin

text \<open>
  The life of one execution as a transition system: its runner, the handles that request stops,
  force cancellation or take the result, and its tracked children, interleaved arbitrarily.
  The results: one terminal exit, chosen once and never changed; the first stop cause wins; the
  typed result is delivered at most once; a runner that ends has made the execution terminal; a
  runner that ends by itself has waited for every tracked child.
\<close>

section \<open>The transition system\<close>

datatype (plugins only: code size) ('t, 'e) runner_pc =
    RunnerPending
  | RunnerBody
  | RunnerClosing "('t, 'e) task_exit" "execution_id list"
  | RunnerPublishing task_exit_summary
  | RunnerFinished

text \<open>
  \<open>sys_delivered\<close>, \<open>sys_tracked\<close>, \<open>sys_dropped\<close> and \<open>sys_aborted\<close> record history only;
  \<open>sys_claimed\<close> says that a work context exists (the runner creates it after claiming the start); \<open>sys_done\<close> is the set of
  children whose own executions are terminal.  \<open>sys_stop_unpublished\<close> is the point between the
  two halves of \<open>request_stop\<close>.
\<close>

record ('t, 'e) exec_sys =
  sys_core :: exec_core
  sys_cell :: "('t, 'e) result_cell"
  sys_runner :: "('t, 'e) runner_pc"
  sys_claimed :: bool
  sys_stop_unpublished :: bool
  sys_attempt_waiting :: "execution_id list"
  sys_delivered :: "('t, 'e) task_exit list"
  sys_tracked :: "execution_id list"
  sys_done :: "execution_id list"
  sys_dropped :: bool
  sys_aborted :: bool

definition exec_init :: "('t, 'e) exec_sys \<Rightarrow> bool" where
  "exec_init s \<longleftrightarrow>
     (\<exists>i spec reg tag anc. sys_core s = core_new i spec reg tag anc)
     \<and> sys_cell s = None \<and> sys_runner s = RunnerPending \<and> \<not> sys_claimed s
     \<and> \<not> sys_stop_unpublished s
     \<and> sys_attempt_waiting s = [] \<and> sys_delivered s = [] \<and> sys_tracked s = [] \<and> sys_done s = []
     \<and> \<not> sys_dropped s \<and> \<not> sys_aborted s"

text \<open>Where the runner is after the locked part of its commit.\<close>

definition after_commit :: "task_exit_summary option \<Rightarrow> ('t, 'e) runner_pc" where
  "after_commit won = (case won of None \<Rightarrow> RunnerFinished | Some smry \<Rightarrow> RunnerPublishing smry)"

definition runner_ended :: "('t, 'e) runner_pc \<Rightarrow> bool" where
  "runner_ended pc = (case pc of RunnerPublishing _ \<Rightarrow> True | RunnerFinished \<Rightarrow> True | _ \<Rightarrow> False)"

text \<open>The exit a runner commits when it never ran its body, and what its guard commits when dropped.\<close>

abbreviation runner_cancelled :: "('t, 'e) task_exit" where
  "runner_cancelled \<equiv> ExecutorStopped StopRunnerCancelled"

inductive exec_step :: "('t, 'e) exec_sys \<Rightarrow> ('t, 'e) exec_sys \<Rightarrow> bool" where
  stop_mark:
    "request_stop_mark cause (sys_core s) = (Requested, c) \<Longrightarrow>
     exec_step s (s\<lparr>sys_core := c, sys_stop_unpublished := True\<rparr>)"
| stop_publish:
    "sys_stop_unpublished s \<Longrightarrow> request_stop_publish (sys_core s) = (c, effects) \<Longrightarrow>
     exec_step s (s\<lparr>sys_core := c, sys_stop_unpublished := False\<rparr>)"
| runner_claim:
    "sys_runner s = RunnerPending \<Longrightarrow> claim_start (sys_core s) = (True, c, effects) \<Longrightarrow>
     exec_step s (s\<lparr>sys_core := c, sys_runner := RunnerBody, sys_claimed := True\<rparr>)"
| runner_refused:
    "sys_runner s = RunnerPending \<Longrightarrow> claim_start (sys_core s) = (False, c, effects) \<Longrightarrow>
     commit_locked c (sys_cell s) runner_cancelled = (won, c', cell') \<Longrightarrow>
     exec_step s (s\<lparr>sys_core := c', sys_cell := cell', sys_runner := after_commit won\<rparr>)"
| body_return:
    "sys_runner s = RunnerBody \<Longrightarrow> sys_attempt_waiting s = [] \<Longrightarrow>
     close_children_begin (sys_core s) = (taken, c, effects) \<Longrightarrow>
     exec_step s (s\<lparr>sys_core := c, sys_runner := RunnerClosing exit taken\<rparr>)"
| body_abort:
    "sys_runner s = RunnerBody \<Longrightarrow> exit = join_error_exit (sys_core s) source None \<Longrightarrow>
     close_children_begin (sys_core s) = (taken, c, effects) \<Longrightarrow>
     exec_step s (s\<lparr>sys_core := c, sys_runner := RunnerClosing exit taken, sys_aborted := True\<rparr>)"
| runner_commit:
    "sys_runner s = RunnerClosing exit taken \<Longrightarrow> set taken \<subseteq> set (sys_done s) \<Longrightarrow>
     commit_locked (close_children_finish (taken \<noteq> []) (sys_core s)) (sys_cell s) exit
       = (won, c, cell') \<Longrightarrow>
     exec_step s (s\<lparr>sys_core := c, sys_cell := cell', sys_runner := after_commit won\<rparr>)"
| runner_drop:
    "\<not> runner_ended (sys_runner s) \<Longrightarrow>
     commit_locked (sys_core s) (sys_cell s) runner_cancelled = (won, c, cell') \<Longrightarrow>
     exec_step s (s\<lparr>sys_core := c, sys_cell := cell', sys_runner := after_commit won,
                    sys_dropped := True\<rparr>)"
| runner_publish:
    "sys_runner s = RunnerPublishing smry \<Longrightarrow> commit_publish smry (sys_core s) = (c, effects) \<Longrightarrow>
     exec_step s (s\<lparr>sys_core := c, sys_runner := RunnerFinished\<rparr>)"
| context_state:
    "sys_claimed s \<Longrightarrow> st = Running a \<or> st = Sleeping a w \<Longrightarrow> set_active_state st (sys_core s) = (c, effects) \<Longrightarrow>
     exec_step s (s\<lparr>sys_core := c\<rparr>)"
| attempt_begin:
    "sys_claimed s \<Longrightarrow>
     exec_step s (s\<lparr>sys_core := begin_attempt a (sys_core s)\<rparr>)"
| attempt_close:
    "sys_runner s = RunnerBody \<Longrightarrow>
     close_attempt_children_begin a (sys_core s) = (taken, c, effects) \<Longrightarrow>
     exec_step s (s\<lparr>sys_core := c, sys_attempt_waiting := sys_attempt_waiting s @ taken\<rparr>)"
| attempt_closed:
    "set (sys_attempt_waiting s) \<subseteq> set (sys_done s) \<Longrightarrow>
     exec_step s (s\<lparr>sys_core := close_children_finish (sys_attempt_waiting s \<noteq> []) (sys_core s),
                    sys_attempt_waiting := []\<rparr>)"
| child_spawned:
    "sys_claimed s \<Longrightarrow>
     spawn_child limit a (Inr child) (sys_core s) = (Inr child, c) \<Longrightarrow>
     exec_step s (s\<lparr>sys_core := c, sys_tracked := child # sys_tracked s\<rparr>)"
| child_terminal:
    "exec_step s (s\<lparr>sys_done := child # sys_done s\<rparr>)"
| forced_request:
    "request_forced_cancellation (sys_core s) = (outcome, c, effects) \<Longrightarrow>
     exec_step s (s\<lparr>sys_core := c\<rparr>)"
| abort_installed: "exec_step s (s\<lparr>sys_core := install_abort_handle (sys_core s)\<rparr>)"
| abort_cleared: "exec_step s (s\<lparr>sys_core := clear_abort_handle (sys_core s)\<rparr>)"
| resumed: "exec_step s (s\<lparr>sys_core := notify_resumed (sys_core s)\<rparr>)"
| cleanup_pending: "exec_step s (s\<lparr>sys_core := set_cleanup_pending phase (sys_core s)\<rparr>)"
| cleanup_finished: "exec_step s (s\<lparr>sys_core := finish_cleanup outcome (sys_core s)\<rparr>)"
| result_joined:
    "try_join (sys_core s) (sys_cell s) = (Inr (Some exit), cell') \<Longrightarrow>
     exec_step s (s\<lparr>sys_cell := cell', sys_delivered := sys_delivered s @ [exit]\<rparr>)"
| result_gone:
    "try_join (sys_core s) (sys_cell s) = (Inl AlreadyTaken, cell') \<Longrightarrow>
     exec_step s (s\<lparr>sys_cell := cell'\<rparr>)"

section \<open>Facts about the core's operations\<close>

lemmas core_op_defs =
  request_stop_mark_def request_stop_publish_def claim_start_def set_active_state_def
  close_children_begin_def close_attempt_children_begin_def close_children_finish_def
  begin_attempt_def spawn_child_def request_forced_cancellation_def install_abort_handle_def
  clear_abort_handle_def notify_resumed_def set_cleanup_pending_def finish_cleanup_def Let_def

text \<open>What the three fields of the state lock may say together.\<close>

definition core_wf :: "exec_core \<Rightarrow> bool" where
  "core_wf c \<longleftrightarrow>
     (case terminal (ec_state c) of
        Some smry \<Rightarrow> public_state (ec_state c) = summary_state smry
          \<and> (ec_terminal_watch c = None \<or> ec_terminal_watch c = Some smry)
      | None \<Rightarrow> ec_terminal_watch c = None \<and>
          (case stop_cause (ec_state c) of
             Some cause \<Rightarrow> public_state (ec_state c) = Stopping cause
           | None \<Rightarrow> \<not> is_terminal (public_state (ec_state c))
               \<and> (\<forall>cause. public_state (ec_state c) \<noteq> Stopping cause)))"

lemma core_wf_new: "core_wf (core_new i spec reg tag anc)"
  by (simp add: core_wf_def core_new_def)

lemma core_wf_terminal_iff:
  "core_wf c \<Longrightarrow> is_terminal (public_state (ec_state c)) \<longleftrightarrow> terminal (ec_state c) \<noteq> None"
  by (auto simp: core_wf_def split: option.splits)

text \<open>Operations that leave the state lock's fields and the terminal watch alone.\<close>

definition same_state :: "exec_core \<Rightarrow> exec_core \<Rightarrow> bool" where
  "same_state c c' \<longleftrightarrow> ec_state c' = ec_state c \<and> ec_terminal_watch c' = ec_terminal_watch c"

lemma same_state_refl: "same_state c c"
  by (simp add: same_state_def)

lemma same_state_wf: "same_state c c' \<Longrightarrow> core_wf c \<Longrightarrow> core_wf c'"
  by (auto simp: same_state_def core_wf_def split: option.splits)

lemma same_state_ops:
  "same_state c (begin_attempt a c)"
  "same_state c (install_abort_handle c)"
  "same_state c (clear_abort_handle c)"
  "same_state c (notify_resumed c)"
  "same_state c (set_cleanup_pending phase c)"
  "same_state c (finish_cleanup outcome c)"
  "same_state c (close_children_finish had c)"
  by (simp_all add: same_state_def core_op_defs)

lemma same_state_results:
  "request_stop_publish c = (c', effects) \<Longrightarrow> same_state c c'"
  "close_children_begin c = (taken, c', effects) \<Longrightarrow> same_state c c'"
  "close_attempt_children_begin a c = (taken, c', effects) \<Longrightarrow> same_state c c'"
  "spawn_child limit a child c = (result, c') \<Longrightarrow> same_state c c'"
  "request_forced_cancellation c = (outcome, c', effects) \<Longrightarrow> same_state c c'"
  by (auto simp: same_state_def core_op_defs split: if_splits sum.splits option.splits)

lemma claim_refused: "claim_start c = (False, c', effects) \<Longrightarrow> c' = c \<and>
    (terminal (ec_state c) \<noteq> None \<or> stop_cause (ec_state c) \<noteq> None)"
  by (auto simp: claim_start_def Let_def split: if_splits)

lemma commit_locked_fresh:
  assumes "terminal (ec_state c) = None"
  shows "commit_locked c None exit =
     (let selected = select_exit (stop_cause (ec_state c)) exit; smry = summary selected
      in (Some smry,
          c\<lparr>ec_state := (ec_state c)\<lparr>public_state := summary_state smry, terminal := Some smry\<rparr>\<rparr>,
          Some selected))"
  using assms by (simp add: commit_locked_def result_store_def Let_def)

section \<open>The invariant\<close>

text \<open>
  The cell and the deliveries agree with the terminal summary: nothing is stored or delivered
  before the execution is terminal, and afterwards exactly one exit exists, in the cell or delivered.
\<close>

definition result_inv :: "('t, 'e) exec_sys \<Rightarrow> bool" where
  "result_inv s \<longleftrightarrow>
     (case terminal (ec_state (sys_core s)) of
        None \<Rightarrow> sys_cell s = None \<and> sys_delivered s = []
      | Some smry \<Rightarrow>
          (\<exists>exit. summary exit = smry \<and>
             (sys_cell s = Some exit \<and> sys_delivered s = []
              \<or> sys_cell s = None \<and> sys_delivered s = [exit])))"

definition runner_inv :: "('t, 'e) exec_sys \<Rightarrow> bool" where
  "runner_inv s \<longleftrightarrow>
     (runner_ended (sys_runner s) \<longleftrightarrow> terminal (ec_state (sys_core s)) \<noteq> None)
     \<and> (sys_runner s = RunnerFinished \<longrightarrow> ec_terminal_watch (sys_core s) = terminal (ec_state (sys_core s)))
     \<and> (\<forall>smry. sys_runner s = RunnerPublishing smry \<longrightarrow> terminal (ec_state (sys_core s)) = Some smry)"

lemma runner_ended_simps [simp]:
  "runner_ended (RunnerPublishing smry)" "runner_ended RunnerFinished" "\<not> runner_ended RunnerPending"
  "\<not> runner_ended RunnerBody" "\<not> runner_ended (RunnerClosing exit taken)"
  by (simp_all add: runner_ended_def)

lemma runner_inv_ended: "runner_inv s \<Longrightarrow> runner_ended (sys_runner s) \<longleftrightarrow> terminal (ec_state (sys_core s)) \<noteq> None"
  by (simp add: runner_inv_def)

text \<open>
  Every child ever tracked is accounted for: still in the set, taken by the closing runner, waited
  for by a closing attempt, or terminal.
\<close>

definition taken_children :: "('t, 'e) runner_pc \<Rightarrow> execution_id list" where
  "taken_children pc = (case pc of RunnerClosing _ taken \<Rightarrow> taken | _ \<Rightarrow> [])"

definition children_inv :: "('t, 'e) exec_sys \<Rightarrow> bool" where
  "children_inv s \<longleftrightarrow>
     set (sys_tracked s)
       \<subseteq> child_control ` set (controls (ec_children (sys_core s)))
         \<union> set (taken_children (sys_runner s))
         \<union> set (sys_attempt_waiting s) \<union> set (sys_done s)"

text \<open>A runner that left its body has closed child admission for good.\<close>

definition admission_inv :: "('t, 'e) exec_sys \<Rightarrow> bool" where
  "admission_inv s \<longleftrightarrow>
     (case sys_runner s of
        RunnerPending \<Rightarrow> \<not> sys_claimed s
      | RunnerBody \<Rightarrow> sys_claimed s
      | RunnerClosing _ _ \<Rightarrow> sys_claimed s \<and> \<not> admission_open (ec_children (sys_core s))
          \<and> controls (ec_children (sys_core s)) = []
          \<and> (sys_aborted s \<or> sys_attempt_waiting s = [])
      | _ \<Rightarrow> (sys_claimed s \<longrightarrow> \<not> admission_open (ec_children (sys_core s)))
          \<and> controls (ec_children (sys_core s)) = []
          \<and> (sys_aborted s \<or> sys_attempt_waiting s = []))
     \<and> (\<not> sys_claimed s \<longrightarrow>
          controls (ec_children (sys_core s)) = [] \<and> sys_attempt_waiting s = [])"

definition structured_inv :: "('t, 'e) exec_sys \<Rightarrow> bool" where
  "structured_inv s \<longleftrightarrow> sys_dropped s \<or> children_inv s \<and> admission_inv s"

definition exec_inv :: "('t, 'e) exec_sys \<Rightarrow> bool" where
  "exec_inv s \<longleftrightarrow> core_wf (sys_core s) \<and> result_inv s \<and> runner_inv s"

lemma exec_inv_init: "exec_init s \<Longrightarrow> exec_inv s"
  by (auto simp: exec_init_def exec_inv_def core_wf_new result_inv_def runner_inv_def)
     (auto simp: core_new_def)

text \<open>Steps that only touch the core, without its state fields, keep the invariant.\<close>

lemma exec_inv_same_state:
  assumes "exec_inv s" and "same_state (sys_core s) (sys_core t)"
    and "sys_cell t = sys_cell s" and "sys_delivered t = sys_delivered s"
    and "sys_runner t = sys_runner s \<or> \<not> runner_ended (sys_runner s) \<and> \<not> runner_ended (sys_runner t)"
  shows "exec_inv t"
proof -
  from assms have "core_wf (sys_core t)" by (auto simp: exec_inv_def intro: same_state_wf)
  moreover have "result_inv t"
    using assms by (auto simp: exec_inv_def result_inv_def same_state_def split: option.splits)
  moreover have "runner_inv t"
    using assms by (auto simp: exec_inv_def runner_inv_def same_state_def)
  ultimately show ?thesis by (simp add: exec_inv_def)
qed

lemma exec_inv_commit:
  assumes inv: "exec_inv s" and running: "\<not> runner_ended (sys_runner s)"
    and same: "same_state (sys_core s) c"
    and commit: "commit_locked c (sys_cell s) exit = (won, c', cell')"
    and t: "sys_core t = c'" "sys_cell t = cell'" "sys_runner t = after_commit won"
      "sys_delivered t = sys_delivered s"
  shows "exec_inv t"
proof -
  from inv running have fresh: "terminal (ec_state c) = None" "sys_cell s = None" "sys_delivered s = []"
    and watch: "ec_terminal_watch c = None"
    using same runner_inv_ended [of s]
    by (auto simp: exec_inv_def result_inv_def same_state_def core_wf_def split: option.splits)
  from commit fresh watch show ?thesis
    by (auto simp: t commit_locked_fresh Let_def exec_inv_def core_wf_def result_inv_def runner_inv_def after_commit_def)
qed

lemma exec_inv_step:
  assumes inv: "exec_inv s" and step: "exec_step s t"
  shows "exec_inv t"
  using step
proof cases
  case (stop_mark cause c)
  then have fresh: "terminal (ec_state (sys_core s)) = None" "stop_cause (ec_state (sys_core s)) = None"
    and c: "c = (sys_core s)\<lparr>ec_state := (ec_state (sys_core s))\<lparr>stop_cause := Some cause, public_state := Stopping cause\<rparr>\<rparr>"
    by (auto simp: request_stop_mark_def split: if_splits)
  with inv stop_mark(1) show ?thesis
    by (auto simp: exec_inv_def core_wf_def result_inv_def runner_inv_def)
next
  case (runner_claim c effects)
  with inv show ?thesis
    by (auto simp: exec_inv_def core_wf_def result_inv_def runner_inv_def claim_start_def Let_def
        split: if_splits option.splits)
next
  case (runner_refused c effects won c' cell')
  from claim_refused [OF runner_refused(3)] have "same_state (sys_core s) c"
    by (simp add: same_state_def)
  from exec_inv_commit [OF inv _ this runner_refused(4)] runner_refused(1,2) show ?thesis
    by (simp add: runner_ended_def)
next
  case (runner_commit exit taken won c cell')
  from exec_inv_commit [OF inv _ same_state_ops(7) runner_commit(4)] runner_commit(1,2)
  show ?thesis by (simp add: runner_ended_def)
next
  case (runner_drop won c cell')
  from exec_inv_commit [OF inv runner_drop(2) _ runner_drop(3)] runner_drop(1)
  show ?thesis by (simp add: same_state_def)
next
  case (runner_publish smry c effects)
  with inv show ?thesis
    by (auto simp: exec_inv_def core_wf_def result_inv_def runner_inv_def commit_publish_def Let_def
        split: option.splits)
next
  case (context_state st a w c effects)
  with inv show ?thesis
    by (auto simp: exec_inv_def core_wf_def result_inv_def runner_inv_def set_active_state_def Let_def
        split: if_splits option.splits)
next
  case (result_joined exit cell')
  with inv show ?thesis
    by (auto simp: exec_inv_def result_inv_def runner_inv_def try_join_def result_take_def
        core_wf_terminal_iff split: if_splits option.splits)
next
  case (result_gone cell')
  with inv show ?thesis
    by (auto simp: exec_inv_def result_inv_def runner_inv_def try_join_def result_take_def
        core_wf_terminal_iff split: if_splits option.splits)
qed (rule exec_inv_same_state [OF inv]; auto simp: same_state_ops same_state_refl runner_ended_def intro: same_state_results)+

lemma structured_inv_init: "exec_init s \<Longrightarrow> structured_inv s"
  by (auto simp: exec_init_def structured_inv_def children_inv_def admission_inv_def core_new_def
      new_child_set_def)

lemma commit_children: "commit_locked c cell exit = (won, c', cell') \<Longrightarrow> ec_children c' = ec_children c"
  by (auto simp: commit_locked_def result_store_def Let_def split: if_splits option.splits)

lemma close_attempt_partition:
  assumes "close_attempt_children_begin a c = (taken, c', effects)"
  shows "child_control ` set (controls (ec_children c))
      = set taken \<union> child_control ` set (controls (ec_children c'))"
proof -
  from assms have "taken = map child_control (filter (\<lambda>x. child_attempt x = a) (controls (ec_children c)))"
    and "controls (ec_children c') = filter (\<lambda>x. child_attempt x \<noteq> a) (controls (ec_children c))"
    by (auto simp: close_attempt_children_begin_def set_cleanup_pending_def Let_def)
  then show ?thesis by auto
qed

lemmas structured_defs = structured_inv_def children_inv_def admission_inv_def taken_children_def

lemma structured_inv_step:
  assumes inv: "structured_inv s" and step: "exec_step s t"
  shows "structured_inv t"
  using step
proof cases
  case (attempt_close a taken c effects)
  have "sys_aborted t = sys_aborted s" and "sys_runner s = RunnerBody"
    using attempt_close by simp_all
  with attempt_close inv close_attempt_partition [OF attempt_close(3)] show ?thesis
    by (simp add: structured_defs) blast
next
  case (runner_refused c effects won c' cell')
  with inv claim_refused [OF runner_refused(3)] show ?thesis
    by (auto simp: structured_defs after_commit_def dest!: commit_children split: option.splits)
next
  case (runner_commit exit taken won c cell')
  with inv show ?thesis
    by (auto simp: structured_defs core_op_defs after_commit_def dest!: commit_children split: if_splits option.splits)
qed (insert inv; auto simp: structured_defs core_op_defs try_join_def result_take_def commit_publish_def
      split: if_splits option.splits runner_pc.splits)+

section \<open>The contracts, interpreted on the model\<close>

interpretation lifecycle: invariant_system exec_init exec_step exec_inv
  by unfold_locales (auto intro: exec_inv_init exec_inv_step)

interpretation structured: invariant_system exec_init exec_step structured_inv
  by unfold_locales (auto intro: structured_inv_init structured_inv_step)

lemma terminal_step:
  assumes "exec_step s t" and "terminal (ec_state (sys_core s)) = Some smry"
  shows "terminal (ec_state (sys_core t)) = Some smry"
  using assms
  by cases (auto simp: core_op_defs commit_locked_def commit_publish_def result_store_def
      split: if_splits option.splits)

lemma stop_cause_step:
  assumes "exec_step s t" and "stop_cause (ec_state (sys_core s)) = Some cause"
  shows "stop_cause (ec_state (sys_core t)) = Some cause"
  using assms
  by cases (auto simp: core_op_defs commit_locked_def commit_publish_def result_store_def
      split: if_splits option.splits)

interpretation terminal_exit: stable_observation exec_step "\<lambda>s. terminal (ec_state (sys_core s))"
  by unfold_locales (rule terminal_step)

interpretation first_stop: stable_observation exec_step "\<lambda>s. stop_cause (ec_state (sys_core s))"
  by unfold_locales (rule stop_cause_step)

text \<open>What the accepted stop cause says about the terminal exit.\<close>

definition outcome_ok :: "stop_cause option \<Rightarrow> task_exit_summary \<Rightarrow> bool" where
  "outcome_ok cause smry \<longleftrightarrow>
     (case cause of
        None \<Rightarrow> True
      | Some (CancelCause reason) \<Rightarrow> smry = SumCancelled reason \<or> (\<exists>before. smry = SumAborted before)
      | Some DeadlineCause \<Rightarrow> smry = SumFailed \<or> (\<exists>before. smry = SumAborted before))"

definition outcome_core :: "exec_core \<Rightarrow> ('t, 'e) result_cell \<Rightarrow> bool" where
  "outcome_core c cell \<longleftrightarrow>
     (case terminal (ec_state c) of
        None \<Rightarrow> cell = None
      | Some smry \<Rightarrow> outcome_ok (stop_cause (ec_state c)) smry)"

definition outcome_inv :: "('t, 'e) exec_sys \<Rightarrow> bool" where
  "outcome_inv s \<longleftrightarrow> outcome_core (sys_core s) (sys_cell s)"

lemma outcome_ok_select: "outcome_ok cause (summary (select_exit cause exit))"
  by (induction cause exit rule: select_exit.induct) (auto simp: outcome_ok_def split: option.splits stop_cause.splits)

lemma outcome_inv_init: "exec_init s \<Longrightarrow> outcome_inv s"
  by (auto simp: exec_init_def outcome_inv_def outcome_core_def core_new_def)

lemma outcome_core_commit:
  assumes "commit_locked c cell exit = (won, c', cell')" and "outcome_core c cell"
  shows "outcome_core c' cell'"
  using assms
  by (auto simp: outcome_core_def commit_locked_def result_store_def Let_def outcome_ok_select
      split: if_splits option.splits)

lemma outcome_core_same: "outcome_core c cell \<Longrightarrow> same_state c c' \<Longrightarrow> outcome_core c' cell"
  by (auto simp: outcome_core_def same_state_def split: option.splits)

lemma outcome_inv_same_state:
  assumes "outcome_inv s" and "same_state (sys_core s) (sys_core t)" and "sys_cell t = sys_cell s"
  shows "outcome_inv t"
  using assms by (simp add: outcome_inv_def outcome_core_same)

lemma outcome_inv_step:
  assumes inv: "outcome_inv s" and step: "exec_step s t"
  shows "outcome_inv t"
  using step
proof cases
  case (stop_mark cause c)
  with inv show ?thesis
    by (auto simp: outcome_inv_def outcome_core_def request_stop_mark_def split: if_splits option.splits)
next
  case (runner_claim c effects)
  with inv show ?thesis
    by (auto simp: outcome_inv_def outcome_core_def claim_start_def Let_def split: if_splits option.splits)
next
  case (runner_refused c effects won c' cell')
  with inv claim_refused [OF runner_refused(3)] outcome_core_commit [OF runner_refused(4)]
  show ?thesis by (simp add: outcome_inv_def)
next
  case (runner_commit exit taken won c cell')
  from inv have "outcome_core (close_children_finish (taken \<noteq> []) (sys_core s)) (sys_cell s)"
    unfolding outcome_inv_def by (rule outcome_core_same) (rule same_state_ops)
  with runner_commit(1) outcome_core_commit [OF runner_commit(4)]
  show ?thesis by (simp add: outcome_inv_def)
next
  case (runner_drop won c cell')
  with inv outcome_core_commit [OF runner_drop(3)]
  show ?thesis by (simp add: outcome_inv_def)
next
  case (runner_publish smry c effects)
  with inv show ?thesis
    by (auto simp: outcome_inv_def outcome_core_def commit_publish_def Let_def split: option.splits)
next
  case (context_state st a w c effects)
  with inv show ?thesis
    by (auto simp: outcome_inv_def outcome_core_def set_active_state_def Let_def split: if_splits option.splits)
next
  case (result_joined exit cell')
  with inv show ?thesis
    by (auto simp: outcome_inv_def outcome_core_def try_join_def result_take_def split: if_splits option.splits)
next
  case (result_gone cell')
  with inv show ?thesis
    by (auto simp: outcome_inv_def outcome_core_def try_join_def result_take_def split: if_splits option.splits)
qed (rule outcome_inv_same_state [OF inv]; auto simp: same_state_ops same_state_refl intro: same_state_results)+

interpretation outcome: invariant_system exec_init exec_step outcome_inv
  by unfold_locales (auto intro: outcome_inv_init outcome_inv_step)

text \<open>An execution that was stopped before its runner claimed the start never gets a context.\<close>

definition never_started :: "('t, 'e) exec_sys \<Rightarrow> bool" where
  "never_started s \<longleftrightarrow> \<not> sys_claimed s \<and> (sys_runner s = RunnerPending \<or> runner_ended (sys_runner s))
     \<and> stop_cause (ec_state (sys_core s)) \<noteq> None"

lemma never_started_step:
  assumes inv: "never_started s" and step: "exec_step s t"
  shows "never_started t"
proof -
  from inv obtain cause where "stop_cause (ec_state (sys_core s)) = Some cause"
    by (auto simp: never_started_def)
  with stop_cause_step [OF step] have "stop_cause (ec_state (sys_core t)) \<noteq> None" by simp
  with step inv show ?thesis
    by cases (auto simp: never_started_def claim_start_def runner_ended_def after_commit_def Let_def
        split: if_splits option.splits runner_pc.splits)
qed

interpretation stopped_early: invariant_system never_started exec_step never_started
  by unfold_locales (auto intro: never_started_step)

lemma sticky_step:
  assumes "exec_step s t" and "sticky_failure (ec_cleanup (sys_core s))"
  shows "sticky_failure (ec_cleanup (sys_core t))"
  using assms
proof cases
  case (cleanup_finished outcome)
  with assms(2) show ?thesis
    by (cases outcome) (auto simp: finish_cleanup_def Let_def)
qed (auto simp: core_op_defs commit_locked_def commit_publish_def result_store_def split: if_splits option.splits)

interpretation cleanup_failure: invariant_system
    "\<lambda>s. sticky_failure (ec_cleanup (sys_core s))" exec_step "\<lambda>s. sticky_failure (ec_cleanup (sys_core s))"
  by unfold_locales (auto intro: sticky_step)

lemma dropped_step:
  assumes "sys_dropped s \<longrightarrow> runner_ended (sys_runner s)" and "exec_step s t"
  shows "sys_dropped t \<longrightarrow> runner_ended (sys_runner t)"
  using assms(2,1) by cases (auto simp: runner_ended_def after_commit_def split: option.splits)

interpretation dropped: invariant_system exec_init exec_step
    "\<lambda>s. sys_dropped s \<longrightarrow> runner_ended (sys_runner s)"
  by unfold_locales (simp add: exec_init_def, rule dropped_step)

section \<open>A concrete run\<close>

text \<open>
  The instances the witnesses use: an execution claims its start, tracks a child, is cancelled by
  its user while running, returns a value, waits for the child, commits and hands out its result.
\<close>

definition run0 :: "(nat, nat) exec_sys" where
  "run0 = \<lparr>sys_core = core_new 1 1 True None [], sys_cell = None, sys_runner = RunnerPending,
     sys_claimed = False, sys_stop_unpublished = False, sys_attempt_waiting = [], sys_delivered = [],
     sys_tracked = [], sys_done = [], sys_dropped = False, sys_aborted = False\<rparr>"

definition run1 where
  "run1 = run0\<lparr>sys_core := fst (snd (claim_start (sys_core run0))), sys_runner := RunnerBody, sys_claimed := True\<rparr>"
definition run2 where
  "run2 = run1\<lparr>sys_core := snd (spawn_child (Some 4) 1 (Inr 7) (sys_core run1)), sys_tracked := [7]\<rparr>"
definition run3 where
  "run3 = run2\<lparr>sys_core := snd (request_stop_mark (CancelCause UserRequested) (sys_core run2)),
     sys_stop_unpublished := True\<rparr>"
definition run4 where
  "run4 = run3\<lparr>sys_core := fst (snd (close_children_begin (sys_core run3))),
     sys_runner := RunnerClosing (Completed 5) [7]\<rparr>"
definition run5 where "run5 = run4\<lparr>sys_done := [7]\<rparr>"
definition run6 where
  "run6 = (let (won, c, cell) =
       commit_locked (close_children_finish True (sys_core run5)) (sys_cell run5) (Completed 5)
     in run5\<lparr>sys_core := c, sys_cell := cell, sys_runner := RunnerPublishing (SumCancelled UserRequested)\<rparr>)"
definition run6p where
  "run6p = run6\<lparr>sys_core := fst (commit_publish (SumCancelled UserRequested) (sys_core run6)), sys_runner := RunnerFinished\<rparr>"
definition run7 where
  "run7 = run6p\<lparr>sys_cell := None, sys_delivered := [Cancelled UserRequested]\<rparr>"

lemmas run_defs = run0_def run1_def run2_def run3_def run4_def run5_def run6_def run6p_def run7_def
lemmas core_compute = core_op_defs core_new_def new_child_set_def emit_state_def commit_locked_def
  commit_publish_def after_commit_def
  result_store_def result_take_def try_join_def

lemma run_init: "exec_init run0"
  unfolding exec_init_def run0_def by (simp del: One_nat_def) blast

lemma run_steps1: "exec_step run0 run1"
  unfolding run1_def by (rule exec_step.runner_claim [where effects = "[]"]) (simp_all add: run0_def core_compute)

lemma run_steps2: "exec_step run1 run2"
  using exec_step.child_spawned [of run1 "Some 4" 1 7] by (simp add: run_defs core_compute)

lemma run_steps3: "exec_step run2 run3"
  using exec_step.stop_mark [of "CancelCause UserRequested" run2] by (simp add: run_defs core_compute)

lemma run_steps4: "exec_step run3 run4"
  using exec_step.body_return [of run3 "[7]" _ _ "Completed 5"] by (simp add: run_defs core_compute)

lemma run_steps5: "exec_step run4 run5"
  using exec_step.child_terminal [of run4 7] by (simp add: run_defs core_compute)

lemma run_steps6: "exec_step run5 run6"
  using exec_step.runner_commit [of run5 "Completed 5" "[7]"] by (simp add: run_defs core_compute)

lemma run_steps6p: "exec_step run6 run6p"
  using exec_step.runner_publish [of run6 "SumCancelled UserRequested"] by (simp add: run_defs core_compute)

lemma run_steps7: "exec_step run6p run7"
  using exec_step.result_joined [of run6p "Cancelled UserRequested" None] by (simp add: run_defs core_compute)

lemma run_reach3: "reach exec_init exec_step run3"
  by (rule reach_step [OF reach_step [OF reach_step [OF reach_init]]])
     (rule run_init run_steps1 run_steps2 run_steps3)+

lemma run_reach6: "reach exec_init exec_step run6"
  by (rule reach_step [OF reach_step [OF reach_step [OF run_reach3]]])
     (rule run_steps4 run_steps5 run_steps6)+

lemma run_reach7: "reach exec_init exec_step run7"
  by (rule reach_step [OF reach_step [OF run_reach6 run_steps6p] run_steps7])

lemma run_later: "exec_step\<^sup>*\<^sup>* run3 run7" "exec_step\<^sup>*\<^sup>* run6 run7"
  using run_steps4 run_steps5 run_steps6 run_steps6p run_steps7
  by (auto intro: converse_rtranclp_into_rtranclp)

section \<open>Properties\<close>

text \<open>
  C1. The terminal exit of an execution is final: once a reachable execution has a terminal summary,
  every continuation of it, whatever is requested or dropped meanwhile, still has that summary, the
  public state says the same, and the terminal watch channel says the same or nothing yet, and
  the same once the runner has finished.
\<close>

theorem terminal_exit_is_final:
  assumes "reach exec_init exec_step s" and "exec_step\<^sup>*\<^sup>* s t"
    and "terminal (ec_state (sys_core s)) = Some smry"
  shows "terminal (ec_state (sys_core t)) = Some smry
    \<and> public_state (ec_state (sys_core t)) = summary_state smry
    \<and> (ec_terminal_watch (sys_core t) = None \<or> ec_terminal_watch (sys_core t) = Some smry)
    \<and> (sys_runner t = RunnerFinished \<longrightarrow> ec_terminal_watch (sys_core t) = Some smry)"
proof -
  have "terminal (ec_state (sys_core t)) = Some smry"
    using terminal_exit.steps_stable assms(2,3) .
  moreover have "exec_inv t"
    using lifecycle.reach_inv [OF reach_steps [OF assms(1,2)]] .
  ultimately show ?thesis by (simp add: exec_inv_def core_wf_def runner_inv_def)
qed

theorem terminal_exit_is_final_witness:
  "terminal (ec_state (sys_core run7)) = Some (SumCancelled UserRequested)"
  using terminal_exit_is_final [OF run_reach6 run_later(2), of "SumCancelled UserRequested"]
  by (simp add: run_defs core_compute)

text \<open>
  The first stop cause wins: once a cancellation or a deadline is accepted, the recorded cause
  never changes and every later request is refused.
\<close>

theorem first_stop_cause_wins:
  assumes "exec_step\<^sup>*\<^sup>* s t" and "stop_cause (ec_state (sys_core s)) = Some cause"
  shows "stop_cause (ec_state (sys_core t)) = Some cause
    \<and> fst (request_stop other (sys_core t)) \<noteq> Requested"
proof -
  have "stop_cause (ec_state (sys_core t)) = Some cause"
    using first_stop.steps_stable assms .
  then show ?thesis by (simp add: request_stop_def request_stop_mark_def)
qed

theorem first_stop_cause_wins_witness:
  "stop_cause (ec_state (sys_core run7)) = Some (CancelCause UserRequested)
   \<and> fst (request_stop DeadlineCause (sys_core run7)) \<noteq> Requested"
  using first_stop_cause_wins [OF run_later(1), of "CancelCause UserRequested" DeadlineCause]
  by (simp add: run_defs core_compute)

text \<open>
  The typed result is delivered at most once, and never anything but the terminal exit: in every
  reachable state the exits handed out by joins number at most one, each has the terminal summary as
  its summary, and none is handed out before the execution is terminal.
\<close>

theorem result_delivered_at_most_once:
  assumes "reach exec_init exec_step s"
  shows "length (sys_delivered s) \<le> 1
    \<and> (\<forall>exit \<in> set (sys_delivered s). terminal (ec_state (sys_core s)) = Some (summary exit))
    \<and> (sys_delivered s \<noteq> [] \<longrightarrow> sys_cell s = None)"
  using lifecycle.reach_inv [OF assms] by (auto simp: exec_inv_def result_inv_def split: option.splits)

theorem result_delivered_at_most_once_witness:
  "sys_delivered run7 = [Cancelled UserRequested]
   \<and> terminal (ec_state (sys_core run7)) = Some (summary (Cancelled UserRequested :: (nat, nat) task_exit))"
  using result_delivered_at_most_once [OF run_reach7] by (simp add: run7_def)

text \<open>
  The runner and the terminal exit go together: a runner has passed its commit, even by being
  dropped, exactly when its execution is terminal, in its public state too; the typed exit is then
  in the cell or already delivered, and once the runner has finished, waiters are told.
\<close>

theorem runner_end_is_terminal:
  assumes "reach exec_init exec_step s"
  shows "runner_ended (sys_runner s) = (\<exists>smry. terminal (ec_state (sys_core s)) = Some smry)
    \<and> runner_ended (sys_runner s) = is_terminal (public_state (ec_state (sys_core s)))
    \<and> (runner_ended (sys_runner s) \<longrightarrow> sys_cell s \<noteq> None \<or> sys_delivered s \<noteq> [])
    \<and> (sys_runner s = RunnerFinished \<longrightarrow> ec_terminal_watch (sys_core s) \<noteq> None)"
proof -
  from lifecycle.reach_inv [OF assms] have inv: "core_wf (sys_core s)" "result_inv s" "runner_inv s"
    by (simp_all add: exec_inv_def)
  note ended = runner_inv_ended [OF inv(3)] and terminal = core_wf_terminal_iff [OF inv(1)]
  have "runner_ended (sys_runner s) \<longrightarrow> sys_cell s \<noteq> None \<or> sys_delivered s \<noteq> []"
    using inv(2) ended by (auto simp: result_inv_def split: option.splits)
  moreover have "sys_runner s = RunnerFinished \<longrightarrow> ec_terminal_watch (sys_core s) \<noteq> None"
    using inv(3) by (auto simp: runner_inv_def)
  ultimately show ?thesis using ended terminal by auto
qed

theorem runner_end_is_terminal_witness:
  "runner_ended (sys_runner run6) \<and> is_terminal (public_state (ec_state (sys_core run6)))"
  using runner_end_is_terminal [OF run_reach6] by (simp add: run_defs core_compute runner_ended_def)

text \<open>
  C8. Structured concurrency: when a runner ends by itself (it was not dropped and its body was not
  aborted), every child the execution ever tracked is terminal, and no child can be admitted any more.
\<close>

theorem children_end_before_parent:
  assumes "reach exec_init exec_step s" and "runner_ended (sys_runner s)"
    and "\<not> sys_dropped s" and "\<not> sys_aborted s"
  shows "set (sys_tracked s) \<subseteq> set (sys_done s)
    \<and> (sys_claimed s \<longrightarrow> fst (spawn_child limit a child (sys_core s)) = Inl ParentClosing)"
  using structured.reach_inv [OF assms(1)] assms(2-4)
  by (auto simp: structured_defs spawn_child_def runner_ended_def Let_def split: runner_pc.splits)

theorem children_end_before_parent_witness:
  "sys_tracked run6 = [7] \<and> set (sys_tracked run6) \<subseteq> set (sys_done run6)"
  using children_end_before_parent [OF run_reach6] by (simp add: run_defs core_compute runner_ended_def)



text \<open>
  An execution stopped while it is still queued never runs: its runner never enters the body
  and never creates a work context, in any continuation.
\<close>

theorem stopped_while_queued_never_runs:
  assumes "reach exec_init exec_step s" and "sys_runner s = RunnerPending"
    and "stop_cause (ec_state (sys_core s)) \<noteq> None" and "exec_step\<^sup>*\<^sup>* s t"
  shows "\<not> sys_claimed t \<and> (sys_runner t = RunnerPending \<or> runner_ended (sys_runner t))"
proof (cases "sys_dropped s")
  case True
  with dropped.reach_inv [OF assms(1)] assms(2) show ?thesis by simp
next
  case False
  with structured.reach_inv [OF assms(1)] assms(2,3) have "never_started s"
    by (simp add: structured_inv_def admission_inv_def never_started_def)
  from stopped_early.steps_inv [OF assms(4) this] show ?thesis by (simp add: never_started_def)
qed

theorem stopped_while_queued_never_runs_witness:
  "\<not> sys_claimed (run0\<lparr>sys_core := snd (request_stop_mark DeadlineCause (sys_core run0)), sys_stop_unpublished := True\<rparr>)"
proof -
  let ?t = "run0\<lparr>sys_core := snd (request_stop_mark DeadlineCause (sys_core run0)), sys_stop_unpublished := True\<rparr>"
  have "exec_step run0 ?t"
    by (rule exec_step.stop_mark [of DeadlineCause]) (simp add: run_defs core_compute)
  with run_init have "reach exec_init exec_step ?t" by (blast intro: reach_init reach_step)
  from stopped_while_queued_never_runs [OF this _ _ rtranclp.rtrancl_refl] show ?thesis
    by (simp add: run_defs core_compute)
qed

text \<open>
  A cleanup failure is sticky: after a cleanup failed or was forcibly cancelled, no later
  cleanup of the execution, pending or successful, hides the failure.
\<close>

theorem cleanup_failure_is_sticky:
  assumes "sticky_failure (ec_cleanup (sys_core s))" and "exec_step\<^sup>*\<^sup>* s t"
  shows "sticky_failure (ec_cleanup (sys_core t))"
  using cleanup_failure.steps_inv [OF assms(2,1)] .

theorem cleanup_failure_is_sticky_witness:
  "sticky_failure (ec_cleanup (finish_cleanup CleanupCompleted
     (finish_cleanup (CleanupFailed ''hook'') (sys_core run0))))"
  using cleanup_failure_is_sticky [of
      "run0\<lparr>sys_core := finish_cleanup (CleanupFailed ''hook'') (sys_core run0)\<rparr>"
      "run0\<lparr>sys_core := finish_cleanup CleanupCompleted (finish_cleanup (CleanupFailed ''hook'') (sys_core run0))\<rparr>"]
    exec_step.cleanup_finished [of
      "run0\<lparr>sys_core := finish_cleanup (CleanupFailed ''hook'') (sys_core run0)\<rparr>" CleanupCompleted]
  by (simp add: run_defs core_compute)

text \<open>
  C11. What an observer reads is consistent.  In every reachable state the snapshot of an execution
  is in a terminal state exactly when it carries the final exit, which then fixes the state; without one
  it shows \<open>Stopping\<close> exactly for the recorded cause, and is queued or running when there is none;
  the terminal watch never shows anything but that final exit.
\<close>

theorem snapshot_is_consistent:
  assumes "reach exec_init exec_step s"
  shows "is_terminal (snap_state (snapshot (sys_core s))) = (snap_final_exit (snapshot (sys_core s)) \<noteq> None)
    \<and> (\<forall>smry. snap_final_exit (snapshot (sys_core s)) = Some smry \<longrightarrow>
        snap_state (snapshot (sys_core s)) = summary_state smry)
    \<and> (snap_final_exit (snapshot (sys_core s)) = None \<longrightarrow>
        (\<forall>cause. snap_state (snapshot (sys_core s)) = Stopping cause \<longleftrightarrow> snap_stop_cause (snapshot (sys_core s)) = Some cause))
    \<and> (ec_terminal_watch (sys_core s) = None \<or> ec_terminal_watch (sys_core s) = snap_final_exit (snapshot (sys_core s)))"
proof -
  have wf: "core_wf (sys_core s)" using lifecycle.reach_inv [OF assms] by (simp add: exec_inv_def)
  note terminal = core_wf_terminal_iff [OF wf]
  have live: "terminal (ec_state (sys_core s)) = None \<longrightarrow>
      (\<forall>cause. public_state (ec_state (sys_core s)) = Stopping cause \<longleftrightarrow> stop_cause (ec_state (sys_core s)) = Some cause)"
    using wf by (auto simp: core_wf_def split: option.splits)
  have ended: "\<forall>smry. terminal (ec_state (sys_core s)) = Some smry \<longrightarrow> public_state (ec_state (sys_core s)) = summary_state smry"
    and watch: "ec_terminal_watch (sys_core s) = None \<or> ec_terminal_watch (sys_core s) = terminal (ec_state (sys_core s))"
    using wf by (auto simp: core_wf_def split: option.splits)
  show ?thesis using terminal ended live watch by (simp add: snapshot_def)
qed

theorem snapshot_is_consistent_witness:
  "snap_state (snapshot (sys_core run7)) = StCancelled \<and> snap_final_exit (snapshot (sys_core run7)) = Some (SumCancelled UserRequested)"
proof -
  have "snap_final_exit (snapshot (sys_core run7)) = Some (SumCancelled UserRequested)"
    by (simp add: run_defs core_compute snapshot_def)
  with snapshot_is_consistent [OF run_reach7] show ?thesis by simp
qed

end
