(* ===== verification/BB_Registry.thy ===== *)
theory BB_Registry
  imports BB_Execution
begin

text \<open>
  The registry of executions (\<open>ExecutionRegistry\<close> in \<open>execution.rs\<close>) and its observation
  interface (\<open>observation.rs\<close>): admission into the active set, removal at the terminal commit, the
  bounded and time-limited terminal history, event subscribers, and cancellation snapshots.
  Results: the bounds, the exact content of the history and of a cancellation report, and the
  entry that a registration after the terminal commit leaves behind.
\<close>

section \<open>State\<close>

datatype (plugins only: code size) task_event =
    Admitted task_snapshot
  | StateChanged task_snapshot
  | TerminalEvent execution_id task_exit_summary

datatype (plugins only: code size) task_selector =
    SelExecution execution_id
  | SelSpec task_spec_id
  | SelTag string
  | SelLane lane_id
  | SelScope scope_id

datatype (plugins only: code size) event_subscribe_error = SubscriberLimitReached

text \<open>
  \<open>reg_cores\<close> is the shared memory of the execution cores, by identity; \<open>reg_active\<close> is the key set
  of the active map, whose values are pointers to those cores; \<open>reg_events\<close> lists what was sent to
  the broadcast channel.
\<close>

type_synonym core_store = "(execution_id \<times> exec_core) list"
type_synonym history_entry = "execution_id \<times> task_exit_summary \<times> instant"

record registry_state =
  reg_cores :: core_store
  reg_active :: "execution_id list"
  reg_history :: "history_entry list"
  reg_limits :: resource_limits
  reg_events :: "task_event list"
  reg_subscribers :: usize

definition registry_new :: "resource_limits \<Rightarrow> registry_state" where
  "registry_new limits = \<lparr>reg_cores = [], reg_active = [], reg_history = [], reg_limits = limits,
     reg_events = [], reg_subscribers = 0\<rparr>"

section \<open>Operations\<close>

text \<open>Without the tracing feature an event is built and sent only when somebody subscribed.\<close>

definition should_capture_event_snapshot :: "registry_state \<Rightarrow> bool" where
  "should_capture_event_snapshot r \<longleftrightarrow> reg_subscribers r > 0"

definition emit :: "task_event \<Rightarrow> registry_state \<Rightarrow> registry_state" where
  "emit event r = (if reg_subscribers r = 0 then r else r\<lparr>reg_events := reg_events r @ [event]\<rparr>)"

definition registry_register :: "exec_core \<Rightarrow> registry_state \<Rightarrow> (beaver_error + unit) \<times> registry_state" where
  "registry_register c r =
     (if (case ec_tag c of None \<Rightarrow> False | Some tag \<Rightarrow> unat (max_tag_bytes (reg_limits r)) < length tag)
      then (Inl (ResourceLimitExceeded ''tag bytes''), r)
      else if unat (max_active_executions (reg_limits r)) \<le> length (reg_active r)
      then (Inl (ResourceLimitExceeded ''active executions''), r)
      else
        let r1 = r\<lparr>reg_active := (if ec_execution_id c \<in> set (reg_active r) then reg_active r
                                  else reg_active r @ [ec_execution_id c])\<rparr>
        in (Inr (), if should_capture_event_snapshot r1 then emit (Admitted (snapshot c)) r1 else r1))"

text \<open>\<open>ExecutionCore::register\<close>: at most once per core, undone when the registry refuses it.\<close>

definition core_register :: "execution_id \<Rightarrow> registry_state \<Rightarrow> (beaver_error + unit) \<times> registry_state" where
  "core_register i r =
     (case map_of (reg_cores r) i of
        None \<Rightarrow> (Inr (), r)
      | Some c \<Rightarrow>
          if \<not> ec_has_registry c then (Inr (), r)
          else if ec_registered c then (Inr (), r)
          else
            let c' = c\<lparr>ec_registered := True\<rparr>;
                r1 = r\<lparr>reg_cores := AList.update i c' (reg_cores r)\<rparr>
            in case registry_register c' r1 of
                 (Inl error, r2) \<Rightarrow>
                   (Inl error, r2\<lparr>reg_cores := AList.update i (c'\<lparr>ec_registered := False\<rparr>) (reg_cores r2)\<rparr>)
               | (Inr u, r2) \<Rightarrow> (Inr u, r2))"

definition evict_expired :: "duration option \<Rightarrow> instant \<Rightarrow> history_entry list \<Rightarrow> history_entry list" where
  "evict_expired ttl now history =
     (case ttl of
        None \<Rightarrow> history
      | Some limit \<Rightarrow> dropWhile (\<lambda>(_, _, inserted). limit \<le> duration_since now inserted) history)"

text \<open>\<open>now\<close> is read for the eviction, \<open>stamp\<close> for the new record.\<close>

definition registry_finish ::
  "instant \<Rightarrow> instant \<Rightarrow> execution_id \<Rightarrow> task_exit_summary \<Rightarrow> registry_state \<Rightarrow> registry_state" where
  "registry_finish now stamp i smry r =
     (let r1 = r\<lparr>reg_active := removeAll i (reg_active r)\<rparr>;
          h = evict_expired (terminal_history_ttl (reg_limits r)) now (reg_history r1);
          capacity = unat (terminal_history_capacity (reg_limits r))
      in if capacity = 0 then emit (TerminalEvent i smry) (r1\<lparr>reg_history := h\<rparr>)
         else let h1 = (if length h = capacity then tl h else h)
              in emit (TerminalEvent i smry) (r1\<lparr>reg_history := h1 @ [(i, smry, stamp)]\<rparr>))"

definition registry_history ::
  "instant \<Rightarrow> registry_state \<Rightarrow> (execution_id \<times> task_exit_summary) list \<times> registry_state" where
  "registry_history now r =
     (let h = evict_expired (terminal_history_ttl (reg_limits r)) now (reg_history r)
      in (map (\<lambda>(i, smry, _). (i, smry)) h, r\<lparr>reg_history := h\<rparr>))"

definition registry_summary ::
  "instant \<Rightarrow> execution_id \<Rightarrow> registry_state \<Rightarrow> task_exit_summary option \<times> registry_state" where
  "registry_summary now i r =
     (let h = evict_expired (terminal_history_ttl (reg_limits r)) now (reg_history r)
      in (map_option (\<lambda>(_, smry, _). smry) (find (\<lambda>(j, _, _). j = i) (rev h)), r\<lparr>reg_history := h\<rparr>))"

text \<open>
  The compare-and-swap loop of \<open>subscribe\<close>, for the values the counter has at the successive swap
  attempts: the outer option is None when the loop is still running after them.
\<close>

fun subscribe_loop :: "usize \<Rightarrow> usize \<Rightarrow> usize list \<Rightarrow> (event_subscribe_error + usize) option" where
  "subscribe_loop limit current seen =
     (if limit \<le> current then Some (Inl SubscriberLimitReached)
      else case checked_add current 1 of
             None \<Rightarrow> Some (Inl SubscriberLimitReached)
           | Some next \<Rightarrow>
               (case seen of
                  [] \<Rightarrow> None
                | actual # rest \<Rightarrow>
                    if actual = current then Some (Inr next) else subscribe_loop limit actual rest))"

declare subscribe_loop.simps [simp del]

definition registry_subscribe :: "registry_state \<Rightarrow> (event_subscribe_error + unit) \<times> registry_state" where
  "registry_subscribe r =
     (case subscribe_loop (max_event_subscribers (reg_limits r)) (reg_subscribers r) [reg_subscribers r] of
        Some (Inr next) \<Rightarrow> (Inr (), r\<lparr>reg_subscribers := next\<rparr>)
      | _ \<Rightarrow> (Inl SubscriberLimitReached, r))"

definition event_stream_drop :: "registry_state \<Rightarrow> registry_state" where
  "event_stream_drop r = r\<lparr>reg_subscribers := reg_subscribers r - 1\<rparr>"

definition registry_snapshots :: "registry_state \<Rightarrow> task_snapshot list" where
  "registry_snapshots r =
     sort_key snap_execution_id (map snapshot (List.map_filter (map_of (reg_cores r)) (reg_active r)))"

definition selector_matches :: "task_selector \<Rightarrow> exec_core \<Rightarrow> bool" where
  "selector_matches selector c =
     (case selector of
        SelExecution i \<Rightarrow> ec_execution_id c = i
      | SelSpec i \<Rightarrow> ec_task_spec_id c = i
      | SelTag tag \<Rightarrow> ec_tag c = Some tag
      | SelLane i \<Rightarrow> ec_lane_id c = Some i
      | SelScope i \<Rightarrow> ec_scope_id c = Some i)"

definition select_controls :: "task_selector \<Rightarrow> registry_state \<Rightarrow> execution_id list" where
  "select_controls selector r =
     sort (filter (\<lambda>i. case map_of (reg_cores r) i of None \<Rightarrow> False | Some c \<Rightarrow> selector_matches selector c)
             (reg_active r))"

text \<open>
  A cancellation through a control: the core's request, its effects on this registry's events, and
  the remaining effects (the lane's hook and the children, which belong to no registry).
\<close>

primrec record_effect :: "exec_effect \<Rightarrow> registry_state \<Rightarrow> registry_state" where
  "record_effect (EmitStateChanged snap) r = emit (StateChanged snap) r"
| "record_effect (RunHook hook) r = r"
| "record_effect (CancelControl i reason) r = r"
| "record_effect (WaitControl i) r = r"
| "record_effect AbortBody r = r"
| "record_effect (RegistryFinish i smry) r = r"

definition control_cancel ::
  "cancel_reason \<Rightarrow> execution_id \<Rightarrow> registry_state
   \<Rightarrow> cancel_request_outcome \<times> registry_state \<times> exec_effect list" where
  "control_cancel reason i r =
     (case map_of (reg_cores r) i of
        None \<Rightarrow> (AlreadyTerminal, r, [])
      | Some c \<Rightarrow>
          (case cancel reason c of
             (outcome, c', effects) \<Rightarrow>
               (outcome, fold record_effect effects (r\<lparr>reg_cores := AList.update i c' (reg_cores r)\<rparr>),
                effects)))"

primrec cancel_controls ::
  "cancel_reason \<Rightarrow> execution_id list \<Rightarrow> registry_state
   \<Rightarrow> (execution_id \<times> cancel_request_outcome) list \<times> registry_state" where
  "cancel_controls reason [] r = ([], r)"
| "cancel_controls reason (i # rest) r =
     (let (outcome, r1, _) = control_cancel reason i r;
          (records, r2) = cancel_controls reason rest r1
      in ((i, outcome) # records, r2))"

definition cancel_snapshot ::
  "task_selector \<Rightarrow> cancel_reason \<Rightarrow> registry_state
   \<Rightarrow> (execution_id \<times> cancel_request_outcome) list \<times> registry_state" where
  "cancel_snapshot selector reason r = cancel_controls reason (select_controls selector r) r"

text \<open>Dropping the last owner of the executor cancels every active execution.\<close>

definition lifetime_drop :: "registry_state \<Rightarrow> registry_state" where
  "lifetime_drop r = snd (cancel_controls ExecutorShutdown (reg_active r) r)"

definition registry_notify_resumed :: "registry_state \<Rightarrow> nat \<times> registry_state" where
  "registry_notify_resumed r =
     (length (reg_active r),
      r\<lparr>reg_cores := map (\<lambda>(i, c). (i, if i \<in> set (reg_active r) then notify_resumed c else c)) (reg_cores r)\<rparr>)"

text \<open>The terminal commit of a registered core, with the registry's part of it.\<close>

definition registry_commit ::
  "instant \<Rightarrow> instant \<Rightarrow> execution_id \<Rightarrow> ('t, 'e) result_cell \<Rightarrow> ('t, 'e) task_exit \<Rightarrow> registry_state
   \<Rightarrow> bool \<times> ('t, 'e) result_cell \<times> registry_state" where
  "registry_commit now stamp i cell exit r =
     (case map_of (reg_cores r) i of
        None \<Rightarrow> (False, cell, r)
      | Some c \<Rightarrow>
          (case commit c cell exit of
             (won, c', cell', effects) \<Rightarrow>
               let r1 = r\<lparr>reg_cores := AList.update i c' (reg_cores r)\<rparr>
               in (won, cell',
                   case effects of
                     [RegistryFinish j smry] \<Rightarrow> registry_finish now stamp j smry r1
                   | _ \<Rightarrow> r1)))"

section \<open>Invariant\<close>

definition cores_ok :: "registry_state \<Rightarrow> bool" where
  "cores_ok r \<longleftrightarrow> distinct (keys (reg_cores r))
     \<and> (\<forall>i c. map_of (reg_cores r) i = Some c \<longrightarrow> ec_execution_id c = i)"

definition active_ok :: "registry_state \<Rightarrow> bool" where
  "active_ok r \<longleftrightarrow> distinct (reg_active r)
     \<and> length (reg_active r) \<le> unat (max_active_executions (reg_limits r))"

definition history_ok :: "instant \<Rightarrow> registry_state \<Rightarrow> bool" where
  "history_ok t r \<longleftrightarrow> length (reg_history r) \<le> unat (terminal_history_capacity (reg_limits r))
     \<and> sorted (map (\<lambda>e. snd (snd e)) (reg_history r))
     \<and> (\<forall>e \<in> set (reg_history r). snd (snd e) \<le> t)"

definition subscribers_ok :: "registry_state \<Rightarrow> bool" where
  "subscribers_ok r \<longleftrightarrow> reg_subscribers r \<le> max_event_subscribers (reg_limits r)"

definition registry_inv :: "instant \<times> registry_state \<Rightarrow> bool" where
  "registry_inv s \<longleftrightarrow>
     cores_ok (snd s) \<and> active_ok (snd s) \<and> history_ok (fst s) (snd s) \<and> subscribers_ok (snd s)"

lemmas registry_inv_defs = registry_inv_def cores_ok_def active_ok_def history_ok_def subscribers_ok_def

lemma emit_fields [simp]:
  "reg_cores (emit e r) = reg_cores r" "reg_active (emit e r) = reg_active r"
  "reg_history (emit e r) = reg_history r" "reg_limits (emit e r) = reg_limits r"
  "reg_subscribers (emit e r) = reg_subscribers r"
  by (simp_all add: emit_def)

lemma record_effect_fields [simp]:
  "reg_cores (record_effect e r) = reg_cores r" "reg_active (record_effect e r) = reg_active r"
  "reg_history (record_effect e r) = reg_history r" "reg_limits (record_effect e r) = reg_limits r"
  "reg_subscribers (record_effect e r) = reg_subscribers r"
  by (cases e; simp)+

lemma record_effects_fields [simp]:
  "reg_cores (fold record_effect es r) = reg_cores r" "reg_active (fold record_effect es r) = reg_active r"
  "reg_history (fold record_effect es r) = reg_history r" "reg_limits (fold record_effect es r) = reg_limits r"
  "reg_subscribers (fold record_effect es r) = reg_subscribers r"
  by (induction es arbitrary: r) simp_all

text \<open>Writing a core back under its own identity.\<close>

lemma cores_ok_update:
  "cores_ok r \<Longrightarrow> ec_execution_id c = i \<Longrightarrow> reg_cores r' = AList.update i c (reg_cores r) \<Longrightarrow> cores_ok r'"
  by (auto simp: cores_ok_def map_of_update distinct_update)

lemma registry_inv_core_update:
  assumes "registry_inv (t, r)" and "ec_execution_id c = i" and "reg_cores r' = AList.update i c (reg_cores r)"
    and "reg_active r' = reg_active r" "reg_history r' = reg_history r" "reg_limits r' = reg_limits r"
    and "reg_subscribers r' = reg_subscribers r"
  shows "registry_inv (t, r')"
  using assms cores_ok_update [of r c i r']
  by (simp add: registry_inv_def active_ok_def history_ok_def subscribers_ok_def)

lemma set_tl_subset: "set (tl xs) \<subseteq> set xs"
  by (cases xs) auto

lemma cancel_execution_id: "cancel reason c = (outcome, c', effects) \<Longrightarrow> ec_execution_id c' = ec_execution_id c"
  by (auto simp: cancel_def request_stop_def request_stop_mark_def request_stop_publish_def Let_def
      split: if_splits cancel_request_outcome.splits)

lemma commit_execution_id: "commit c cell exit = (won, c', cell', effects) \<Longrightarrow> ec_execution_id c' = ec_execution_id c"
  by (auto simp: commit_def commit_locked_def commit_publish_def Let_def split: if_splits prod.splits)

lemma registry_register_ok:
  assumes "registry_register c r = (res, r')" and "active_ok r"
  shows "active_ok r' \<and> reg_cores r' = reg_cores r \<and> reg_history r' = reg_history r
    \<and> reg_limits r' = reg_limits r \<and> reg_subscribers r' = reg_subscribers r"
  using assms
  by (auto simp: registry_register_def active_ok_def Let_def split: if_splits option.splits)

lemma core_register_inv:
  assumes "registry_inv (t, r)" and "core_register i r = (res, r')"
  shows "registry_inv (t, r')"
proof (cases "\<exists>c. map_of (reg_cores r) i = Some c \<and> ec_has_registry c \<and> \<not> ec_registered c")
  case False
  with assms show ?thesis by (auto simp: core_register_def split: option.splits if_splits)
next
  case True
  then obtain c where c: "map_of (reg_cores r) i = Some c" "ec_has_registry c" "\<not> ec_registered c" by auto
  define c' r1 where "c' = c\<lparr>ec_registered := True\<rparr>" and "r1 = r\<lparr>reg_cores := AList.update i c' (reg_cores r)\<rparr>"
  obtain res2 r2 where reg: "registry_register c' r1 = (res2, r2)" by fastforce
  from assms(1) c have id: "ec_execution_id c = i" by (simp add: registry_inv_def cores_ok_def)
  from assms(1) have "active_ok r1" by (simp add: registry_inv_def active_ok_def r1_def)
  from registry_register_ok [OF reg this] have r2: "active_ok r2" "reg_cores r2 = reg_cores r1"
    "reg_history r2 = reg_history r" "reg_limits r2 = reg_limits r" "reg_subscribers r2 = reg_subscribers r"
    by (simp_all add: r1_def)
  have "cores_ok r1"
    using cores_ok_update [of r c' i r1] assms(1) id by (simp add: registry_inv_def c'_def r1_def)
  then have cores2: "cores_ok r2" using r2 by (simp add: cores_ok_def)
  from assms(2) c reg have "r' = r2 \<or> r' = r2\<lparr>reg_cores := AList.update i (c'\<lparr>ec_registered := False\<rparr>) (reg_cores r2)\<rparr>"
    by (auto simp: core_register_def Let_def c'_def [symmetric] r1_def [symmetric] split: sum.splits)
  moreover have "cores_ok (r2\<lparr>reg_cores := AList.update i (c'\<lparr>ec_registered := False\<rparr>) (reg_cores r2)\<rparr>)"
    by (rule cores_ok_update [OF cores2]) (auto simp: c'_def id)
  ultimately show ?thesis
    using cores2 r2 assms(1) by (auto simp: registry_inv_def active_ok_def history_ok_def subscribers_ok_def)
qed

lemma evict_suffix: "\<exists>old. h = old @ evict_expired ttl now h"
proof (cases ttl)
  case (Some limit)
  then show ?thesis
    unfolding evict_expired_def by (metis option.simps(5) takeWhile_dropWhile_id)
qed (simp add: evict_expired_def)

lemma history_ok_evict:
  assumes "history_ok t r" and "reg_history r' = evict_expired ttl now (reg_history r)"
    and "reg_limits r' = reg_limits r"
  shows "history_ok t r'"
proof -
  obtain old where "reg_history r = old @ reg_history r'"
    using evict_suffix [of "reg_history r"] assms(2) by metis
  with assms(1,3) show ?thesis by (auto simp: history_ok_def sorted_append)
qed

lemma registry_finish_fields [simp]:
  "reg_cores (registry_finish now stamp i smry r) = reg_cores r"
  "reg_active (registry_finish now stamp i smry r) = removeAll i (reg_active r)"
  "reg_limits (registry_finish now stamp i smry r) = reg_limits r"
  "reg_subscribers (registry_finish now stamp i smry r) = reg_subscribers r"
  by (simp_all add: registry_finish_def Let_def)

lemma history_ok_finish:
  assumes "history_ok t r"
  shows "history_ok t (registry_finish t t i smry r)"
proof -
  define r1 where "r1 = r\<lparr>reg_history := evict_expired (terminal_history_ttl (reg_limits r)) t (reg_history r)\<rparr>"
  have ok: "history_ok t r1"
    using history_ok_evict [OF assms, of r1] by (simp add: r1_def)
  let ?h = "reg_history r1"
  let ?h1 = "if length ?h = unat (terminal_history_capacity (reg_limits r)) then tl ?h else ?h"
  have sub: "set ?h1 \<subseteq> set ?h" and "sorted (map (\<lambda>e. snd (snd e)) ?h1)"
    using ok by (auto simp: history_ok_def map_tl sorted_tl dest: subsetD [OF set_tl_subset])
  moreover have "length ?h1 < unat (terminal_history_capacity (reg_limits r))"
    if "unat (terminal_history_capacity (reg_limits r)) \<noteq> 0"
    using ok that by (auto simp: history_ok_def r1_def)
  ultimately show ?thesis
    using ok by (auto simp: registry_finish_def Let_def history_ok_def r1_def sorted_append)
qed

lemma subscribe_loop_bound:
  "subscribe_loop limit current seen = Some (Inr next) \<Longrightarrow> next \<le> limit \<and> next - 1 \<in> insert current (set seen)
     \<and> unat next = unat (next - 1) + 1"
proof (induction limit current seen rule: subscribe_loop.induct)
  case (1 limit current seen)
  have "\<not> limit \<le> current" using "1.prems" by (subst (asm) subscribe_loop.simps) (auto split: if_splits)
  then have lt: "unat current < unat limit" by (simp add: word_le_nat_alt)
  with unsigned_less [of limit, where 'a = nat] have "unat current + 1 < 2 ^ LENGTH(64)" by simp
  then obtain n where n: "checked_add current 1 = Some n" and un: "unat n = unat current + 1"
    by (auto simp: checked_add_def unat_succ_word)
  have n1: "n = current + 1" using n by (auto simp: checked_add_def split: if_splits)
  from "1.prems" \<open>\<not> limit \<le> current\<close> n obtain actual rest where seen: "seen = actual # rest"
    by (subst (asm) subscribe_loop.simps) (auto split: list.splits)
  show ?case
  proof (cases "actual = current")
    case True
    with "1.prems" \<open>\<not> limit \<le> current\<close> n seen have "next = n"
      by (subst (asm) subscribe_loop.simps) simp
    with un lt n1 show ?thesis by (simp add: word_le_nat_alt)
  next
    case False
    with "1.prems" \<open>\<not> limit \<le> current\<close> n seen have "subscribe_loop limit actual rest = Some (Inr next)"
      by (subst (asm) subscribe_loop.simps) simp
    from "1.IH" [OF \<open>\<not> limit \<le> current\<close> n seen False this] seen show ?thesis by auto
  qed
qed

lemma control_cancel_inv:
  assumes "registry_inv (t, r)" and "control_cancel reason i r = (outcome, r', effects)"
  shows "registry_inv (t, r')"
proof (cases "map_of (reg_cores r) i")
  case (Some c)
  obtain out c' effs where c': "cancel reason c = (out, c', effs)" by (cases "cancel reason c") auto
  from assms(1) Some cancel_execution_id [OF c'] have "ec_execution_id c' = i"
    by (simp add: registry_inv_def cores_ok_def)
  moreover from assms(2) Some c' have
    "r' = fold record_effect effs (r\<lparr>reg_cores := AList.update i c' (reg_cores r)\<rparr>)"
    by (auto simp: control_cancel_def)
  ultimately show ?thesis by (intro registry_inv_core_update [OF assms(1)]) simp_all
qed (use assms in \<open>simp add: control_cancel_def\<close>)

lemma cancel_controls_inv:
  "registry_inv (t, r) \<Longrightarrow> registry_inv (t, snd (cancel_controls reason ids r))"
proof (induction ids arbitrary: r)
  case (Cons i rest)
  obtain outcome r1 effects where c: "control_cancel reason i r = (outcome, r1, effects)"
    by (cases "control_cancel reason i r") auto
  from Cons.IH [OF control_cancel_inv [OF Cons.prems c]] c show ?case
    by (simp add: case_prod_beta)
qed simp

lemma registry_commit_inv:
  assumes inv: "registry_inv (t, r)" and commit: "registry_commit t t i cell exit r = (won, cell', r')"
  shows "registry_inv (t, r')"
proof (cases "map_of (reg_cores r) i")
  case None
  with assms show ?thesis by (simp add: registry_commit_def)
next
  case (Some c)
  obtain won c' cell' effects where e: "BB_Execution.commit c cell exit = (won, c', cell', effects)"
    by (cases "BB_Execution.commit c cell exit") auto
  define r1 where "r1 = r\<lparr>reg_cores := AList.update i c' (reg_cores r)\<rparr>"
  have "ec_execution_id c' = i"
    using inv Some commit_execution_id [OF e] by (simp add: registry_inv_def cores_ok_def)
  with inv have inv1: "registry_inv (t, r1)"
    using cores_ok_update [of r c' i r1] by (simp add: registry_inv_def active_ok_def history_ok_def subscribers_ok_def r1_def)
  have "registry_inv (t, registry_finish t t j smry r1)" for j smry
    using inv1 history_ok_finish [of t r1 j smry]
    by (auto simp: registry_inv_def active_ok_def cores_ok_def subscribers_ok_def intro: order_trans [OF length_filter_le]
        simp flip: removeAll_filter_eq)
  with commit Some e inv1 show ?thesis
    by (auto simp: registry_commit_def Let_def r1_def [symmetric] split: list.splits exec_effect.splits)
qed

section \<open>The registry as a transition system\<close>

text \<open>
  The first component is the clock.  \<open>core_op\<close> stands for the operations of the core that are not
  the registry's (claiming, stopping, children, cleanup): they keep identity, registration and a
  terminal summary.
\<close>

definition registry_init :: "instant \<times> registry_state \<Rightarrow> bool" where
  "registry_init s \<longleftrightarrow> (\<exists>limits. snd s = registry_new limits)"

inductive registry_step :: "instant \<times> registry_state \<Rightarrow> instant \<times> registry_state \<Rightarrow> bool" where
  tick: "registry_step (t, r) (t + d, r)"
| create: "i \<notin> set (keys (reg_cores r)) \<Longrightarrow> ec_execution_id c = i \<Longrightarrow>
    registry_step (t, r) (t, r\<lparr>reg_cores := AList.update i c (reg_cores r)\<rparr>)"
| core_op: "map_of (reg_cores r) i = Some c \<Longrightarrow> ec_execution_id c' = ec_execution_id c \<Longrightarrow>
    ec_registered c' = ec_registered c \<Longrightarrow>
    (terminal (ec_state c) \<noteq> None \<longrightarrow> terminal (ec_state c') = terminal (ec_state c)) \<Longrightarrow>
    registry_step (t, r) (t, r\<lparr>reg_cores := AList.update i c' (reg_cores r)\<rparr>)"
| register: "core_register i r = (res, r') \<Longrightarrow> registry_step (t, r) (t, r')"
| terminal_commit: "registry_commit t t i cell (exit :: (nat, nat) task_exit) r = (won, cell', r') \<Longrightarrow>
    registry_step (t, r) (t, r')"
| subscribed: "registry_subscribe r = (res, r') \<Longrightarrow> registry_step (t, r) (t, r')"
| unsubscribed: "reg_subscribers r > 0 \<Longrightarrow> registry_step (t, r) (t, event_stream_drop r)"
| read_history: "registry_history t r = (records, r') \<Longrightarrow> registry_step (t, r) (t, r')"
| read_summary: "registry_summary t i r = (res, r') \<Longrightarrow> registry_step (t, r) (t, r')"
| cancel_many: "cancel_snapshot selector reason r = (report, r') \<Longrightarrow> registry_step (t, r) (t, r')"
| owners_gone: "registry_step (t, r) (t, lifetime_drop r)"
| resumed_all: "registry_notify_resumed r = (n, r') \<Longrightarrow> registry_step (t, r) (t, r')"

lemma map_of_map_keyed: "map_of (map (\<lambda>(i, c). (i, f i c)) m) i = map_option (f i) (map_of m i)"
  by (induction m) auto

lemma keys_map_keyed: "keys (map (\<lambda>(i, c). (i, f i c)) m) = keys m"
  by (induction m) auto

lemma registry_inv_init: "registry_init s \<Longrightarrow> registry_inv s"
  by (auto simp: registry_init_def registry_new_def registry_inv_defs)

lemma registry_inv_step:
  assumes step: "registry_step s s'" and "registry_inv s"
  shows "registry_inv s'"
  using assms
proof induction
  case (tick t r d)
  then show ?case by (auto simp: registry_inv_def history_ok_def)
next
  case (create i r c t)
  show ?case by (rule registry_inv_core_update [OF create(3) create(2)]) simp_all
next
  case (core_op r i c c' t)
  then have "ec_execution_id c' = i" by (simp add: registry_inv_def cores_ok_def)
  from registry_inv_core_update [OF core_op(5) this] show ?case by simp
next
  case (register i r res r' t)
  then show ?case by (blast intro: core_register_inv)
next
  case (terminal_commit t i cell exit r won cell' r')
  then show ?case by (blast intro: registry_commit_inv)
next
  case (subscribed r res r' t)
  from subscribed(1) have "r' = r \<or> (\<exists>n. r' = r\<lparr>reg_subscribers := n\<rparr> \<and> n \<le> max_event_subscribers (reg_limits r))"
    by (auto simp: registry_subscribe_def split: option.splits sum.splits dest!: subscribe_loop_bound)
  with subscribed(2) show ?case by (auto simp: registry_inv_defs)
next
  case (unsubscribed r t)
  then have "reg_subscribers r - 1 \<le> reg_subscribers r"
    by (simp add: word_le_nat_alt unat_sub word_less_nat_alt Suc_le_eq)
  with unsubscribed show ?case by (auto simp: registry_inv_defs event_stream_drop_def)
next
  case (read_history t r records r')
  then show ?case
    using history_ok_evict [of t r r']
    by (auto simp: registry_history_def Let_def registry_inv_def cores_ok_def active_ok_def subscribers_ok_def)
next
  case (read_summary t i r res r')
  then show ?case
    using history_ok_evict [of t r r']
    by (auto simp: registry_summary_def Let_def registry_inv_def cores_ok_def active_ok_def subscribers_ok_def)
next
  case (cancel_many selector reason r report r' t)
  then show ?case
    using cancel_controls_inv [of t r reason "select_controls selector r"] by (simp add: cancel_snapshot_def)
next
  case (owners_gone t r)
  then show ?case by (simp add: lifetime_drop_def cancel_controls_inv)
next
  case (resumed_all r n r' t)
  then show ?case
    by (auto simp: registry_notify_resumed_def registry_inv_defs keys_map_keyed map_of_map_keyed notify_resumed_def
        simp del: map_map)
qed

interpretation registry: invariant_system registry_init registry_step registry_inv
  by unfold_locales (auto intro: registry_inv_init registry_inv_step)

text \<open>On a history sorted by time, evicting from the front removes exactly the expired records.\<close>

lemma dropWhile_filter_sorted:
  assumes "sorted (map f xs)" and "\<And>x y. f x \<le> f y \<Longrightarrow> P y \<Longrightarrow> P x"
  shows "dropWhile P xs = filter (\<lambda>x. \<not> P x) xs"
  using assms(1)
proof (induction xs)
  case (Cons x xs)
  show ?case
  proof (cases "P x")
    case True
    with Cons show ?thesis by simp
  next
    case False
    with Cons.prems assms(2) have "\<forall>y \<in> set xs. \<not> P y" by auto
    with False show ?thesis by (simp add: filter_id_conv)
  qed
qed simp

definition expired :: "duration option \<Rightarrow> instant \<Rightarrow> history_entry \<Rightarrow> bool" where
  "expired ttl now e = (case ttl of None \<Rightarrow> False | Some limit \<Rightarrow> limit \<le> now - snd (snd e))"

lemma evict_expired_filter:
  assumes "history_ok t r"
  shows "evict_expired ttl now (reg_history r) = filter (\<lambda>e. \<not> expired ttl now e) (reg_history r)"
proof (cases ttl)
  case (Some limit)
  have "sorted (map (\<lambda>e. snd (snd e)) (reg_history r))"
    using assms by (simp add: history_ok_def)
  then have "dropWhile (\<lambda>e. limit \<le> now - snd (snd e)) (reg_history r)
      = filter (\<lambda>e. \<not> limit \<le> now - snd (snd e)) (reg_history r)"
    by (rule dropWhile_filter_sorted) auto
  with Some show ?thesis
    by (simp add: evict_expired_def expired_def case_prod_unfold duration_since_def)
qed (simp add: evict_expired_def expired_def)


lemma control_cancel_cores:
  assumes "control_cancel reason i r = (outcome, r', effects)"
  shows "map_of (reg_cores r') = (case map_of (reg_cores r) i of
      None \<Rightarrow> map_of (reg_cores r) | Some c \<Rightarrow> (map_of (reg_cores r))(i \<mapsto> fst (snd (cancel reason c))))"
    and "reg_active r' = reg_active r"
  using assms by (auto simp: control_cancel_def map_of_update split: option.splits prod.splits)




text \<open>A registered terminal core is never taken out of the active map again.\<close>

definition leaked :: "execution_id \<Rightarrow> instant \<times> registry_state \<Rightarrow> bool" where
  "leaked i s \<longleftrightarrow> registry_inv s \<and> i \<in> set (reg_active (snd s))
     \<and> (\<exists>c. map_of (reg_cores (snd s)) i = Some c \<and> terminal (ec_state c) \<noteq> None)"

lemma cancel_terminal: "terminal (ec_state c) \<noteq> None \<Longrightarrow> fst (snd (cancel reason c)) = c"
  by (simp add: cancel_def request_stop_def request_stop_mark_def)

lemma cancel_controls_terminal:
  assumes "map_of (reg_cores r) i = Some c" and "terminal (ec_state c) \<noteq> None"
  shows "map_of (reg_cores (snd (cancel_controls reason ids r))) i = Some c
    \<and> reg_active (snd (cancel_controls reason ids r)) = reg_active r"
  using assms(1)
proof (induction ids arbitrary: r)
  case (Cons j rest)
  obtain out r1 effects where c: "control_cancel reason j r = (out, r1, effects)"
    by (cases "control_cancel reason j r") auto
  have "map_of (reg_cores r1) i = Some c"
    using control_cancel_cores(1) [OF c] Cons.prems cancel_terminal [OF assms(2)]
    by (auto split: option.splits)
  from Cons.IH [OF this] c control_cancel_cores(2) [OF c] show ?case by (simp add: case_prod_beta)
qed simp

lemma registry_register_fields:
  "reg_cores (snd (registry_register c r)) = reg_cores r"
  "set (reg_active r) \<subseteq> set (reg_active (snd (registry_register c r)))"
  by (auto simp: registry_register_def Let_def split: option.splits)

lemma core_register_keeps:
  assumes "core_register j r = (res, r')" and "map_of (reg_cores r) i = Some c"
  shows "(\<exists>c'. map_of (reg_cores r') i = Some c' \<and> ec_state c' = ec_state c)
    \<and> set (reg_active r) \<subseteq> set (reg_active r')"
proof (cases "map_of (reg_cores r) j")
  case (Some d)
  define d' r1 where "d' = d\<lparr>ec_registered := True\<rparr>" and "r1 = r\<lparr>reg_cores := AList.update j d' (reg_cores r)\<rparr>"
  have "r' = r \<or> r' = snd (registry_register d' r1)
      \<or> r' = (snd (registry_register d' r1))\<lparr>reg_cores :=
            AList.update j (d'\<lparr>ec_registered := False\<rparr>) (reg_cores r1)\<rparr>"
    using assms(1) Some registry_register_fields(1) [of d' r1]
    by (auto simp: core_register_def Let_def d'_def [symmetric] r1_def [symmetric]
        split: if_splits sum.splits prod.splits)
  moreover have "set (reg_active r) \<subseteq> set (reg_active (snd (registry_register d' r1)))"
    using registry_register_fields(2) [of r1 d'] by (simp add: r1_def)
  ultimately show ?thesis
    using assms(2) Some registry_register_fields(1) [of d' r1]
    by (auto simp: map_of_update r1_def d'_def)
qed (use assms in \<open>simp add: core_register_def\<close>)

lemma leaked_step:
  assumes "leaked i s" and step: "registry_step s s'"
  shows "leaked i s'"
proof -
  from assms(1) obtain c where inv: "registry_inv s" and act: "i \<in> set (reg_active (snd s))"
    and c: "map_of (reg_cores (snd s)) i = Some c" "terminal (ec_state c) \<noteq> None"
    by (auto simp: leaked_def)
  have "i \<in> set (reg_active (snd s'))
      \<and> (\<exists>c. map_of (reg_cores (snd s')) i = Some c \<and> terminal (ec_state c) \<noteq> None)"
    using step act c inv
  proof cases
    case (create j r d t)
    with c(1) have "j \<noteq> i" using map_of_in_keys [of "reg_cores r" i c] by auto
    with create act c show ?thesis by (auto simp: map_of_update)
  next
    case (core_op r j d d' t)
    with act c show ?thesis by (auto simp: map_of_update)
  next
    case (register j r res r' t)
    with act c core_register_keeps [OF register(3), of i c] show ?thesis by auto
  next
    case (terminal_commit t j cell exit r won cell' r')
    show ?thesis
    proof (cases "j = i")
      case True
      with terminal_commit c act show ?thesis
        by (auto simp: registry_commit_def BB_Execution.commit_def commit_locked_def map_of_update)
    next
      case False
      have "\<And>d c' w ce eff k smry. map_of (reg_cores r) j = Some d \<Longrightarrow>
          BB_Execution.commit d cell exit = (w, c', ce, eff) \<Longrightarrow> eff = [RegistryFinish k smry] \<Longrightarrow> k = j"
        using inv terminal_commit(1)
        by (auto simp: BB_Execution.commit_def commit_locked_def commit_publish_def Let_def registry_inv_def cores_ok_def
            split: if_splits prod.splits)
      with False terminal_commit c act show ?thesis
        by (auto simp: registry_commit_def Let_def map_of_update split: option.splits prod.splits list.splits exec_effect.splits)
    qed
  next
    case (subscribed r res r' t)
    with act c show ?thesis
      by (auto simp: registry_subscribe_def split: option.splits sum.splits)
  next
    case (cancel_many selector reason r report r' t)
    with act c cancel_controls_terminal [of r i c reason "select_controls selector r"] show ?thesis
      by (simp add: cancel_snapshot_def)
  next
    case (owners_gone t r)
    with act c cancel_controls_terminal [of r i c ExecutorShutdown "reg_active r"] show ?thesis
      by (simp add: lifetime_drop_def)
  next
    case (resumed_all r n r' t)
    with act c show ?thesis
      by (auto simp: registry_notify_resumed_def map_of_map_keyed notify_resumed_def simp del: map_map)
  qed (auto simp: event_stream_drop_def registry_history_def registry_summary_def Let_def)
  with registry_inv_step [OF step inv] show ?thesis by (simp add: leaked_def)
qed

interpretation leak: invariant_system "leaked i" registry_step "leaked i"
  by unfold_locales (auto intro: leaked_step)

section \<open>A concrete registry\<close>

definition demo_limits :: resource_limits where
  "demo_limits = default_limits\<lparr>max_active_executions := 2, terminal_history_capacity := 2\<rparr>"

definition demo_core :: "execution_id \<Rightarrow> string option \<Rightarrow> exec_core" where
  "demo_core i tag = core_new i 1 True tag []"

definition reg0 where "reg0 = registry_new demo_limits"
definition reg1 where "reg1 = reg0\<lparr>reg_cores := AList.update 4 (demo_core 4 (Some ''a'')) (reg_cores reg0)\<rparr>"
definition reg2 where "reg2 = snd (core_register 4 reg1)"
definition reg3 where "reg3 = reg2\<lparr>reg_cores := AList.update 3 (demo_core 3 (Some ''a'')) (reg_cores reg2)\<rparr>"
definition reg4 where "reg4 = snd (core_register 3 reg3)"

lemmas reg_defs = reg0_def reg1_def reg2_def reg3_def reg4_def demo_core_def demo_limits_def default_limits_def
  registry_new_def core_register_def registry_register_def core_new_def should_capture_event_snapshot_def Let_def

lemma reg_reach1: "reach registry_init registry_step (0, reg1)"
proof -
  have "registry_init (0, reg0)" unfolding registry_init_def reg0_def by auto
  moreover have "registry_step (0, reg0) (0, reg1)"
    unfolding reg1_def by (rule registry_step.create) (simp_all add: reg_defs)
  ultimately show ?thesis by (blast intro: reach_init reach_step)
qed

lemma reg_reach4: "reach registry_init registry_step (0, reg4)"
proof -
  have "registry_step (0, reg1) (0, reg2)"
    unfolding reg2_def by (rule registry_step.register [of 4 _ "fst (core_register 4 reg1)"]) simp
  moreover have "registry_step (0, reg2) (0, reg3)"
    unfolding reg3_def by (rule registry_step.create) (simp_all add: reg_defs)
  moreover have "registry_step (0, reg3) (0, reg4)"
    unfolding reg4_def by (rule registry_step.register [of 3 _ "fst (core_register 3 reg3)"]) simp
  ultimately show ?thesis using reg_reach1 by (blast intro: reach_step)
qed

section \<open>Properties\<close>

text \<open>
  The registry keeps its limits: in every reachable state the active executions are pairwise
  distinct and at most the configured number, the terminal history has at most its capacity, and
  the subscriber count is at most its limit.
\<close>

theorem registry_stays_bounded:
  assumes "reach registry_init registry_step (t, r)"
  shows "distinct (reg_active r) \<and> length (reg_active r) \<le> unat (max_active_executions (reg_limits r))
    \<and> length (reg_history r) \<le> unat (terminal_history_capacity (reg_limits r))
    \<and> reg_subscribers r \<le> max_event_subscribers (reg_limits r)"
  using registry.reach_inv [OF assms] by (simp add: registry_inv_defs)

theorem registry_stays_bounded_witness:
  "length (reg_active reg4) = 2 \<and> length (reg_active reg4) \<le> unat (max_active_executions (reg_limits reg4))"
  using registry_stays_bounded [OF reg_reach4] by (simp add: reg_defs snapshot_def)

text \<open>
  The history shows exactly the unexpired terminal records: in every reachable state reading
  it returns, oldest first, the stored records whose age is below the time to live, and no other.
\<close>

theorem history_shows_unexpired:
  assumes "reach registry_init registry_step (t, r)"
  shows "fst (registry_history t r) =
      map (\<lambda>(i, smry, _). (i, smry))
        (filter (\<lambda>e. \<not> expired (terminal_history_ttl (reg_limits r)) t e) (reg_history r))
    \<and> sorted (map (\<lambda>e. snd (snd e)) (reg_history r))"
  using registry.reach_inv [OF assms] evict_expired_filter [of t r "terminal_history_ttl (reg_limits r)" t]
  by (simp add: registry_history_def Let_def registry_inv_def history_ok_def)

theorem history_shows_unexpired_witness: "fst (registry_history 0 reg4) = []"
  using history_shows_unexpired [OF reg_reach4] by (simp add: reg_defs snapshot_def)

text \<open>
  A terminal summary can be read back: right after an execution finishes, and as long as
  history is kept at all (a positive capacity and no zero time to live), the summary query for it
  returns the summary it finished with, whatever older records of it there are, and it is not
  active any more.
\<close>

theorem summary_after_finish:
  assumes "reach registry_init registry_step (t, r)"
    and "terminal_history_capacity (reg_limits r) \<noteq> 0" and "terminal_history_ttl (reg_limits r) \<noteq> Some 0"
  shows "fst (registry_summary t i (registry_finish t t i smry r)) = Some smry
    \<and> i \<notin> set (reg_active (registry_finish t t i smry r))"
proof -
  let ?r = "registry_finish t t i smry r"
  have cap: "unat (terminal_history_capacity (reg_limits r)) \<noteq> 0"
    using assms(2) by (simp add: unat_eq_0)
  then obtain h where h: "reg_history ?r = h @ [(i, smry, t)]"
    by (auto simp: registry_finish_def Let_def)
  have "history_ok t ?r"
    using registry.reach_inv [OF assms(1)] history_ok_finish by (simp add: registry_inv_def)
  from evict_expired_filter [OF this, of "terminal_history_ttl (reg_limits r)" t] h assms(3) show ?thesis
    by (simp add: registry_summary_def Let_def expired_def split: option.splits)
qed

theorem summary_after_finish_witness:
  "fst (registry_summary 0 4 (registry_finish 0 0 4 SumCompleted reg4)) = Some SumCompleted
   \<and> 4 \<in> set (reg_active reg4)"
  using summary_after_finish [OF reg_reach4, of 4 SumCompleted] by (simp add: reg_defs snapshot_def nanos_per_sec_def)



text \<open>
  A registration that comes after the terminal commit leaks: if a core is already terminal when
  it is registered (the commit found it unregistered and did not tell the registry), the
  registration succeeds and the execution stays in the active map in every continuation.
\<close>

theorem late_registration_leaks:
  assumes "reach registry_init registry_step (t, r)" and "map_of (reg_cores r) i = Some c"
    and "terminal (ec_state c) \<noteq> None" and "ec_has_registry c" and "\<not> ec_registered c"
    and "core_register i r = (Inr (), r')" and "registry_step\<^sup>*\<^sup>* (t, r') (t', r'')"
  shows "i \<in> set (reg_active r'')"
proof -
  from registry.reach_inv [OF assms(1)] have inv: "registry_inv (t, r)" .
  with assms(2) have "ec_execution_id c = i" by (simp add: registry_inv_def cores_ok_def)
  with assms(2,4,5,6) have "i \<in> set (reg_active r')"
    by (auto simp: core_register_def registry_register_def Let_def split: if_splits option.splits sum.splits)
  with core_register_inv [OF inv assms(6)] core_register_keeps [OF assms(6,2)] assms(3)
  have "leaked i (t, r')" by (auto simp: leaked_def)
  from leak.steps_inv [OF assms(7) this] show ?thesis by (simp add: leaked_def)
qed

theorem late_registration_leaks_witness:
  "4 \<in> set (reg_active (snd (core_register 4 (reg1\<lparr>reg_cores := AList.update 4
       ((demo_core 4 (Some ''a''))\<lparr>ec_state := \<lparr>public_state = StCompleted, stop_cause = None, terminal = Some SumCompleted\<rparr>\<rparr>)
       (reg_cores reg1)\<rparr>))))"
proof -
  let ?c = "(demo_core 4 (Some ''a''))\<lparr>ec_state := \<lparr>public_state = StCompleted, stop_cause = None, terminal = Some SumCompleted\<rparr>\<rparr>"
  let ?r = "reg1\<lparr>reg_cores := AList.update 4 ?c (reg_cores reg1)\<rparr>"
  have "registry_step (0, reg1) (0, ?r)"
    by (rule registry_step.core_op [of _ _ "demo_core 4 (Some ''a'')"]) (simp_all add: reg_defs)
  with reg_reach1 have "reach registry_init registry_step (0, ?r)" by (rule reach_step)
  from late_registration_leaks [OF this, of 4 ?c "snd (core_register 4 ?r)" 0 "snd (core_register 4 ?r)"] show ?thesis
    by (simp add: reg_defs)
qed

end
