(* ===== verification/BB_Lane.thy ===== *)
theory BB_Lane
  imports BB_Types
begin

text \<open>
  A bounded execution lane (\<open>lane.rs\<close>): configuration and options, the lane state under its
  lock, admission, the dispatcher's selection loop, the monitors' completion, closing, the
  statistics and the waiting producers.  This theory holds the definitions and the facts about
  single operations; the invariant, the fairness bound and the waiters have theories of their own.

  A queued start is represented by the identity of its execution, a control handle too.  An
  operation that unlocks before it signals returns the signals as \<open>lane_signal\<close>s.
\<close>

section \<open>Configuration and options\<close>

type_synonym ordering_key = string

definition highest_priority :: u8 where "highest_priority = 7"
definition normal_priority :: u8 where "normal_priority = 3"

text \<open>The value rejected, or the priority.\<close>

definition priority_new :: "u8 \<Rightarrow> u8 + u8" where
  "priority_new value = (if value \<le> highest_priority then Inr value else Inl value)"

definition max_key_bytes :: nat where "max_key_bytes = 256"

definition ordering_key_new :: "string \<Rightarrow> (nat \<times> nat) + ordering_key" where
  "ordering_key_new bytes =
     (if max_key_bytes < length bytes then Inl (length bytes, max_key_bytes) else Inr bytes)"

record spawn_options =
  opt_priority :: u8
  opt_ordering_key :: "ordering_key option"

definition default_options :: spawn_options where
  "default_options = \<lparr>opt_priority = normal_priority, opt_ordering_key = None\<rparr>"

datatype (plugins only: code size) lane_lifetime = ExecutorLifetime | ExplicitLifetime

record lane_config =
  cfg_name :: string
  cfg_capacity :: usize
  cfg_concurrency :: usize
  cfg_lifetime :: lane_lifetime

definition lane_config_new :: "string \<Rightarrow> lane_config" where
  "lane_config_new name =
     \<lparr>cfg_name = name, cfg_capacity = 256, cfg_concurrency = 1, cfg_lifetime = ExecutorLifetime\<rparr>"

definition lane_config_validate :: "lane_config \<Rightarrow> beaver_error + unit" where
  "lane_config_validate cfg =
     (if cfg_capacity cfg = 0 then Inl InvalidLaneCapacity
      else if cfg_concurrency cfg = 0 then Inl InvalidLaneConcurrency
      else Inr ())"

datatype (plugins only: code size) spawn_error =
    SpQueueFull
  | SpLaneClosing
  | SpExecutorUnavailable
  | SpExecutorShuttingDown
  | AdmissionTimedOut
  | AdmissionDeadlineExceeded
  | SpTimerUnavailable
  | WaitingProducerLimitReached
  | OrderingKeyLimitReached
  | SequenceExhausted
  | SpInternal beaver_error

fun spawn_error_from :: "beaver_error \<Rightarrow> spawn_error" where
  "spawn_error_from ExecutorShuttingDown = SpExecutorShuttingDown"
| "spawn_error_from other = SpInternal other"

record lane_stats =
  queued_live :: nat
  st_running :: usize
  available_queue_capacity :: nat
  st_waiting_producers :: usize
  blocked_by_ordering_key :: nat
  ready_by_priority :: "nat list"

section \<open>State\<close>

record queue_entry =
  qe_options :: spawn_options
  qe_sequence :: u64

text \<open>
  \<open>ls_active\<close> is the key set of the active map (its values are the controls).  The waiting queue
  maps a ticket to whether its producer has a notification it has not consumed yet.
\<close>

record lane_state =
  ls_closing :: bool
  ls_runtime_unavailable :: bool
  ls_queue :: "execution_id list"
  ls_entries :: "(execution_id \<times> queue_entry) list"
  ls_active :: "execution_id list"
  ls_running :: usize
  ls_waiting_producers :: usize
  ls_waiting_queue :: "(u64 \<times> bool) list"
  ls_next_waiter_sequence :: u64
  ls_next_sequence :: u64
  ls_dispatch_count :: u64
  ls_active_ordering_keys :: "ordering_key list"
  ls_running_ordering_keys :: "(execution_id \<times> ordering_key) list"
  ls_ordering_key_refcounts :: "(ordering_key \<times> usize) list"

record lane_params =
  lp_config :: lane_config
  lp_max_waiting_producers :: usize
  lp_max_ordering_keys :: usize

datatype (plugins only: code size) lane_signal =
    CapacityOne
  | CapacityWaiters
  | WorkOne
  | WorkWaiters
  | DropStart execution_id
  | CancelRunning execution_id cancel_reason

definition lane_state_new :: lane_state where
  "lane_state_new = \<lparr>
     ls_closing = False,
     ls_runtime_unavailable = False,
     ls_queue = [],
     ls_entries = [],
     ls_active = [],
     ls_running = 0,
     ls_waiting_producers = 0,
     ls_waiting_queue = [],
     ls_next_waiter_sequence = 0,
     ls_next_sequence = 0,
     ls_dispatch_count = 0,
     ls_active_ordering_keys = [],
     ls_running_ordering_keys = [],
     ls_ordering_key_refcounts = [] \<rparr>"

section \<open>Selection\<close>

record ready_candidate =
  rc_queue_index :: nat
  rc_execution_id :: execution_id
  rc_priority :: u8
  rc_sequence :: u64

definition replaces :: "bool \<Rightarrow> ready_candidate \<Rightarrow> ready_candidate \<Rightarrow> bool" where
  "replaces select_oldest candidate current =
     (if select_oldest then rc_sequence candidate < rc_sequence current
      else rc_priority candidate > rc_priority current
           \<or> rc_priority candidate = rc_priority current \<and> rc_sequence candidate < rc_sequence current)"

primrec select_loop ::
  "bool \<Rightarrow> ready_candidate list \<Rightarrow> ready_candidate option \<Rightarrow> ready_candidate option" where
  "select_loop select_oldest [] selected = selected"
| "select_loop select_oldest (candidate # candidates) selected =
     select_loop select_oldest candidates
       (case selected of
          None \<Rightarrow> Some candidate
        | Some current \<Rightarrow> if replaces select_oldest candidate current then Some candidate else selected)"

definition select_ready_candidate :: "u64 \<Rightarrow> ready_candidate list \<Rightarrow> ready_candidate option" where
  "select_ready_candidate dispatch_count candidates =
     select_loop (dispatch_count mod 8 = 7) candidates None"

definition blocked :: "lane_state \<Rightarrow> queue_entry \<Rightarrow> bool" where
  "blocked s entry =
     (case opt_ordering_key (qe_options entry) of
        None \<Rightarrow> False
      | Some key \<Rightarrow> key \<in> set (ls_active_ordering_keys s))"

definition candidate_of :: "lane_state \<Rightarrow> nat \<times> execution_id \<Rightarrow> ready_candidate option" where
  "candidate_of s p =
     (case map_of (ls_entries s) (snd p) of
        None \<Rightarrow> None
      | Some entry \<Rightarrow>
          if blocked s entry then None
          else Some \<lparr>rc_queue_index = fst p, rc_execution_id = snd p,
                     rc_priority = opt_priority (qe_options entry), rc_sequence = qe_sequence entry\<rparr>)"

definition candidates :: "lane_state \<Rightarrow> ready_candidate list" where
  "candidates s = List.map_filter (candidate_of s) (List.enumerate 0 (ls_queue s))"

section \<open>Ordering key references\<close>

definition decrement_ordering_key_refcount :: "ordering_key \<Rightarrow> lane_state \<Rightarrow> lane_state" where
  "decrement_ordering_key_refcount key s =
     (case map_of (ls_ordering_key_refcounts s) key of
        None \<Rightarrow> s
      | Some count \<Rightarrow>
          (case checked_sub count 1 of
             None \<Rightarrow> s
           | Some next \<Rightarrow>
               if next = 0
               then s\<lparr>ls_ordering_key_refcounts := AList.delete key (ls_ordering_key_refcounts s)\<rparr>
               else s\<lparr>ls_ordering_key_refcounts := AList.update key next (ls_ordering_key_refcounts s)\<rparr>))"

section \<open>Waiting producers\<close>

definition waiter_new :: "lane_params \<Rightarrow> lane_state \<Rightarrow> (spawn_error + u64) \<times> lane_state" where
  "waiter_new p s =
     (if lp_max_waiting_producers p \<le> ls_waiting_producers s then (Inl WaitingProducerLimitReached, s)
      else let ticket = ls_next_waiter_sequence s in
        case checked_add (ls_next_waiter_sequence s) 1 of
          None \<Rightarrow> (Inl SequenceExhausted, s)
        | Some next_ticket \<Rightarrow>
            (let s1 = s\<lparr>ls_next_waiter_sequence := next_ticket\<rparr> in
             case checked_add (ls_waiting_producers s) 1 of
               None \<Rightarrow> (Inl SequenceExhausted, s1)
             | Some waiting \<Rightarrow>
                 (Inr ticket,
                  s1\<lparr>ls_waiting_producers := waiting,
                     ls_waiting_queue := btree_insert ticket False (ls_waiting_queue s)\<rparr>)))"

definition notify_waiting_producer :: "u64 \<Rightarrow> lane_state \<Rightarrow> lane_state" where
  "notify_waiting_producer ticket s =
     s\<lparr>ls_waiting_queue := map (\<lambda>(t, permit). (t, permit \<or> t = ticket)) (ls_waiting_queue s)\<rparr>"

definition notify_waiting_head :: "lane_state \<Rightarrow> lane_state" where
  "notify_waiting_head s =
     (case first_key (ls_waiting_queue s) of
        None \<Rightarrow> s
      | Some ticket \<Rightarrow> notify_waiting_producer ticket s)"

definition notify_all_waiting_producers :: "lane_state \<Rightarrow> lane_state" where
  "notify_all_waiting_producers s =
     fold notify_waiting_producer (keys (ls_waiting_queue s)) s"

text \<open>
  \<open>finish\<close> of a waiting producer, with its locked part first: the ticket to notify and whether the
  capacity observers are told.
\<close>

definition waiter_finish_locked ::
  "lane_params \<Rightarrow> u64 \<Rightarrow> lane_state \<Rightarrow> u64 option \<times> bool \<times> lane_state" where
  "waiter_finish_locked p ticket s =
     (let was_front = (first_key (ls_waiting_queue s) = Some ticket);
          removed = (map_of (ls_waiting_queue s) ticket \<noteq> None);
          queue' = AList.delete ticket (ls_waiting_queue s);
          waiting' = (if removed
                      then (case checked_sub (ls_waiting_producers s) 1 of
                              Some next \<Rightarrow> next
                            | None \<Rightarrow> ls_waiting_producers s)
                      else ls_waiting_producers s);
          s' = s\<lparr>ls_waiting_queue := queue', ls_waiting_producers := waiting'\<rparr>
      in (if was_front then first_key queue' else None,
          removed \<and> was_front \<and> queue' = []
            \<and> length (ls_entries s) < unat (cfg_capacity (lp_config p)),
          s'))"

definition waiter_finish :: "lane_params \<Rightarrow> u64 \<Rightarrow> lane_state \<Rightarrow> lane_state \<times> lane_signal list" where
  "waiter_finish p ticket s =
     (case waiter_finish_locked p ticket s of
        (next_signal, notify_capacity_observers, s1) \<Rightarrow>
          ((case next_signal of None \<Rightarrow> s1 | Some t \<Rightarrow> notify_waiting_producer t s1),
           if notify_capacity_observers then [CapacityWaiters] else []))"

section \<open>Queue operations\<close>

definition remove_queued_locked :: "execution_id \<Rightarrow> lane_state \<Rightarrow> bool \<times> lane_state" where
  "remove_queued_locked i s =
     (case map_of (ls_entries s) i of
        None \<Rightarrow> (False, s)
      | Some entry \<Rightarrow>
          (let s1 = s\<lparr>ls_entries := AList.delete i (ls_entries s),
                     ls_queue := filter (\<lambda>j. j \<noteq> i) (ls_queue s),
                     ls_active := removeAll i (ls_active s)\<rparr>
           in (True,
               case opt_ordering_key (qe_options entry) of
                 None \<Rightarrow> s1
               | Some key \<Rightarrow> decrement_ordering_key_refcount key s1)))"

definition remove_queued :: "execution_id \<Rightarrow> lane_state \<Rightarrow> lane_state \<times> lane_signal list" where
  "remove_queued i s =
     (case remove_queued_locked i s of
        (False, s1) \<Rightarrow> (s1, [])
      | (True, s1) \<Rightarrow> (notify_waiting_head s1, [DropStart i, CapacityOne, WorkOne]))"

text \<open>One iteration of the dispatch loop: it breaks, or it takes one start out of the queue.\<close>

datatype (plugins only: size) dispatch_iteration =
    DispatchBreak lane_state
  | Dispatched execution_id lane_state

definition dispatch_selected :: "ready_candidate \<Rightarrow> lane_state \<Rightarrow> dispatch_iteration" where
  "dispatch_selected candidate s =
     (let i = rc_execution_id candidate in
      case checked_add (ls_running s) 1 of
        None \<Rightarrow> DispatchBreak (s\<lparr>ls_closing := True\<rparr>)
      | Some next_running \<Rightarrow>
          (case vec_remove (rc_queue_index candidate) (ls_queue s) of
             (None, _) \<Rightarrow> DispatchBreak (s\<lparr>ls_closing := True\<rparr>)
           | (Some removed_id, queue') \<Rightarrow>
               let s1 = s\<lparr>ls_queue := queue'\<rparr> in
               if removed_id \<noteq> i then DispatchBreak (s1\<lparr>ls_closing := True\<rparr>)
               else case map_of (ls_entries s) i of
                      None \<Rightarrow> DispatchBreak (s1\<lparr>ls_closing := True\<rparr>)
                    | Some entry \<Rightarrow>
                        let s2 = s1\<lparr>ls_entries := AList.delete i (ls_entries s)\<rparr>;
                            s3 = (case opt_ordering_key (qe_options entry) of
                                    None \<Rightarrow> s2
                                  | Some key \<Rightarrow>
                                      s2\<lparr>ls_active_ordering_keys := List.insert key (ls_active_ordering_keys s),
                                         ls_running_ordering_keys :=
                                           AList.update i key (ls_running_ordering_keys s)\<rparr>)
                        in Dispatched i
                             (s3\<lparr>ls_running := next_running,
                                 ls_dispatch_count :=
                                   (case checked_add (ls_dispatch_count s) 1 of None \<Rightarrow> 0 | Some next \<Rightarrow> next)\<rparr>)))"

definition dispatch_once :: "lane_params \<Rightarrow> lane_state \<Rightarrow> dispatch_iteration" where
  "dispatch_once p s =
     (if ls_running s < cfg_concurrency (lp_config p)
      then case select_ready_candidate (ls_dispatch_count s) (candidates s) of
             None \<Rightarrow> DispatchBreak s
           | Some candidate \<Rightarrow> dispatch_selected candidate s
      else DispatchBreak s)"

lemma vec_remove_length: "vec_remove i xs = (Some x, ys) \<Longrightarrow> length ys < length xs"
  by (auto simp: vec_remove_def split: if_splits)

lemma dispatch_once_length: "dispatch_once p s = Dispatched i s' \<Longrightarrow> length (ls_queue s') < length (ls_queue s)"
  by (auto simp: dispatch_once_def dispatch_selected_def Let_def
      split: if_splits option.splits prod.splits dest!: vec_remove_length)

function dispatch_loop :: "lane_params \<Rightarrow> lane_state \<Rightarrow> execution_id list \<times> lane_state" where
  "dispatch_loop p s =
     (case dispatch_once p s of
        DispatchBreak s' \<Rightarrow> ([], s')
      | Dispatched i s' \<Rightarrow> (let (starts, s'') = dispatch_loop p s' in (i # starts, s'')))"
  by pat_completeness auto
termination
  by (relation "measure (\<lambda>(p, s). length (ls_queue s))") (auto dest: dispatch_once_length)

declare dispatch_loop.simps [simp del]

definition take_startable ::
  "lane_params \<Rightarrow> lane_state \<Rightarrow> execution_id list \<times> bool \<times> lane_state \<times> lane_signal list" where
  "take_startable p s =
     (let (starts, s1) = dispatch_loop p s;
          should_exit = (ls_closing s1 \<and> ls_active s1 = [])
      in if starts \<noteq> [] then (starts, should_exit, notify_waiting_head s1, [CapacityWaiters])
         else (starts, should_exit, s1, []))"

definition execution_finished :: "execution_id \<Rightarrow> lane_state \<Rightarrow> lane_state \<times> lane_signal list" where
  "execution_finished i s =
     (let s1 = (if i \<in> set (ls_active s)
                then s\<lparr>ls_active := removeAll i (ls_active s),
                       ls_running := (case checked_sub (ls_running s) 1 of
                                        Some next \<Rightarrow> next
                                      | None \<Rightarrow> ls_running s)\<rparr>
                else s);
          s2 = (case map_of (ls_running_ordering_keys s1) i of
                  None \<Rightarrow> s1
                | Some key \<Rightarrow>
                    decrement_ordering_key_refcount key
                      (s1\<lparr>ls_running_ordering_keys := AList.delete i (ls_running_ordering_keys s1),
                          ls_active_ordering_keys := removeAll key (ls_active_ordering_keys s1)\<rparr>))
      in (s2, [WorkOne]))"

definition lane_request_close :: "lane_state \<Rightarrow> execution_id list \<times> lane_state \<times> lane_signal list" where
  "lane_request_close s =
     (let s1 = s\<lparr>ls_closing := True\<rparr>
      in (ls_active s1, notify_all_waiting_producers s1, [WorkWaiters, CapacityWaiters]))"

definition dispatcher_stopped :: "lane_state \<Rightarrow> lane_state \<times> lane_signal list" where
  "dispatcher_stopped s =
     (let queued = keys (ls_entries s);
          running_controls = filter (\<lambda>i. i \<notin> set queued) (ls_active s);
          s1 = s\<lparr>ls_closing := True, ls_runtime_unavailable := True, ls_queue := [], ls_entries := [],
                ls_active := [], ls_running := 0, ls_active_ordering_keys := [],
                ls_running_ordering_keys := [], ls_ordering_key_refcounts := []\<rparr>
      in (notify_all_waiting_producers s1,
          map DropStart queued @ map (\<lambda>i. CancelRunning i ExecutorShutdown) running_controls
          @ [CapacityWaiters, WorkWaiters]))"

section \<open>Admission\<close>

text \<open>
  The ticket test shared by the two checks: a waiting producer must be at the head, a fresh
  submission must find nobody waiting.
\<close>

definition ticket_refused :: "u64 option \<Rightarrow> lane_state \<Rightarrow> bool" where
  "ticket_refused waiter_ticket s =
     (case waiter_ticket of
        Some ticket \<Rightarrow> first_key (ls_waiting_queue s) \<noteq> Some ticket
      | None \<Rightarrow> ls_waiting_queue s \<noteq> [])"

definition check_try_admission_for ::
  "lane_params \<Rightarrow> bool \<Rightarrow> u64 option \<Rightarrow> lane_state \<Rightarrow> spawn_error + unit" where
  "check_try_admission_for p admission_open waiter_ticket s =
     (if \<not> admission_open then Inl SpExecutorShuttingDown
      else if ls_runtime_unavailable s then Inl SpExecutorUnavailable
      else if ls_closing s then Inl SpLaneClosing
      else if unat (cfg_capacity (lp_config p)) \<le> length (ls_entries s) then Inl SpQueueFull
      else if ticket_refused waiter_ticket s then Inl SpQueueFull
      else Inr ())"

text \<open>The new reference count of the submission's ordering key, if it has one.\<close>

definition next_key_refcount ::
  "lane_params \<Rightarrow> spawn_options \<Rightarrow> lane_state \<Rightarrow> spawn_error + (ordering_key \<times> usize) option" where
  "next_key_refcount p options s =
     (case opt_ordering_key options of
        None \<Rightarrow> Inr None
      | Some key \<Rightarrow>
          (case map_of (ls_ordering_key_refcounts s) key of
             Some count \<Rightarrow>
               (case checked_add count 1 of
                  None \<Rightarrow> Inl SequenceExhausted
                | Some next \<Rightarrow> Inr (Some (key, next)))
           | None \<Rightarrow>
               if unat (lp_max_ordering_keys p) \<le> length (ls_ordering_key_refcounts s)
               then Inl OrderingKeyLimitReached
               else Inr (Some (key, 1))))"

text \<open>The part of \<open>insert_prepared\<close> under the lane lock.\<close>

definition insert_locked ::
  "lane_params \<Rightarrow> execution_id \<Rightarrow> spawn_options \<Rightarrow> u64 option \<Rightarrow> lane_state
   \<Rightarrow> (spawn_error + unit) \<times> lane_state" where
  "insert_locked p i options waiter_ticket s =
     (if ls_runtime_unavailable s then (Inl SpExecutorUnavailable, s)
      else if ls_closing s then (Inl SpLaneClosing, s)
      else if unat (cfg_capacity (lp_config p)) \<le> length (ls_entries s) then (Inl SpQueueFull, s)
      else if ticket_refused waiter_ticket s then (Inl SpQueueFull, s)
      else case next_key_refcount p options s of
             Inl error \<Rightarrow> (Inl error, s)
           | Inr key_count \<Rightarrow>
               (case checked_add (ls_next_sequence s) 1 of
                  None \<Rightarrow> (Inl SequenceExhausted, s)
                | Some next_sequence \<Rightarrow>
                    (Inr (),
                     s\<lparr>ls_next_sequence := next_sequence,
                       ls_ordering_key_refcounts :=
                         (case key_count of
                            None \<Rightarrow> ls_ordering_key_refcounts s
                          | Some (key, count) \<Rightarrow> AList.update key count (ls_ordering_key_refcounts s)),
                       ls_active := List.insert i (ls_active s),
                       ls_entries := AList.update i
                         \<lparr>qe_options = options, qe_sequence = ls_next_sequence s\<rparr> (ls_entries s),
                       ls_queue := ls_queue s @ [i]\<rparr>)))"

text \<open>
  The whole of \<open>insert_prepared\<close>: between the unlock and the registration other threads may run;
  \<open>between\<close> is what they do to the lane, \<open>registered\<close> what the registration answers.
\<close>

definition insert_prepared ::
  "lane_params \<Rightarrow> execution_id \<Rightarrow> spawn_options \<Rightarrow> u64 option
   \<Rightarrow> (lane_state \<Rightarrow> lane_state) \<Rightarrow> (beaver_error + unit) \<Rightarrow> lane_state
   \<Rightarrow> (spawn_error + execution_id) \<times> lane_state \<times> lane_signal list" where
  "insert_prepared p i options waiter_ticket between registered s =
     (case insert_locked p i options waiter_ticket s of
        (Inl error, s1) \<Rightarrow> (Inl error, s1, [DropStart i])
      | (Inr _, s1) \<Rightarrow>
          let s2 = between s1 in
          case registered of
            Inl error \<Rightarrow>
              (let (s3, signals) = remove_queued i s2 in (Inl (spawn_error_from error), s3, signals))
          | Inr _ \<Rightarrow> (Inr i, s2, [WorkOne]))"

text \<open>
  \<open>try_spawn_with_options_for\<close>: the executor-wide admission lock is held throughout, the lane lock
  is taken for the check and again for the insertion.
\<close>

definition try_spawn ::
  "lane_params \<Rightarrow> bool \<Rightarrow> execution_id \<Rightarrow> spawn_options \<Rightarrow> u64 option
   \<Rightarrow> (lane_state \<Rightarrow> lane_state) \<Rightarrow> (lane_state \<Rightarrow> lane_state) \<Rightarrow> (beaver_error + unit) \<Rightarrow> lane_state
   \<Rightarrow> (spawn_error + execution_id) \<times> lane_state \<times> lane_signal list" where
  "try_spawn p admission_open i options waiter_ticket before between registered s =
     (case check_try_admission_for p admission_open waiter_ticket s of
        Inl error \<Rightarrow> (Inl error, s, [])
      | Inr _ \<Rightarrow> insert_prepared p i options waiter_ticket between registered (before s))"

text \<open>\<open>try_spawn_retry_at\<close> reads the clock before and after taking the admission lock.\<close>

definition try_spawn_retry_at ::
  "lane_params \<Rightarrow> bool \<Rightarrow> execution_id \<Rightarrow> instant option \<Rightarrow> instant \<Rightarrow> instant \<Rightarrow> u64 option
   \<Rightarrow> (lane_state \<Rightarrow> lane_state) \<Rightarrow> (lane_state \<Rightarrow> lane_state) \<Rightarrow> (beaver_error + unit) \<Rightarrow> lane_state
   \<Rightarrow> (spawn_error + execution_id) \<times> lane_state \<times> lane_signal list" where
  "try_spawn_retry_at p admission_open i deadline now1 now2 waiter_ticket before between registered s =
     (if (case deadline of None \<Rightarrow> False | Some d \<Rightarrow> d \<le> now1) then (Inl AdmissionDeadlineExceeded, s, [])
      else case check_try_admission_for p admission_open waiter_ticket s of
             Inl error \<Rightarrow> (Inl error, s, [])
           | Inr _ \<Rightarrow>
               if (case deadline of None \<Rightarrow> False | Some d \<Rightarrow> d \<le> now2) then (Inl AdmissionDeadlineExceeded, s, [])
               else insert_prepared p i default_options waiter_ticket between registered (before s))"

section \<open>Statistics\<close>

text \<open>
  The counters are lengths of a subset of the entries, so the code's checked increments cannot
  overflow; a priority above 7 cannot be built and would be left out.
\<close>

primrec stats_loop ::
  "lane_state \<Rightarrow> (execution_id \<times> queue_entry) list \<Rightarrow> nat \<times> nat list \<Rightarrow> nat \<times> nat list" where
  "stats_loop s [] counts = counts"
| "stats_loop s (e # entries) counts =
     stats_loop s entries
       (if blocked s (snd e) then (fst counts + 1, snd counts)
        else let priority = unat (opt_priority (qe_options (snd e)))
             in if priority < length (snd counts)
                then (fst counts, (snd counts)[priority := snd counts ! priority + 1])
                else counts)"

definition lane_stats_of :: "lane_params \<Rightarrow> lane_state \<Rightarrow> lane_stats" where
  "lane_stats_of p s =
     (let (blocked_count, ready) = stats_loop s (ls_entries s) (0, replicate 8 0)
      in \<lparr>queued_live = length (ls_entries s),
          st_running = ls_running s,
          available_queue_capacity = unat (cfg_capacity (lp_config p)) - length (ls_entries s),
          st_waiting_producers = ls_waiting_producers s,
          blocked_by_ordering_key = blocked_count,
          ready_by_priority = ready\<rparr>)"

end
