(* ===== verification/BB_Lane_Inv.thy ===== *)
theory BB_Lane_Inv
  imports BB_Lane
begin

text \<open>
  The lane as a transition system of its lock regions, interleaved arbitrarily, and its invariant:
  the queue, the entries, the active map and the running counter describe the same set of
  executions; at most one execution per ordering key runs; the key references are exact; sequences
  and tickets are increasing.  The results: the bounds, key exclusion, what a dispatch selects and
  that it leaves no startable work behind, admission, closing and the statistics.
\<close>

section \<open>Selection facts\<close>

lemma replaces_chain:
  "replaces b x y \<Longrightarrow> \<not> replaces b z y \<Longrightarrow> \<not> replaces b z x"
  by (auto simp: replaces_def split: if_splits)

lemma replaces_asym: "replaces b x y \<Longrightarrow> \<not> replaces b y x"
  by (auto simp: replaces_def split: if_splits)

lemma replaces_irrefl: "\<not> replaces b x x"
  by (simp add: replaces_def)

lemma select_loop_best:
  "select_loop b cs sel = Some r \<Longrightarrow>
     (r \<in> set cs \<or> sel = Some r) \<and> (\<forall>c \<in> set cs \<union> set_option sel. \<not> replaces b c r)"
proof (induction cs arbitrary: sel)
  case Nil
  then show ?case by (auto simp: replaces_irrefl)
next
  case (Cons c cs)
  show ?case
  proof (cases sel)
    case None
    with Cons.prems Cons.IH [of "Some c"] show ?thesis by auto
  next
    case (Some cur)
    show ?thesis
    proof (cases "replaces b c cur")
      case True
      with Cons.prems Some Cons.IH [of "Some c"]
      have "r \<in> set cs \<or> r = c" "\<forall>d \<in> set cs. \<not> replaces b d r" "\<not> replaces b c r" by auto
      moreover have "\<not> replaces b cur r"
        using \<open>\<not> replaces b c r\<close> True replaces_chain [of b r cur c] replaces_chain replaces_asym by blast
      ultimately show ?thesis using Some by auto
    next
      case False
      with Cons.prems Some Cons.IH [of "Some cur"]
      have *: "r \<in> set cs \<or> r = cur" "\<forall>d \<in> set cs. \<not> replaces b d r" "\<not> replaces b cur r" by auto
      moreover have "\<not> replaces b c r"
        using False *(3) by (auto simp: replaces_def split: if_splits)
      ultimately show ?thesis using Some by auto
    qed
  qed
qed

lemma select_loop_None: "select_loop b cs sel = None \<longleftrightarrow> cs = [] \<and> sel = None"
proof (induction cs arbitrary: sel)
  case (Cons c cs)
  then show ?case by (cases sel) auto
qed simp

lemma in_candidates:
  "c \<in> set (candidates s) \<longleftrightarrow>
     (\<exists>n e. n < length (ls_queue s) \<and> map_of (ls_entries s) (ls_queue s ! n) = Some e \<and> \<not> blocked s e
        \<and> c = \<lparr>rc_queue_index = n, rc_execution_id = ls_queue s ! n,
               rc_priority = opt_priority (qe_options e), rc_sequence = qe_sequence e\<rparr>)"
  by (auto simp: candidates_def candidate_of_def map_filter_def in_set_enumerate_eq
      split: option.splits if_splits) (force simp: in_set_enumerate_eq image_iff)+

section \<open>The transition system\<close>

text \<open>
  \<open>sys_monitors\<close> are the executions that were started and whose monitor has not reported yet;
  \<open>sys_dispatches\<close> counts the starts since the beginning.  An execution identity is fresh when it is
  inserted.
\<close>

record lane_sys =
  sys_lane :: lane_state
  sys_monitors :: "execution_id list"
  sys_dispatches :: nat

definition lane_init :: "lane_sys \<Rightarrow> bool" where
  "lane_init y \<longleftrightarrow> y = \<lparr>sys_lane = lane_state_new, sys_monitors = [], sys_dispatches = 0\<rparr>"

definition consume_permit :: "u64 \<Rightarrow> lane_state \<Rightarrow> lane_state" where
  "consume_permit ticket s =
     s\<lparr>ls_waiting_queue := map (\<lambda>(t, permit). (t, permit \<and> t \<noteq> ticket)) (ls_waiting_queue s)\<rparr>"

inductive lane_step :: "lane_params \<Rightarrow> lane_sys \<Rightarrow> lane_sys \<Rightarrow> bool" for p where
  lane_insert:
    "i \<notin> set (ls_active (sys_lane y)) \<Longrightarrow> i \<notin> set (sys_monitors y) \<Longrightarrow>
     opt_priority options \<le> highest_priority \<Longrightarrow>
     insert_locked p i options ticket (sys_lane y) = (res, s) \<Longrightarrow>
     lane_step p y (y\<lparr>sys_lane := s\<rparr>)"
| lane_remove:
    "remove_queued i (sys_lane y) = (s, signals) \<Longrightarrow> lane_step p y (y\<lparr>sys_lane := s\<rparr>)"
| lane_take:
    "\<not> ls_runtime_unavailable (sys_lane y) \<Longrightarrow>
     take_startable p (sys_lane y) = (starts, should_exit, s, signals) \<Longrightarrow>
     lane_step p y (y\<lparr>sys_lane := s, sys_monitors := sys_monitors y @ starts,
                      sys_dispatches := sys_dispatches y + length starts\<rparr>)"
| lane_finished:
    "i \<in> set (sys_monitors y) \<Longrightarrow> execution_finished i (sys_lane y) = (s, signals) \<Longrightarrow>
     lane_step p y (y\<lparr>sys_lane := s, sys_monitors := removeAll i (sys_monitors y)\<rparr>)"
| lane_close:
    "lane_request_close (sys_lane y) = (controls, s, signals) \<Longrightarrow>
     lane_step p y (y\<lparr>sys_lane := s\<rparr>)"
| lane_stopped:
    "dispatcher_stopped (sys_lane y) = (s, signals) \<Longrightarrow> lane_step p y (y\<lparr>sys_lane := s\<rparr>)"
| lane_waiter_new:
    "waiter_new p (sys_lane y) = (res, s) \<Longrightarrow> lane_step p y (y\<lparr>sys_lane := s\<rparr>)"
| lane_waiter_finish:
    "waiter_finish p ticket (sys_lane y) = (s, signals) \<Longrightarrow> lane_step p y (y\<lparr>sys_lane := s\<rparr>)"
| lane_waiter_wakes:
    "lane_step p y (y\<lparr>sys_lane := consume_permit ticket (sys_lane y)\<rparr>)"

section \<open>The invariant\<close>

definition queue_inv :: "lane_params \<Rightarrow> execution_id list \<Rightarrow> lane_state \<Rightarrow> bool" where
  "queue_inv p ms s \<longleftrightarrow>
     distinct (ls_queue s) \<and> distinct (keys (ls_entries s)) \<and> set (ls_queue s) = set (keys (ls_entries s))
     \<and> distinct (ls_active s) \<and> distinct ms
     \<and> set (ls_queue s) \<inter> set ms = {}
     \<and> (if ls_runtime_unavailable s then ls_active s = [] \<and> ls_queue s = [] \<and> ls_closing s
        else set (ls_active s) = set (ls_queue s) \<union> set ms)
     \<and> length (ls_active s) = length (ls_queue s) + unat (ls_running s)
     \<and> ls_running s \<le> cfg_concurrency (lp_config p)
     \<and> length (ls_entries s) \<le> unat (cfg_capacity (lp_config p))"

definition entry_sequence :: "lane_state \<Rightarrow> execution_id \<Rightarrow> nat" where
  "entry_sequence s i = (case map_of (ls_entries s) i of None \<Rightarrow> 0 | Some e \<Rightarrow> unat (qe_sequence e))"

definition sequence_inv :: "lane_state \<Rightarrow> bool" where
  "sequence_inv s \<longleftrightarrow>
     sorted_wrt (\<lambda>i j. entry_sequence s i < entry_sequence s j) (ls_queue s)
     \<and> (\<forall>i \<in> set (ls_queue s). entry_sequence s i < unat (ls_next_sequence s))
     \<and> (\<forall>(i, e) \<in> set (ls_entries s). opt_priority (qe_options e) \<le> highest_priority)"

text \<open>How many queued or running executions hold a key.\<close>

definition key_uses :: "lane_state \<Rightarrow> ordering_key \<Rightarrow> nat" where
  "key_uses s k =
     length (filter (\<lambda>e. opt_ordering_key (qe_options (snd e)) = Some k) (ls_entries s))
     + length (filter (\<lambda>r. snd r = k) (ls_running_ordering_keys s))"

definition refcounts_ok :: "lane_state \<Rightarrow> bool" where
  "refcounts_ok s \<longleftrightarrow>
     distinct (keys (ls_ordering_key_refcounts s))
     \<and> (\<forall>k. map_of (ls_ordering_key_refcounts s) k = None \<longleftrightarrow> key_uses s k = 0)
     \<and> (\<forall>k c. map_of (ls_ordering_key_refcounts s) k = Some c \<longrightarrow> unat c = key_uses s k)"

definition key_inv :: "lane_params \<Rightarrow> lane_state \<Rightarrow> bool" where
  "key_inv p s \<longleftrightarrow>
     distinct (keys (ls_running_ordering_keys s))
     \<and> set (keys (ls_running_ordering_keys s)) \<subseteq> set (ls_active s) - set (ls_queue s)
     \<and> distinct (map snd (ls_running_ordering_keys s))
     \<and> set (ls_active_ordering_keys s) = snd ` set (ls_running_ordering_keys s)
     \<and> refcounts_ok s
     \<and> length (ls_ordering_key_refcounts s) \<le> unat (lp_max_ordering_keys p)"

definition waiter_inv :: "lane_params \<Rightarrow> lane_state \<Rightarrow> bool" where
  "waiter_inv p s \<longleftrightarrow>
     sorted_wrt (<) (keys (ls_waiting_queue s))
     \<and> (\<forall>t \<in> set (keys (ls_waiting_queue s)). t < ls_next_waiter_sequence s)
     \<and> length (ls_waiting_queue s) = unat (ls_waiting_producers s)
     \<and> ls_waiting_producers s \<le> lp_max_waiting_producers p"

definition state_inv :: "lane_params \<Rightarrow> execution_id list \<Rightarrow> lane_state \<Rightarrow> bool" where
  "state_inv p ms s \<longleftrightarrow> queue_inv p ms s \<and> sequence_inv s \<and> key_inv p s \<and> waiter_inv p s"

definition lane_inv :: "lane_params \<Rightarrow> lane_sys \<Rightarrow> bool" where
  "lane_inv p y \<longleftrightarrow> state_inv p (sys_monitors y) (sys_lane y)"

section \<open>Signals touch the permits only\<close>

lemma keys_map_permits: "map fst (map (\<lambda>(t, permit). (t, f t permit)) m) = map fst m"
  by (induction m) auto

definition same_but_permits :: "lane_state \<Rightarrow> lane_state \<Rightarrow> bool" where
  "same_but_permits s s' \<longleftrightarrow>
     (\<exists>wq. s' = s\<lparr>ls_waiting_queue := wq\<rparr> \<and> map fst wq = map fst (ls_waiting_queue s))"

lemma same_but_permits_refl: "same_but_permits s s"
  unfolding same_but_permits_def by (rule exI [of _ "ls_waiting_queue s"]) simp

lemma same_but_permits_trans: "same_but_permits s s' \<Longrightarrow> same_but_permits s' s'' \<Longrightarrow> same_but_permits s s''"
  unfolding same_but_permits_def by auto

lemma same_but_permits_notify: "same_but_permits s (notify_waiting_producer t s)"
  unfolding same_but_permits_def notify_waiting_producer_def by (intro exI conjI, rule refl, rule keys_map_permits)

lemma same_but_permits_ops:
  "same_but_permits s (notify_waiting_head s)"
  "same_but_permits s (notify_all_waiting_producers s)"
  "same_but_permits s (consume_permit t s)"
proof -
  show "same_but_permits s (notify_waiting_head s)"
    by (simp add: notify_waiting_head_def same_but_permits_refl same_but_permits_notify split: option.splits)
  have "same_but_permits s (fold notify_waiting_producer ts s)" for ts
  proof (induction ts arbitrary: s)
    case (Cons t ts)
    from same_but_permits_trans [OF same_but_permits_notify Cons.IH] show ?case by simp
  qed (simp add: same_but_permits_refl)
  then show "same_but_permits s (notify_all_waiting_producers s)"
    by (simp add: notify_all_waiting_producers_def)
  show "same_but_permits s (consume_permit t s)"
    unfolding same_but_permits_def consume_permit_def by (intro exI conjI, rule refl, rule keys_map_permits)
qed

lemma same_but_permits_fields:
  assumes "same_but_permits s s'"
  shows "ls_closing s' = ls_closing s" "ls_runtime_unavailable s' = ls_runtime_unavailable s"
    "ls_queue s' = ls_queue s" "ls_entries s' = ls_entries s" "ls_active s' = ls_active s"
    "ls_running s' = ls_running s" "ls_waiting_producers s' = ls_waiting_producers s"
    "keys (ls_waiting_queue s') = keys (ls_waiting_queue s)"
    "ls_next_waiter_sequence s' = ls_next_waiter_sequence s" "ls_next_sequence s' = ls_next_sequence s"
    "ls_dispatch_count s' = ls_dispatch_count s" "ls_active_ordering_keys s' = ls_active_ordering_keys s"
    "ls_running_ordering_keys s' = ls_running_ordering_keys s"
    "ls_ordering_key_refcounts s' = ls_ordering_key_refcounts s"
  using assms by (auto simp: same_but_permits_def)

lemma state_inv_permits:
  assumes "state_inv p ms s" and "same_but_permits s s'"
  shows "state_inv p ms s'"
proof -
  note f = same_but_permits_fields [OF assms(2)]
  have len: "length (ls_waiting_queue s') = length (ls_waiting_queue s)"
    using arg_cong [OF f(8), of length] by simp
  have seq: "entry_sequence s' = entry_sequence s" and uses: "key_uses s' = key_uses s"
    by (simp_all add: fun_eq_iff entry_sequence_def key_uses_def f)
  from assms(1) show ?thesis
    unfolding state_inv_def queue_inv_def sequence_inv_def key_inv_def waiter_inv_def refcounts_ok_def
      f seq uses len .
qed

section \<open>Counting\<close>

lemma length_filter_delete:
  assumes "distinct (keys m)" and "map_of m i = Some e"
  shows "length (filter P m) = length (filter P (AList.delete i m)) + (if P (i, e) then 1 else 0)"
  using assms
proof (induction m)
  case (Cons q m)
  obtain j f where q: "q = (j, f)" by (cases q)
  show ?case
  proof (cases "j = i")
    case True
    with Cons.prems q have "AList.delete i (q # m) = m"
      by (simp add: delete_notin)
    with True Cons.prems q show ?thesis by simp
  next
    case False
    with Cons q show ?thesis by simp
  qed
qed simp

lemma length_removeAll_distinct:
  "distinct xs \<Longrightarrow> x \<in> set xs \<Longrightarrow> length xs = Suc (length (removeAll x xs))"
  by (simp flip: distinct_remove1_removeAll add: length_remove1)
     (metis Suc_pred length_pos_if_in_set)

definition counts_ok :: "('k \<times> usize) list \<Rightarrow> ('k \<Rightarrow> nat) \<Rightarrow> bool" where
  "counts_ok m u \<longleftrightarrow> distinct (keys m)
     \<and> (\<forall>k. map_of m k = None \<longleftrightarrow> u k = 0) \<and> (\<forall>k c. map_of m k = Some c \<longrightarrow> unat c = u k)"

lemma refcounts_ok_counts: "refcounts_ok s \<longleftrightarrow> counts_ok (ls_ordering_key_refcounts s) (key_uses s)"
  by (simp add: refcounts_ok_def counts_ok_def)

lemma counts_ok_cong: "counts_ok m u \<Longrightarrow> (\<And>k. u' k = u k) \<Longrightarrow> counts_ok m u'"
  by (simp add: counts_ok_def)

lemma counts_ok_at: "counts_ok m u \<Longrightarrow> u k \<noteq> 0 \<Longrightarrow> \<exists>c. map_of m k = Some c \<and> unat c = u k"
  unfolding counts_ok_def by (metis option.exhaust)

lemma counts_ok_update:
  assumes "counts_ok m u" and "unat n = v" and "v \<noteq> 0"
  shows "counts_ok (AList.update k n m) (u(k := v))"
  using assms by (auto simp: counts_ok_def distinct_update map_of_update)

lemma counts_ok_delete: "counts_ok m u \<Longrightarrow> counts_ok (AList.delete k m) (u(k := 0))"
  by (auto simp: counts_ok_def distinct_delete map_of_delete)

lemma decrement_fields [simp]:
  "ls_closing (decrement_ordering_key_refcount k s) = ls_closing s"
  "ls_runtime_unavailable (decrement_ordering_key_refcount k s) = ls_runtime_unavailable s"
  "ls_queue (decrement_ordering_key_refcount k s) = ls_queue s"
  "ls_entries (decrement_ordering_key_refcount k s) = ls_entries s"
  "ls_active (decrement_ordering_key_refcount k s) = ls_active s"
  "ls_running (decrement_ordering_key_refcount k s) = ls_running s"
  "ls_waiting_producers (decrement_ordering_key_refcount k s) = ls_waiting_producers s"
  "ls_waiting_queue (decrement_ordering_key_refcount k s) = ls_waiting_queue s"
  "ls_next_waiter_sequence (decrement_ordering_key_refcount k s) = ls_next_waiter_sequence s"
  "ls_next_sequence (decrement_ordering_key_refcount k s) = ls_next_sequence s"
  "ls_dispatch_count (decrement_ordering_key_refcount k s) = ls_dispatch_count s"
  "ls_active_ordering_keys (decrement_ordering_key_refcount k s) = ls_active_ordering_keys s"
  "ls_running_ordering_keys (decrement_ordering_key_refcount k s) = ls_running_ordering_keys s"
  by (simp_all add: decrement_ordering_key_refcount_def split: option.splits)

lemma length_update_present: "map_of m k = Some c \<Longrightarrow> length (AList.update k n m) = length m"
  by (induction m) auto

lemma decrement_counts:
  assumes "counts_ok (ls_ordering_key_refcounts s) u" and "u k \<noteq> 0"
  shows "counts_ok (ls_ordering_key_refcounts (decrement_ordering_key_refcount k s)) (u(k := u k - 1))"
    and "length (ls_ordering_key_refcounts (decrement_ordering_key_refcount k s))
      \<le> length (ls_ordering_key_refcounts s)"
proof -
  from counts_ok_at [OF assms] obtain c where c: "map_of (ls_ordering_key_refcounts s) k = Some c" "unat c = u k"
    by blast
  have "checked_sub c 1 \<noteq> None" using c(2) assms(2) by (simp add: checked_sub_None)
  then obtain n where n: "checked_sub c 1 = Some n" by blast
  with c(2) have un: "unat n = u k - 1" by (simp add: unat_checked_sub)
  show "counts_ok (ls_ordering_key_refcounts (decrement_ordering_key_refcount k s)) (u(k := u k - 1))"
  proof (cases "n = 0")
    case True
    with un have "u k - 1 = 0" by simp
    with counts_ok_delete [OF assms(1), of k] c n True show ?thesis
      by (simp add: decrement_ordering_key_refcount_def)
  next
    case False
    with un have "u k - 1 \<noteq> 0" by (metis unat_eq_zero)
    with counts_ok_update [OF assms(1) un] c n False show ?thesis
      by (simp add: decrement_ordering_key_refcount_def)
  qed
  show "length (ls_ordering_key_refcounts (decrement_ordering_key_refcount k s))
      \<le> length (ls_ordering_key_refcounts s)"
    using c n by (auto simp: decrement_ordering_key_refcount_def length_update_present length_delete_le)
qed

lemma entry_sequence_delete:
  "ls_entries s' = AList.delete i (ls_entries s) \<Longrightarrow> j \<noteq> i \<Longrightarrow> entry_sequence s' j = entry_sequence s j"
  by (simp add: entry_sequence_def map_of_delete)

lemma sequence_inv_removed:
  assumes "sequence_inv s" and "ls_entries s' = AList.delete i (ls_entries s)"
    and "ls_queue s' = removeAll i (ls_queue s)" and "ls_next_sequence s' = ls_next_sequence s"
  shows "sequence_inv s'"
proof -
  note same = entry_sequence_delete [OF assms(2)]
  have "sorted_wrt (\<lambda>a b. entry_sequence s a < entry_sequence s b) (removeAll i (ls_queue s))"
    unfolding removeAll_filter_eq [symmetric]
    by (rule sorted_wrt_filter) (use assms(1) in \<open>simp add: sequence_inv_def\<close>)
  then have "sorted_wrt (\<lambda>a b. entry_sequence s' a < entry_sequence s' b) (removeAll i (ls_queue s))"
    by (rule sorted_wrt_mono_rel [rotated]) (auto simp: same)
  with assms same show ?thesis by (auto simp: sequence_inv_def set_delete)
qed

section \<open>Removing a queued execution\<close>

lemma remove_queued_locked_inv:
  assumes inv: "state_inv p ms s" and step: "remove_queued_locked i s = (True, s')"
  shows "state_inv p ms s'"
proof -
  from step obtain e where e: "map_of (ls_entries s) i = Some e"
    by (auto simp: remove_queued_locked_def split: option.splits)
  define s1 where "s1 = s\<lparr>ls_entries := AList.delete i (ls_entries s), ls_queue := removeAll i (ls_queue s),
      ls_active := removeAll i (ls_active s)\<rparr>"
  have s': "s' = (case opt_ordering_key (qe_options e) of None \<Rightarrow> s1
      | Some key \<Rightarrow> decrement_ordering_key_refcount key s1)"
    using step e by (auto simp: remove_queued_locked_def removeAll_filter_eq Let_def s1_def [symmetric])
  have fields: "ls_queue s' = removeAll i (ls_queue s)" "ls_entries s' = AList.delete i (ls_entries s)"
    "ls_active s' = removeAll i (ls_active s)" "ls_closing s' = ls_closing s"
    "ls_runtime_unavailable s' = ls_runtime_unavailable s" "ls_running s' = ls_running s"
    "ls_waiting_producers s' = ls_waiting_producers s" "ls_waiting_queue s' = ls_waiting_queue s"
    "ls_next_waiter_sequence s' = ls_next_waiter_sequence s" "ls_next_sequence s' = ls_next_sequence s"
    "ls_active_ordering_keys s' = ls_active_ordering_keys s"
    "ls_running_ordering_keys s' = ls_running_ordering_keys s"
    by (simp_all add: s' s1_def split: option.splits)
  from inv have q: "queue_inv p ms s" and sq: "sequence_inv s" and k: "key_inv p s" and w: "waiter_inv p s"
    by (simp_all add: state_inv_def)
  have iq: "i \<in> set (ls_queue s)" using q map_of_in_keys [OF e] by (simp add: queue_inv_def)
  then have ia: "i \<in> set (ls_active s)" and avail: "\<not> ls_runtime_unavailable s" and im: "i \<notin> set ms"
    using q by (auto simp: queue_inv_def split: if_splits)
  have la: "length (ls_active s) = Suc (length (removeAll i (ls_active s)))"
    and lq: "length (ls_queue s) = Suc (length (removeAll i (ls_queue s)))"
    by (rule length_removeAll_distinct [OF _ ia], use q in \<open>simp add: queue_inv_def\<close>)
       (rule length_removeAll_distinct [OF _ iq], use q in \<open>simp add: queue_inv_def\<close>)
  have "queue_inv p ms s'"
    using q la lq avail im length_delete_le [of i "ls_entries s"]
    by (auto simp: queue_inv_def fields distinct_delete set_delete distinct_removeAll)
  moreover have "sequence_inv s'" by (rule sequence_inv_removed [OF sq fields(2,1,10)])
  moreover have "key_inv p s'"
  proof -
    have uses: "key_uses s key = key_uses s1 key + (if opt_ordering_key (qe_options e) = Some key then 1 else 0)" for key
      using length_filter_delete [OF _ e, of "\<lambda>x. opt_ordering_key (qe_options (snd x)) = Some key"] q
      by (simp add: key_uses_def s1_def queue_inv_def)
    have r: "counts_ok (ls_ordering_key_refcounts s1) (key_uses s)"
      using k by (simp add: key_inv_def refcounts_ok_counts s1_def)
    have "refcounts_ok s' \<and> length (ls_ordering_key_refcounts s') \<le> length (ls_ordering_key_refcounts s)"
    proof (cases "opt_ordering_key (qe_options e)")
      case None
      with r uses s' show ?thesis
        by (auto simp: refcounts_ok_counts s1_def intro: counts_ok_cong)
    next
      case (Some key)
      then have ne: "key_uses s key \<noteq> 0" using uses [of key] by simp
      have "key_uses s' = (key_uses s)(key := key_uses s key - 1)"
        using uses Some by (auto simp: fun_eq_iff s' key_uses_def)
      with decrement_counts [OF r ne] Some s' show ?thesis by (simp add: refcounts_ok_counts s1_def)
    qed
    with k iq show ?thesis by (auto simp: key_inv_def fields)
  qed
  moreover have "waiter_inv p s'" using w by (simp add: waiter_inv_def fields)
  ultimately show ?thesis by (simp add: state_inv_def)
qed

lemma remove_queued_locked_False: "remove_queued_locked i s = (False, s') \<Longrightarrow> s' = s"
  by (simp add: remove_queued_locked_def Let_def split: option.splits)

lemma remove_queued_inv:
  assumes "state_inv p ms s" and "remove_queued i s = (s', signals)"
  shows "state_inv p ms s'"
proof -
  obtain removed s1 where r: "remove_queued_locked i s = (removed, s1)" by fastforce
  show ?thesis
  proof (cases removed)
    case True
    with r assms(2) have "s' = notify_waiting_head s1" by (simp add: remove_queued_def)
    with state_inv_permits [OF remove_queued_locked_inv [OF assms(1)] same_but_permits_ops(1)] r True
    show ?thesis by simp
  next
    case False
    with r assms remove_queued_locked_False [of i s s1] show ?thesis by (simp add: remove_queued_def)
  qed
qed

section \<open>Admission\<close>

lemma unat_plus_one:
  fixes a b :: "'a::len word"
  assumes "a < b"
  shows "unat (a + 1) = unat a + 1" and "checked_add a 1 = Some (a + 1)"
proof -
  have "unat a + 1 < 2 ^ LENGTH('a)"
    by (rule le_less_trans [OF _ unsigned_less [of b]]) (use assms in \<open>simp add: word_less_nat_alt Suc_le_eq\<close>)
  then show "unat (a + 1) = unat a + 1" by (rule unat_succ_word)
  show "checked_add a 1 = Some (a + 1)"
    using \<open>unat a + 1 < 2 ^ LENGTH('a)\<close> by (cases "LENGTH('a) = 1") (auto simp: checked_add_def)
qed

lemma checked_add_one:
  fixes a n :: "'a::len word"
  assumes "checked_add a 1 = Some n"
  shows "unat n = unat a + 1"
  using unat_checked_add [OF assms] assms by (cases "LENGTH('a) = 1") (auto simp: checked_add_def)

lemma insert_locked_inv:
  assumes inv: "state_inv p ms s" and fresh: "i \<notin> set (ls_active s)" "i \<notin> set ms"
    and prio: "opt_priority options \<le> highest_priority"
    and step: "insert_locked p i options ticket s = (Inr u, s')"
  shows "state_inv p ms s'"
proof -
  from inv have q: "queue_inv p ms s" and sq: "sequence_inv s" and k: "key_inv p s" and w: "waiter_inv p s"
    by (simp_all add: state_inv_def)
  from step obtain key_count next_sequence where
    room: "\<not> ls_runtime_unavailable s" "length (ls_entries s) < unat (cfg_capacity (lp_config p))"
    and kc: "next_key_refcount p options s = Inr key_count"
    and nseq: "checked_add (ls_next_sequence s) 1 = Some next_sequence"
    and s': "s' = s\<lparr>ls_next_sequence := next_sequence,
       ls_ordering_key_refcounts := (case key_count of None \<Rightarrow> ls_ordering_key_refcounts s
          | Some (key, count) \<Rightarrow> AList.update key count (ls_ordering_key_refcounts s)),
       ls_active := List.insert i (ls_active s),
       ls_entries := AList.update i \<lparr>qe_options = options, qe_sequence = ls_next_sequence s\<rparr> (ls_entries s),
       ls_queue := ls_queue s @ [i]\<rparr>"
    by (auto simp: insert_locked_def split: if_splits option.splits sum.splits)
  have iq: "i \<notin> set (ls_queue s)" using q fresh room(1) by (auto simp: queue_inv_def)
  then have ie: "i \<notin> set (keys (ls_entries s))" using q by (simp add: queue_inv_def)
  let ?e = "\<lparr>qe_options = options, qe_sequence = ls_next_sequence s\<rparr>"
  have ents: "ls_entries s' = ls_entries s @ [(i, ?e)]" using ie by (simp add: s' keys_update_new)
  have "queue_inv p ms s'"
    using q fresh room iq ie by (auto simp: queue_inv_def s' keys_update_new)
  moreover have "sequence_inv s'"
  proof -
    have old: "entry_sequence s' j = entry_sequence s j" if "j \<in> set (ls_queue s)" for j
      using that iq by (auto simp: entry_sequence_def s' map_of_update)
    have new: "entry_sequence s' i = unat (ls_next_sequence s)"
      by (simp add: entry_sequence_def s' map_of_update)
    have "sorted_wrt (\<lambda>a b. entry_sequence s' a < entry_sequence s' b) (ls_queue s)"
      by (rule sorted_wrt_mono_rel [of _ "\<lambda>a b. entry_sequence s a < entry_sequence s b"])
         (use sq old in \<open>auto simp: sequence_inv_def\<close>)
    then show ?thesis
      using sq old new prio checked_add_one [OF nseq] ents
      by (auto simp: sequence_inv_def s' sorted_wrt_append)
  qed
  moreover have "key_inv p s'"
  proof -
    have uses: "key_uses s' key = key_uses s key + (if opt_ordering_key options = Some key then 1 else 0)" for key
      by (simp add: key_uses_def ents) (simp add: s')
    have r: "counts_ok (ls_ordering_key_refcounts s) (key_uses s)"
      and len: "length (ls_ordering_key_refcounts s) \<le> unat (lp_max_ordering_keys p)"
      using k by (simp_all add: key_inv_def refcounts_ok_counts)
    have "refcounts_ok s' \<and> length (ls_ordering_key_refcounts s') \<le> unat (lp_max_ordering_keys p)"
    proof (cases "opt_ordering_key options")
      case None
      with kc have "key_count = None" by (simp add: next_key_refcount_def)
      with r uses None len show ?thesis by (auto simp: refcounts_ok_counts s' intro: counts_ok_cong)
    next
      case (Some key)
      show ?thesis
      proof (cases "map_of (ls_ordering_key_refcounts s) key")
        case None
        with kc Some have kn: "key_count = Some (key, 1)"
          and room': "length (ls_ordering_key_refcounts s) < unat (lp_max_ordering_keys p)"
          by (auto simp: next_key_refcount_def split: if_splits)
        from r None have "key_uses s key = 0"
          unfolding counts_ok_def by blast
        then have "counts_ok (AList.update key 1 (ls_ordering_key_refcounts s)) ((key_uses s)(key := 1))"
          by (intro counts_ok_update [OF r]) auto
        moreover have "key_uses s' = (key_uses s)(key := 1)"
          using uses Some \<open>key_uses s key = 0\<close> by (auto simp: fun_eq_iff)
        moreover have "key \<notin> set (keys (ls_ordering_key_refcounts s))"
          using None by (simp add: map_of_notin_keys)
        ultimately show ?thesis using kn room' by (simp add: refcounts_ok_counts s' keys_update_new)
      next
        case (Some c)
        with kc \<open>opt_ordering_key options = Some key\<close> obtain n where
          kn: "key_count = Some (key, n)" and n: "checked_add c 1 = Some n"
          by (auto simp: next_key_refcount_def split: option.splits)
        from r Some have "unat c = key_uses s key"
          unfolding counts_ok_def by blast
        with checked_add_one [OF n] have "unat n = key_uses s key + 1" by simp
        from counts_ok_update [OF r this] have
          "counts_ok (AList.update key n (ls_ordering_key_refcounts s)) ((key_uses s)(key := key_uses s key + 1))"
          by simp
        moreover have "key_uses s' = (key_uses s)(key := key_uses s key + 1)"
          using uses \<open>opt_ordering_key options = Some key\<close> by (auto simp: fun_eq_iff)
        ultimately show ?thesis using kn len length_update_present [OF Some] by (simp add: refcounts_ok_counts s')
      qed
    qed
    with k fresh show ?thesis by (auto simp: key_inv_def s')
  qed
  moreover have "waiter_inv p s'" using w by (simp add: waiter_inv_def s')
  ultimately show ?thesis by (simp add: state_inv_def)
qed

section \<open>Dispatching\<close>

definition dispatched_state :: "execution_id \<Rightarrow> queue_entry \<Rightarrow> lane_state \<Rightarrow> lane_state" where
  "dispatched_state i e s =
     (case opt_ordering_key (qe_options e) of
        None \<Rightarrow> s
      | Some key \<Rightarrow> s\<lparr>ls_active_ordering_keys := List.insert key (ls_active_ordering_keys s),
                     ls_running_ordering_keys := AList.update i key (ls_running_ordering_keys s)\<rparr>)
     \<lparr>ls_queue := removeAll i (ls_queue s), ls_entries := AList.delete i (ls_entries s),
      ls_running := ls_running s + 1, ls_dispatch_count := ls_dispatch_count s + 1\<rparr>"

text \<open>What a dispatch selects: on every eighth the oldest ready entry, otherwise by priority and age.\<close>

definition selected :: "lane_state \<Rightarrow> queue_entry \<Rightarrow> bool" where
  "selected s e \<longleftrightarrow>
     (\<forall>(j, f) \<in> set (ls_entries s). \<not> blocked s f \<longrightarrow>
        (if ls_dispatch_count s mod 8 = 7 then qe_sequence e \<le> qe_sequence f
         else opt_priority (qe_options f) < opt_priority (qe_options e)
              \<or> opt_priority (qe_options f) = opt_priority (qe_options e) \<and> qe_sequence e \<le> qe_sequence f))"

lemma wrap_add_one:
  fixes c :: "'a::len word"
  shows "(case checked_add c 1 of None \<Rightarrow> 0 | Some n \<Rightarrow> n) = c + 1"
proof (cases "checked_add c 1")
  case None
  then have le: "2 ^ LENGTH('a) \<le> unat c + unat (1 :: 'a word)" by (simp add: checked_add_None)
  have "unat (1 :: 'a word) \<le> 1" by (cases "LENGTH('a) = 1") auto
  with le unsigned_less [of c, where 'a = nat] have "unat c + 1 = 2 ^ LENGTH('a)" by linarith
  then have "of_nat (unat c + 1) = (0 :: 'a word)" by (metis of_nat_power of_nat_numeral word_exp_length_eq_0 of_nat_2p)
  with None show ?thesis by (simp add: add.commute)
qed (simp add: checked_add_def split: if_splits)

text \<open>One iteration, under the invariant: the code's internal-error branches are never taken.\<close>

lemma dispatch_once_spec:
  assumes q: "queue_inv p ms s"
  shows "(dispatch_once p s = DispatchBreak s
          \<and> (ls_running s = cfg_concurrency (lp_config p) \<or> (\<forall>(j, f) \<in> set (ls_entries s). blocked s f)))
    \<or> (\<exists>i e. dispatch_once p s = Dispatched i (dispatched_state i e s)
          \<and> ls_running s < cfg_concurrency (lp_config p)
          \<and> i \<in> set (ls_queue s) \<and> map_of (ls_entries s) i = Some e \<and> \<not> blocked s e \<and> selected s e)"
proof (cases "ls_running s < cfg_concurrency (lp_config p)")
  case False
  with q have "ls_running s = cfg_concurrency (lp_config p)" by (simp add: queue_inv_def)
  with False show ?thesis by (simp add: dispatch_once_def)
next
  case room: True
  have ready: "\<exists>c \<in> set (candidates s). rc_priority c = opt_priority (qe_options f) \<and> rc_sequence c = qe_sequence f"
    if f: "(j, f) \<in> set (ls_entries s)" "\<not> blocked s f" for j f
  proof -
    from f(1) q have "map_of (ls_entries s) j = Some f" by (simp add: queue_inv_def mem_map_of)
    moreover from f(1) q have "j \<in> set (ls_queue s)" by (force simp: queue_inv_def)
    then obtain n where "n < length (ls_queue s)" "ls_queue s ! n = j" by (auto simp: in_set_conv_nth)
    ultimately show ?thesis using f(2) by (force simp: in_candidates)
  qed
  show ?thesis
  proof (cases "select_ready_candidate (ls_dispatch_count s) (candidates s)")
    case None
    then have "candidates s = []" by (simp add: select_ready_candidate_def select_loop_None)
    with ready have "\<forall>(j, f) \<in> set (ls_entries s). blocked s f" by fastforce
    with None room show ?thesis by (simp add: dispatch_once_def)
  next
    case (Some c)
    from select_loop_best [OF Some [unfolded select_ready_candidate_def]]
    have c: "c \<in> set (candidates s)"
      and best: "\<forall>d \<in> set (candidates s). \<not> replaces (ls_dispatch_count s mod 8 = 7) d c" by auto
    from c obtain n e where n: "n < length (ls_queue s)" and e: "map_of (ls_entries s) (ls_queue s ! n) = Some e"
      and ready_e: "\<not> blocked s e"
      and cdef: "c = \<lparr>rc_queue_index = n, rc_execution_id = ls_queue s ! n,
          rc_priority = opt_priority (qe_options e), rc_sequence = qe_sequence e\<rparr>"
      by (auto simp: in_candidates)
    let ?i = "ls_queue s ! n"
    have vr: "vec_remove n (ls_queue s) = (Some ?i, removeAll ?i (ls_queue s))"
      using q n by (simp add: vec_remove_distinct queue_inv_def)
    have "dispatch_once p s = Dispatched ?i (dispatched_state ?i e s)"
      using room Some e vr unat_plus_one(2) [OF room]
      by (simp add: dispatch_once_def dispatch_selected_def cdef Let_def wrap_add_one dispatched_state_def
          split: option.split)
    moreover have "selected s e"
      unfolding selected_def
    proof (intro ballI, clarify)
      fix j f assume f: "(j, f) \<in> set (ls_entries s)" "\<not> blocked s f"
      from ready [OF this] obtain d where d: "d \<in> set (candidates s)" "rc_priority d = opt_priority (qe_options f)"
        "rc_sequence d = qe_sequence f" by blast
      from best d(1) have "\<not> replaces (ls_dispatch_count s mod 8 = 7) d c" by blast
      with d(2,3) show "if ls_dispatch_count s mod 8 = 7 then qe_sequence e \<le> qe_sequence f
         else opt_priority (qe_options f) < opt_priority (qe_options e)
              \<or> opt_priority (qe_options f) = opt_priority (qe_options e) \<and> qe_sequence e \<le> qe_sequence f"
        by (auto simp: replaces_def cdef not_less split: if_splits)
    qed
    ultimately show ?thesis using room n e ready_e by auto
  qed
qed

lemma dispatched_fields:
  "ls_queue (dispatched_state i e s) = removeAll i (ls_queue s)"
  "ls_entries (dispatched_state i e s) = AList.delete i (ls_entries s)"
  "ls_active (dispatched_state i e s) = ls_active s"
  "ls_running (dispatched_state i e s) = ls_running s + 1"
  "ls_closing (dispatched_state i e s) = ls_closing s"
  "ls_runtime_unavailable (dispatched_state i e s) = ls_runtime_unavailable s"
  "ls_next_sequence (dispatched_state i e s) = ls_next_sequence s"
  "ls_waiting_queue (dispatched_state i e s) = ls_waiting_queue s"
  "ls_waiting_producers (dispatched_state i e s) = ls_waiting_producers s"
  "ls_next_waiter_sequence (dispatched_state i e s) = ls_next_waiter_sequence s"
  "ls_dispatch_count (dispatched_state i e s) = ls_dispatch_count s + 1"
  "ls_ordering_key_refcounts (dispatched_state i e s) = ls_ordering_key_refcounts s"
  by (simp_all add: dispatched_state_def split: option.split)

lemma dispatched_inv:
  assumes inv: "state_inv p ms s" and room: "ls_running s < cfg_concurrency (lp_config p)"
    and iq: "i \<in> set (ls_queue s)" and e: "map_of (ls_entries s) i = Some e" and ready: "\<not> blocked s e"
  shows "state_inv p (ms @ [i]) (dispatched_state i e s)"
proof -
  let ?s = "dispatched_state i e s"
  from inv have q: "queue_inv p ms s" and sq: "sequence_inv s" and k: "key_inv p s" and w: "waiter_inv p s"
    by (simp_all add: state_inv_def)
  from iq q have avail: "\<not> ls_runtime_unavailable s" by (auto simp: queue_inv_def split: if_splits)
  have lq: "length (ls_queue s) = Suc (length (removeAll i (ls_queue s)))"
    by (rule length_removeAll_distinct [OF _ iq]) (use q in \<open>simp add: queue_inv_def\<close>)
  have "ls_running s + 1 \<le> cfg_concurrency (lp_config p)"
    using room by (simp add: word_le_nat_alt unat_plus_one(1) [OF room] word_less_nat_alt)
  then have "queue_inv p (ms @ [i]) ?s"
    using q lq avail iq unat_plus_one(1) [OF room] length_delete_le [of i "ls_entries s"]
    by (auto simp: queue_inv_def dispatched_fields distinct_delete set_delete distinct_removeAll)
  moreover have "sequence_inv ?s" by (rule sequence_inv_removed [OF sq]) (simp_all add: dispatched_fields)
  moreover have "waiter_inv p ?s" using w by (simp add: waiter_inv_def dispatched_fields)
  moreover have "key_inv p ?s"
  proof -
    have ir: "i \<notin> set (keys (ls_running_ordering_keys s))" using k iq by (auto simp: key_inv_def)
    have "key_uses ?s key = key_uses s key" for key
    proof -
      have "length (filter (\<lambda>x. opt_ordering_key (qe_options (snd x)) = Some key) (ls_entries s))
        = length (filter (\<lambda>x. opt_ordering_key (qe_options (snd x)) = Some key) (AList.delete i (ls_entries s)))
          + (if opt_ordering_key (qe_options e) = Some key then 1 else 0)"
        using length_filter_delete [OF _ e, of "\<lambda>x. opt_ordering_key (qe_options (snd x)) = Some key"] q
        by (simp add: queue_inv_def)
      with ir show ?thesis
        by (auto simp: key_uses_def dispatched_fields)
           (auto simp: dispatched_state_def keys_update_new split: option.split)
    qed
    then have "refcounts_ok ?s"
      using k by (auto simp: key_inv_def refcounts_ok_counts dispatched_fields intro: counts_ok_cong)
    moreover have "distinct (keys (ls_running_ordering_keys ?s))
      \<and> set (keys (ls_running_ordering_keys ?s)) \<subseteq> set (ls_active ?s) - set (ls_queue ?s)
      \<and> distinct (map snd (ls_running_ordering_keys ?s))
      \<and> set (ls_active_ordering_keys ?s) = snd ` set (ls_running_ordering_keys ?s)"
    proof (cases "opt_ordering_key (qe_options e)")
      case None
      with k show ?thesis by (auto simp: key_inv_def dispatched_state_def)
    next
      case (Some key)
      then have "key \<notin> set (ls_active_ordering_keys s)" using ready by (simp add: blocked_def)
      with Some k ir iq q avail show ?thesis
        by (auto simp: key_inv_def dispatched_state_def keys_update_new queue_inv_def)
    qed
    ultimately show ?thesis using k by (simp add: key_inv_def dispatched_fields)
  qed
  ultimately show ?thesis by (simp add: state_inv_def)
qed

text \<open>The whole loop, by induction over its iterations.\<close>

lemma dispatch_loop_induct [consumes 2, case_names stop start]:
  assumes "state_inv p ms s" and "dispatch_loop p s = (starts, s')"
    and stop: "\<And>s ms. state_inv p ms s \<Longrightarrow> dispatch_once p s = DispatchBreak s \<Longrightarrow>
        ls_running s = cfg_concurrency (lp_config p) \<or> (\<forall>(j, f) \<in> set (ls_entries s). blocked s f) \<Longrightarrow>
        R ms s [] s"
    and start: "\<And>i e s ms starts s'. state_inv p ms s \<Longrightarrow> ls_running s < cfg_concurrency (lp_config p) \<Longrightarrow>
        i \<in> set (ls_queue s) \<Longrightarrow> map_of (ls_entries s) i = Some e \<Longrightarrow> \<not> blocked s e \<Longrightarrow> selected s e \<Longrightarrow>
        state_inv p (ms @ [i]) (dispatched_state i e s) \<Longrightarrow>
        dispatch_loop p (dispatched_state i e s) = (starts, s') \<Longrightarrow>
        R (ms @ [i]) (dispatched_state i e s) starts s' \<Longrightarrow> R ms s (i # starts) s'"
  shows "R ms s starts s'"
  using assms(1,2)
proof (induction "length (ls_queue s)" arbitrary: s ms starts rule: less_induct)
  case less
  from less.prems(1) have q: "queue_inv p ms s" by (simp add: state_inv_def)
  consider (brk) "dispatch_once p s = DispatchBreak s"
        "ls_running s = cfg_concurrency (lp_config p) \<or> (\<forall>(j, f) \<in> set (ls_entries s). blocked s f)"
    | (disp) i e where "dispatch_once p s = Dispatched i (dispatched_state i e s)"
        "ls_running s < cfg_concurrency (lp_config p)" "i \<in> set (ls_queue s)"
        "map_of (ls_entries s) i = Some e" "\<not> blocked s e" "selected s e"
    using dispatch_once_spec [OF q] by blast
  then show ?case
  proof cases
    case brk
    with less.prems stop [OF less.prems(1)] show ?thesis by (simp add: dispatch_loop.simps [of p s])
  next
    case (disp i e)
    note d = disp(1) and * = disp(2-5) and sel = disp(6)
    obtain starts' where loop: "dispatch_loop p (dispatched_state i e s) = (starts', s')"
      and starts: "starts = i # starts'"
      using less.prems(2) d by (auto simp: dispatch_loop.simps [of p s] split: prod.splits)
    note inv' = dispatched_inv [OF less.prems(1) *]
    from less.hyps [OF dispatch_once_length [OF d] inv' loop] start [OF less.prems(1) * sel inv' loop] starts
    show ?thesis by blast
  qed
qed

lemma dispatch_loop_inv:
  assumes "state_inv p ms s" and "dispatch_loop p s = (starts, s')"
  shows "state_inv p (ms @ starts) s'"
  using assms by (induction rule: dispatch_loop_induct) simp_all

lemma take_startable_inv:
  assumes "state_inv p ms s" and "take_startable p s = (starts, should_exit, s', signals)"
  shows "state_inv p (ms @ starts) s'"
proof -
  obtain s1 where l: "dispatch_loop p s = (starts, s1)"
    using assms(2) by (auto simp: take_startable_def Let_def split: prod.splits if_splits)
  have "s' = s1 \<or> s' = notify_waiting_head s1"
    using assms(2) l by (auto simp: take_startable_def Let_def split: if_splits)
  with dispatch_loop_inv [OF assms(1) l] state_inv_permits [OF _ same_but_permits_ops(1)] show ?thesis by blast
qed

section \<open>Completion, closing and stopping\<close>

lemma execution_finished_inv:
  assumes inv: "state_inv p ms s" and im: "i \<in> set ms" and step: "execution_finished i s = (s', signals)"
  shows "state_inv p (removeAll i ms) s'"
proof -
  from inv have q: "queue_inv p ms s" and sq: "sequence_inv s" and k: "key_inv p s" and w: "waiter_inv p s"
    by (simp_all add: state_inv_def)
  have iq: "i \<notin> set (ls_queue s)" using q im by (auto simp: queue_inv_def)
  show ?thesis
  proof (cases "ls_runtime_unavailable s")
    case True
    with q have empty: "ls_active s = []" by (simp add: queue_inv_def)
    with k have "ls_running_ordering_keys s = []" by (simp add: key_inv_def)
    with empty step have "s' = s" by (simp add: execution_finished_def Let_def)
    with inv q True show ?thesis by (auto simp: state_inv_def queue_inv_def distinct_removeAll)
  next
    case False
    with q im have ia: "i \<in> set (ls_active s)" by (auto simp: queue_inv_def)
    have la: "length (ls_active s) = Suc (length (removeAll i (ls_active s)))"
      by (rule length_removeAll_distinct [OF _ ia]) (use q in \<open>simp add: queue_inv_def\<close>)
    have "length (ls_queue s) < length (ls_active s)"
    proof -
      have "set (ls_queue s) \<subset> set (ls_active s)" using q False ia iq by (auto simp: queue_inv_def)
      then have "card (set (ls_queue s)) < card (set (ls_active s))" by (intro psubset_card_mono) auto
      moreover have "distinct (ls_queue s)" "distinct (ls_active s)" using q by (simp_all add: queue_inv_def)
      ultimately show ?thesis by (simp only: distinct_card)
    qed
    with q have pos: "0 < unat (ls_running s)" by (simp add: queue_inv_def)
    then obtain n where n: "checked_sub (ls_running s) 1 = Some n"
      by (cases "checked_sub (ls_running s) 1") (auto simp: checked_sub_None)
    then have un: "unat n = unat (ls_running s) - 1" by (simp add: unat_checked_sub)
    define s1 where "s1 = s\<lparr>ls_active := removeAll i (ls_active s), ls_running := n\<rparr>"
    have s1: "(if i \<in> set (ls_active s)
                then s\<lparr>ls_active := removeAll i (ls_active s),
                       ls_running := (case checked_sub (ls_running s) 1 of Some next \<Rightarrow> next | None \<Rightarrow> ls_running s)\<rparr>
                else s) = s1"
      using ia n by (simp add: s1_def)
    define s2 where "s2 key = s1\<lparr>ls_running_ordering_keys := AList.delete i (ls_running_ordering_keys s),
        ls_active_ordering_keys := removeAll key (ls_active_ordering_keys s)\<rparr>" for key
    have s': "s' = (case map_of (ls_running_ordering_keys s) i of None \<Rightarrow> s1
        | Some key \<Rightarrow> decrement_ordering_key_refcount key (s2 key))"
      using step unfolding execution_finished_def s1 Let_def
      by (auto simp: s2_def s1_def split: option.splits)
    have fields: "ls_queue s' = ls_queue s" "ls_entries s' = ls_entries s"
      "ls_active s' = removeAll i (ls_active s)" "ls_running s' = n" "ls_closing s' = ls_closing s"
      "ls_runtime_unavailable s' = ls_runtime_unavailable s"
      "ls_waiting_producers s' = ls_waiting_producers s" "ls_waiting_queue s' = ls_waiting_queue s"
      "ls_next_waiter_sequence s' = ls_next_waiter_sequence s" "ls_next_sequence s' = ls_next_sequence s"
      by (simp_all add: s' s2_def s1_def split: option.splits)
    have "n \<le> cfg_concurrency (lp_config p)" using q un by (auto simp: queue_inv_def word_le_nat_alt)
    then have "queue_inv p (removeAll i ms) s'"
      using q la un pos False iq by (auto simp: queue_inv_def fields distinct_removeAll)
    moreover have "sequence_inv s'"
      using sq by (simp add: sequence_inv_def fields entry_sequence_def)
    moreover have "waiter_inv p s'" using w by (simp add: waiter_inv_def fields)
    moreover have "key_inv p s'"
    proof (cases "map_of (ls_running_ordering_keys s) i")
      case None
      then have "i \<notin> set (keys (ls_running_ordering_keys s))" by (simp add: map_of_notin_keys)
      moreover have "key_uses s' = key_uses s" using None by (simp add: fun_eq_iff key_uses_def s' s1_def)
      ultimately show ?thesis using k None by (auto simp: key_inv_def refcounts_ok_def s' s1_def)
    next
      case (Some key)
      from k have dk: "distinct (keys (ls_running_ordering_keys s))" by (simp add: key_inv_def)
      have uses: "key_uses s' x = (if x = key then key_uses s key - 1 else key_uses s x)" for x
        using length_filter_delete [OF dk Some, of "\<lambda>r. snd r = x"] Some
        by (auto simp: key_uses_def s' s2_def s1_def)
      have ne: "key_uses s key \<noteq> 0"
        using length_filter_delete [OF dk Some, of "\<lambda>r. snd r = key"] by (simp add: key_uses_def)
      have "key_uses s' = (key_uses s)(key := key_uses s key - 1)" using uses by (simp add: fun_eq_iff)
      moreover have "counts_ok (ls_ordering_key_refcounts (s2 key)) (key_uses s)"
        using k by (simp add: key_inv_def refcounts_ok_counts s2_def s1_def)
      note decrement_counts [OF this ne]
      ultimately have "refcounts_ok s'"
        and "length (ls_ordering_key_refcounts s') \<le> length (ls_ordering_key_refcounts s)"
        using Some by (simp_all add: refcounts_ok_counts s' s2_def s1_def)
      note refs = this
      have rest: "snd ` {r \<in> set (ls_running_ordering_keys s). fst r \<noteq> i}
          = snd ` set (ls_running_ordering_keys s) - {key}"
      proof -
        have mem: "(i, key) \<in> set (ls_running_ordering_keys s)" using Some by (rule map_of_SomeD)
        have "fst r \<noteq> i \<longleftrightarrow> r \<noteq> (i, key)" if "r \<in> set (ls_running_ordering_keys s)" for r
          using that Some dk mem_map_of by (metis fst_conv option.inject prod.collapse)
        then have "{r \<in> set (ls_running_ordering_keys s). fst r \<noteq> i}
            = set (ls_running_ordering_keys s) - {(i, key)}"
          by (intro set_eqI) (simp cong: conj_cong)
        moreover have "inj_on snd (set (ls_running_ordering_keys s))"
          using k by (simp add: key_inv_def distinct_map)
        ultimately show ?thesis
          using inj_on_image_set_diff [of snd _ "set (ls_running_ordering_keys s)" "{(i, key)}"] mem by auto
      qed
      have rk: "ls_running_ordering_keys s' = AList.delete i (ls_running_ordering_keys s)"
        and ak: "ls_active_ordering_keys s' = removeAll key (ls_active_ordering_keys s)"
        using Some by (simp_all add: s' s2_def s1_def)
      have "distinct (keys (ls_running_ordering_keys s'))" unfolding rk by (rule distinct_delete [OF dk])
      moreover have "set (keys (ls_running_ordering_keys s')) \<subseteq> set (ls_active s') - set (ls_queue s')"
        using k unfolding rk fields set_keys_delete by (auto simp: key_inv_def)
      moreover have "distinct (map snd (ls_running_ordering_keys s'))"
        unfolding rk using k by (simp add: key_inv_def AList.delete_eq distinct_map_filter)
      moreover have "set (ls_active_ordering_keys s') = snd ` set (ls_running_ordering_keys s')"
        unfolding rk ak set_delete rest using k by (simp add: key_inv_def)
      moreover have "length (ls_ordering_key_refcounts s) \<le> unat (lp_max_ordering_keys p)"
        using k by (simp add: key_inv_def)
      ultimately show ?thesis using refs by (simp add: key_inv_def)
    qed
    ultimately show ?thesis by (simp add: state_inv_def)
  qed
qed

lemma state_inv_closing:
  assumes "state_inv p ms s"
  shows "state_inv p ms (s\<lparr>ls_closing := True\<rparr>)"
proof -
  have "entry_sequence (s\<lparr>ls_closing := True\<rparr>) = entry_sequence s" "key_uses (s\<lparr>ls_closing := True\<rparr>) = key_uses s"
    by (simp_all add: fun_eq_iff entry_sequence_def key_uses_def)
  note same = this
  from assms have "queue_inv p ms s" "sequence_inv s" "key_inv p s" "waiter_inv p s"
    by (simp_all add: state_inv_def)
  then have "queue_inv p ms (s\<lparr>ls_closing := True\<rparr>)" "sequence_inv (s\<lparr>ls_closing := True\<rparr>)"
    "key_inv p (s\<lparr>ls_closing := True\<rparr>)" "waiter_inv p (s\<lparr>ls_closing := True\<rparr>)"
    by (auto simp: queue_inv_def, simp_all add: sequence_inv_def key_inv_def refcounts_ok_def waiter_inv_def same)
  then show ?thesis by (simp add: state_inv_def)
qed

lemma lane_request_close_inv:
  assumes "state_inv p ms s" and "lane_request_close s = (controls, s', signals)"
  shows "state_inv p ms s'"
  using assms(2) state_inv_permits [OF state_inv_closing [OF assms(1)] same_but_permits_ops(2)]
  by (auto simp: lane_request_close_def Let_def)

lemma dispatcher_stopped_inv:
  assumes "state_inv p ms s" and "dispatcher_stopped s = (s', signals)"
  shows "state_inv p ms s'"
proof -
  let ?s = "s\<lparr>ls_closing := True, ls_runtime_unavailable := True, ls_queue := [], ls_entries := [],
      ls_active := [], ls_running := 0, ls_active_ordering_keys := [],
      ls_running_ordering_keys := [], ls_ordering_key_refcounts := []\<rparr>"
  have "state_inv p ms ?s"
    using assms(1)
    by (simp add: state_inv_def queue_inv_def sequence_inv_def key_inv_def waiter_inv_def refcounts_ok_def key_uses_def)
  moreover have "s' = notify_all_waiting_producers ?s"
    using assms(2) by (auto simp: dispatcher_stopped_def Let_def)
  ultimately show ?thesis using state_inv_permits same_but_permits_ops(2) by blast
qed

section \<open>Waiting producers\<close>

lemma state_inv_waiters:
  assumes "state_inv p ms s" and "waiter_inv p s'"
    and "s' = s\<lparr>ls_waiting_producers := ls_waiting_producers s', ls_waiting_queue := ls_waiting_queue s',
               ls_next_waiter_sequence := ls_next_waiter_sequence s'\<rparr>"
  shows "state_inv p ms s'"
proof -
  have "queue_inv p ms s'" "sequence_inv s'" "key_inv p s'"
    using assms(1) by (subst assms(3), simp add: state_inv_def queue_inv_def sequence_inv_def key_inv_def
      refcounts_ok_def entry_sequence_def key_uses_def)+
  with assms(2) show ?thesis by (simp add: state_inv_def)
qed

lemma waiter_new_inv:
  assumes inv: "state_inv p ms s" and step: "waiter_new p s = (res, s')"
  shows "state_inv p ms s'"
proof -
  from inv have w: "waiter_inv p s" by (simp add: state_inv_def)
  show ?thesis
  proof (cases "ls_waiting_producers s < lp_max_waiting_producers p")
    case False
    with step inv show ?thesis by (simp add: waiter_new_def not_less)
  next
    case room: True
    note count = unat_plus_one [OF room]
    show ?thesis
    proof (cases "checked_add (ls_next_waiter_sequence s) 1")
      case None
      with step inv show ?thesis by (auto simp: waiter_new_def Let_def split: if_splits)
    next
      case (Some n)
      from checked_add_one [OF Some] have n: "unat n = unat (ls_next_waiter_sequence s) + 1" .
      have below: "\<forall>t \<in> set (keys (ls_waiting_queue s)). t < ls_next_waiter_sequence s"
        using w by (simp add: waiter_inv_def)
      have wq: "btree_insert (ls_next_waiter_sequence s) False (ls_waiting_queue s)
          = ls_waiting_queue s @ [(ls_next_waiter_sequence s, False)]"
        using below by (rule btree_insert_last)
      have s': "s' = s\<lparr>ls_next_waiter_sequence := n, ls_waiting_producers := ls_waiting_producers s + 1,
          ls_waiting_queue := ls_waiting_queue s @ [(ls_next_waiter_sequence s, False)]\<rparr>"
        using step room Some count(2) wq by (auto simp: waiter_new_def not_le [symmetric] Let_def)
      have "ls_waiting_producers s + 1 \<le> lp_max_waiting_producers p"
        using room by (simp add: word_le_nat_alt count(1) word_less_nat_alt)
      moreover have "ls_next_waiter_sequence s < n" using n by (simp add: word_less_nat_alt)
      ultimately have "waiter_inv p s'"
        using w below count(1) n by (auto simp: waiter_inv_def s' sorted_wrt_append)
      from state_inv_waiters [OF inv this] show ?thesis by (simp add: s')
    qed
  qed
qed

lemma waiter_finish_locked_inv:
  assumes inv: "state_inv p ms s" and step: "waiter_finish_locked p t s = (sig, obs, s')"
  shows "state_inv p ms s'"
proof -
  from inv have w: "waiter_inv p s" by (simp add: state_inv_def)
  then have dk: "distinct (keys (ls_waiting_queue s))"
    unfolding waiter_inv_def using sorted_keys_distinct by blast
  have "waiter_inv p s'"
  proof (cases "map_of (ls_waiting_queue s) t")
    case None
    then have "t \<notin> set (keys (ls_waiting_queue s))" by (simp add: map_of_notin_keys)
    with None step w show ?thesis by (auto simp: waiter_finish_locked_def Let_def waiter_inv_def delete_notin)
  next
    case (Some permit)
    then have mem: "t \<in> set (keys (ls_waiting_queue s))" by (rule map_of_in_keys)
    then have pos: "0 < length (ls_waiting_queue s)" by auto
    with w have "checked_sub (ls_waiting_producers s) 1 \<noteq> None"
      by (simp add: checked_sub_None waiter_inv_def Suc_le_eq)
    then obtain n where n: "checked_sub (ls_waiting_producers s) 1 = Some n" by blast
    then have un: "unat n = unat (ls_waiting_producers s) - 1" by (simp add: unat_checked_sub)
    have s': "s' = s\<lparr>ls_waiting_queue := AList.delete t (ls_waiting_queue s), ls_waiting_producers := n\<rparr>"
      using step Some n by (auto simp: waiter_finish_locked_def Let_def)
    have "n \<le> lp_max_waiting_producers p" using w un by (auto simp: waiter_inv_def word_le_nat_alt)
    with w un length_delete [OF dk mem] sorted_keys_delete [of "ls_waiting_queue s" t] show ?thesis
      by (auto simp: waiter_inv_def s' set_delete)
  qed
  with state_inv_waiters [OF inv this] step show ?thesis
    by (auto simp: waiter_finish_locked_def Let_def)
qed

lemma waiter_finish_inv:
  assumes "state_inv p ms s" and "waiter_finish p t s = (s', signals)"
  shows "state_inv p ms s'"
proof -
  obtain sig obs s1 where l: "waiter_finish_locked p t s = (sig, obs, s1)"
    by (cases "waiter_finish_locked p t s") auto
  with assms(2) have "s' = s1 \<or> (\<exists>t. s' = notify_waiting_producer t s1)"
    by (auto simp: waiter_finish_def split: option.splits)
  with waiter_finish_locked_inv [OF assms(1) l] state_inv_permits [OF _ same_but_permits_notify] show ?thesis
    by blast
qed

section \<open>The invariant holds\<close>

lemma lane_inv_init: "lane_init y \<Longrightarrow> lane_inv p y"
  by (simp add: lane_init_def lane_inv_def state_inv_def lane_state_new_def queue_inv_def sequence_inv_def
      key_inv_def waiter_inv_def refcounts_ok_def key_uses_def)

lemma insert_locked_error: "insert_locked p i options ticket s = (Inl error, s') \<Longrightarrow> s' = s"
  by (auto simp: insert_locked_def split: if_splits sum.splits option.splits)

lemma lane_inv_step:
  assumes "lane_inv p y" and "lane_step p y y'"
  shows "lane_inv p y'"
  using assms(2,1) unfolding lane_inv_def
proof cases
  case (lane_insert i options ticket res s)
  then show "state_inv p (sys_monitors y) (sys_lane y) \<Longrightarrow> state_inv p (sys_monitors y') (sys_lane y')"
    using insert_locked_inv [of p "sys_monitors y" "sys_lane y" i options ticket]
    by (cases res) (auto dest: insert_locked_error)
qed (auto intro: remove_queued_inv take_startable_inv execution_finished_inv lane_request_close_inv
      dispatcher_stopped_inv waiter_new_inv waiter_finish_inv state_inv_permits [OF _ same_but_permits_ops(3)])

interpretation lane_system: invariant_system lane_init "lane_step p" "lane_inv p"
  by unfold_locales (auto intro: lane_inv_init lane_inv_step)

end
