(* ===== verification/BB_Lane_Fair.thy ===== *)
theory BB_Lane_Fair
  imports BB_Lane_Inv
begin

text \<open>
  Fairness of the lane's dispatcher: a rank of a ready entry that every dispatch of another entry
  decreases and no other operation increases.  It bounds the number of executions that can be
  started before an entry that stays ready, whatever higher-priority work keeps arriving.
\<close>

section \<open>The rank\<close>

definition ready :: "execution_id \<Rightarrow> lane_state \<Rightarrow> bool" where
  "ready i s \<longleftrightarrow> (case map_of (ls_entries s) i of None \<Rightarrow> False | Some e \<Rightarrow> \<not> blocked s e)"

definition older :: "lane_state \<Rightarrow> execution_id \<Rightarrow> nat" where
  "older s i = length (filter (\<lambda>j. entry_sequence s j < entry_sequence s i) (ls_queue s))"

definition rank :: "lane_state \<Rightarrow> execution_id \<Rightarrow> nat" where
  "rank s i = 8 * older s i + (7 - unat (ls_dispatch_count s) mod 8)"

lemma ready_entry: "ready i s \<longleftrightarrow> (\<exists>e. map_of (ls_entries s) i = Some e \<and> \<not> blocked s e)"
  by (auto simp: ready_def split: option.splits)

lemma ready_queued: "queue_inv p ms s \<Longrightarrow> ready i s \<Longrightarrow> i \<in> set (ls_queue s)"
  unfolding ready_entry queue_inv_def by (metis map_of_in_keys)

lemma count_mod_succ:
  fixes c :: u64
  shows "unat (c + 1) mod 8 = (unat c + 1) mod 8"
proof -
  have "unat (c + 1) = (unat c + 1) mod 2 ^ 64"
    by (simp add: unat_word_ariths)
  moreover have "(unat c + 1) mod 2 ^ 64 mod 8 = (unat c + 1) mod 8"
    by (rule mod_mod_cancel) simp
  ultimately show ?thesis by simp
qed

lemma every_eighth: "(c :: u64) mod 8 = 7 \<longleftrightarrow> unat c mod 8 = 7"
  by (simp add: word_unat_eq_iff unat_mod)

text \<open>A dispatch of another entry, while the entry is and stays ready, lowers its rank.\<close>

lemma length_filter_removeAll:
  "distinct xs \<Longrightarrow> j \<in> set xs \<Longrightarrow>
     length (filter P xs) = length (filter P (removeAll j xs)) + (if P j then 1 else 0)"
proof -
  assume "distinct xs" "j \<in> set xs"
  have swap: "filter P (removeAll j xs) = removeAll j (filter P xs)"
    by (simp flip: removeAll_filter_eq add: conj_commute)
  show ?thesis
  proof (cases "P j")
    case True
    with \<open>distinct xs\<close> \<open>j \<in> set xs\<close> length_removeAll_distinct [of "filter P xs" j] swap show ?thesis by simp
  next
    case False
    then have "j \<notin> set (filter P xs)" by simp
    then have "removeAll j (filter P xs) = filter P xs" by (rule removeAll_id)
    with swap False show ?thesis by simp
  qed
qed

lemma length_filter_conj_le: "length (filter (\<lambda>x. Q x \<and> P x) xs) \<le> length (filter P xs)"
  by (induction xs) auto

lemma dispatched_ready:
  assumes "state_inv p ms s" and "map_of (ls_entries s) j = Some e" and "ready i (dispatched_state j e s)"
  shows "ready i s \<and> i \<noteq> j"
proof -
  from assms(1) have "distinct (keys (ls_entries s))" by (simp add: state_inv_def queue_inv_def)
  from assms(3) obtain f where f: "map_of (ls_entries (dispatched_state j e s)) i = Some f"
    and nb: "\<not> blocked (dispatched_state j e s) f" by (auto simp: ready_entry)
  from f have ij: "i \<noteq> j" and "map_of (ls_entries s) i = Some f"
    by (auto simp: dispatched_fields map_of_delete split: if_splits)
  moreover have "set (ls_active_ordering_keys s) \<subseteq> set (ls_active_ordering_keys (dispatched_state j e s))"
    by (auto simp: dispatched_state_def split: option.splits)
  with nb have "\<not> blocked s f" by (auto simp: blocked_def split: option.splits)
  ultimately show ?thesis by (simp add: ready_entry)
qed

lemma dispatched_rank:
  assumes inv: "state_inv p ms s" and jq: "j \<in> set (ls_queue s)" and e: "map_of (ls_entries s) j = Some e"
    and sel: "selected s e" and rd: "ready i (dispatched_state j e s)"
  shows "rank (dispatched_state j e s) i + 1 \<le> rank s i"
proof -
  let ?s = "dispatched_state j e s"
  from inv have q: "queue_inv p ms s" and sq: "sequence_inv s" by (simp_all add: state_inv_def)
  from dispatched_ready [OF inv e rd] have ri: "ready i s" and ij: "i \<noteq> j" by simp_all
  from ri obtain f where f: "map_of (ls_entries s) i = Some f" "\<not> blocked s f" by (auto simp: ready_entry)
  have seqs: "entry_sequence ?s k = entry_sequence s k" if "k \<noteq> j" for k
    using that by (simp add: entry_sequence_def dispatched_fields map_of_delete)
  have "older ?s i = length (filter (\<lambda>k. entry_sequence ?s k < entry_sequence ?s i) (removeAll j (ls_queue s)))"
    by (simp add: older_def dispatched_fields)
  also have "\<dots> = length (filter (\<lambda>k. entry_sequence s k < entry_sequence s i) (removeAll j (ls_queue s)))"
    by (rule arg_cong [where f = length], rule filter_cong) (auto simp: seqs ij)
  finally have old: "older s i = older ?s i + (if entry_sequence s j < entry_sequence s i then 1 else 0)"
    using length_filter_removeAll [OF _ jq] q by (simp add: older_def queue_inv_def)
  have count: "unat (ls_dispatch_count ?s) mod 8 = (unat (ls_dispatch_count s) + 1) mod 8"
    by (simp add: dispatched_fields count_mod_succ)
  show ?thesis
  proof (cases "unat (ls_dispatch_count s) mod 8 = 7")
    case True
    then have "ls_dispatch_count s mod 8 = 7" by (simp add: every_eighth)
    moreover have "(i, f) \<in> set (ls_entries s)" using f(1) by (rule map_of_SomeD)
    ultimately have "qe_sequence e \<le> qe_sequence f" using sel f(2) by (auto simp: selected_def)
    then have le: "entry_sequence s j \<le> entry_sequence s i"
      using e f(1) by (simp add: entry_sequence_def word_le_nat_alt)
    have "entry_sequence s j \<noteq> entry_sequence s i"
    proof -
      have "distinct (map (entry_sequence s) (ls_queue s))"
        using sq by (simp add: sequence_inv_def strict_sorted_iff sorted_wrt_map [symmetric])
      then have "inj_on (entry_sequence s) (set (ls_queue s))" by (simp add: distinct_map)
      with jq ready_queued [OF q ri] ij show ?thesis by (auto simp: inj_on_def)
    qed
    with le old have "older s i = older ?s i + 1" by simp
    moreover have "(unat (ls_dispatch_count s) + 1) mod 8 = 0" using True by presburger
    ultimately show ?thesis using count True by (simp add: rank_def)
  next
    case False
    then have "unat (ls_dispatch_count s) mod 8 < 7"
      using mod_less_divisor [of 8 "unat (ls_dispatch_count s)"] by linarith
    then have "(unat (ls_dispatch_count s) + 1) mod 8 = unat (ls_dispatch_count s) mod 8 + 1" by presburger
    with \<open>unat (ls_dispatch_count s) mod 8 < 7\<close> old count show ?thesis by (simp add: rank_def)
  qed
qed

lemma dispatch_loop_rank:
  assumes "state_inv p ms s" and "dispatch_loop p s = (starts, s')" and "ready i s'"
  shows "ready i s \<and> i \<notin> set starts \<and> rank s' i + length starts \<le> rank s i"
  using assms
proof (induction rule: dispatch_loop_induct)
  case (start j e s ms starts s')
  from start.IH start.prems have r: "ready i (dispatched_state j e s)" and s: "i \<notin> set starts"
    and k: "rank s' i + length starts \<le> rank (dispatched_state j e s) i" by auto
  from dispatched_ready [OF start.hyps(1,4) r] dispatched_rank [OF start.hyps(1,3,4,6) r] k s
  show ?case by simp
qed simp

text \<open>Operations that leave the queue, the entries and the dispatch counter alone.\<close>

lemma rank_same:
  "ls_queue s' = ls_queue s \<Longrightarrow> ls_entries s' = ls_entries s \<Longrightarrow> ls_dispatch_count s' = ls_dispatch_count s \<Longrightarrow>
     rank s' i = rank s i"
  by (simp add: rank_def older_def entry_sequence_def)

lemma same_but_permits_rank:
  assumes "same_but_permits s s'"
  shows "rank s' i = rank s i \<and> ready i s' = ready i s"
proof -
  note f = same_but_permits_fields [OF assms]
  have "blocked s' = blocked s" by (auto simp: fun_eq_iff blocked_def f split: option.splits)
  then show ?thesis using rank_same [of s' s i] by (simp add: f ready_entry)
qed

lemma remove_queued_rank:
  assumes inv: "state_inv p ms s" and step: "remove_queued j s = (s', signals)" and rd: "ready i s'"
  shows "rank s' i \<le> rank s i"
proof (cases "map_of (ls_entries s) j")
  case None
  with step show ?thesis by (simp add: remove_queued_def remove_queued_locked_def)
next
  case (Some e)
  obtain s1 where l: "remove_queued_locked j s = (True, s1)" and s': "s' = notify_waiting_head s1"
    using step Some by (auto simp: remove_queued_def remove_queued_locked_def Let_def)
  have f: "ls_queue s1 = removeAll j (ls_queue s)" "ls_entries s1 = AList.delete j (ls_entries s)"
    "ls_dispatch_count s1 = ls_dispatch_count s"
    using l Some by (auto simp: remove_queued_locked_def Let_def removeAll_filter_eq split: option.splits)
  from rd s' have "ready i s1" using same_but_permits_rank [OF same_but_permits_ops(1)] by blast
  then have ij: "i \<noteq> j" by (auto simp: ready_entry f map_of_delete split: if_splits)
  have seqs: "entry_sequence s1 k = entry_sequence s k" if "k \<noteq> j" for k
    using that by (simp add: entry_sequence_def f map_of_delete)
  have "older s1 i = length (filter (\<lambda>k. entry_sequence s k < entry_sequence s i) (removeAll j (ls_queue s)))"
    unfolding older_def f by (rule arg_cong [where f = length], rule filter_cong) (auto simp: seqs ij)
  also have "\<dots> \<le> older s i"
    unfolding older_def removeAll_filter_eq [symmetric] filter_filter by (rule length_filter_conj_le)
  finally have "older s1 i \<le> older s i" .
  moreover have "rank s' i = rank s1 i" using s' same_but_permits_rank [OF same_but_permits_ops(1)] by blast
  ultimately show ?thesis by (simp add: rank_def f)
qed

lemma insert_rank:
  assumes inv: "state_inv p ms s" and fresh: "j \<notin> set (ls_active s)" "j \<notin> set ms" and ri: "ready i s"
    and step: "insert_locked p j options ticket s = (res, s')"
  shows "rank s' i \<le> rank s i"
proof (cases res)
  case (Inl error)
  with step insert_locked_error show ?thesis by blast
next
  case (Inr u)
  from inv have q: "queue_inv p ms s" and sq: "sequence_inv s" by (simp_all add: state_inv_def)
  have iq: "i \<in> set (ls_queue s)" by (rule ready_queued [OF q ri])
  have jq: "j \<notin> set (ls_queue s)" using q fresh iq by (auto simp: queue_inv_def split: if_splits)
  have f: "ls_queue s' = ls_queue s @ [j]" "ls_dispatch_count s' = ls_dispatch_count s"
    "ls_entries s' = AList.update j \<lparr>qe_options = options, qe_sequence = ls_next_sequence s\<rparr> (ls_entries s)"
    using step Inr by (auto simp: insert_locked_def split: if_splits sum.splits option.splits)
  have seqs: "entry_sequence s' k = entry_sequence s k" if "k \<noteq> j" for k
    using that by (simp add: entry_sequence_def f map_of_update)
  have kept: "entry_sequence s' k = entry_sequence s k" if "k \<in> set (ls_queue s)" for k
    using that jq seqs by metis
  have new: "entry_sequence s' j = unat (ls_next_sequence s)" by (simp add: entry_sequence_def f map_of_update)
  have ij: "i \<noteq> j" using iq jq by auto
  have "entry_sequence s i < unat (ls_next_sequence s)" using sq iq by (simp add: sequence_inv_def)
  then have "older s' i = length (filter (\<lambda>k. entry_sequence s' k < entry_sequence s i) (ls_queue s))"
    by (simp add: older_def f seqs [OF ij] new)
  also have "\<dots> = older s i"
    unfolding older_def by (rule arg_cong [where f = length], rule filter_cong) (auto simp: kept)
  finally show ?thesis by (simp add: rank_def f)
qed

text \<open>One step of the lane, for an entry that is ready before and after it.\<close>

lemma lane_step_rank:
  assumes inv: "lane_inv p y" and step: "lane_step p y y'"
    and before: "ready i (sys_lane y)" and after: "ready i (sys_lane y')"
  shows "rank (sys_lane y') i + sys_dispatches y' \<le> rank (sys_lane y) i + sys_dispatches y"
proof -
  from inv have st: "state_inv p (sys_monitors y) (sys_lane y)" by (simp add: lane_inv_def)
  note same = same_but_permits_rank
  from step show ?thesis
  proof cases
    case (lane_insert j options ticket res s)
    with insert_rank [OF st _ _ before] show ?thesis by simp
  next
    case (lane_remove j s signals)
    with remove_queued_rank [OF st] after show ?thesis by simp
  next
    case (lane_take starts should_exit s signals)
    obtain s1 where l: "dispatch_loop p (sys_lane y) = (starts, s1)" and "s = s1 \<or> s = notify_waiting_head s1"
      using lane_take(3) by (auto simp: take_startable_def Let_def split: prod.splits if_splits)
    with same [OF same_but_permits_ops(1) [of s1], of i] after lane_take(1)
    have "ready i s1" and "rank s i = rank s1 i" by auto
    with dispatch_loop_rank [OF st l] lane_take(1) show ?thesis by simp
  next
    case (lane_finished j s signals)
    then have "ls_queue s = ls_queue (sys_lane y)" "ls_entries s = ls_entries (sys_lane y)"
      "ls_dispatch_count s = ls_dispatch_count (sys_lane y)"
      by (auto simp: execution_finished_def Let_def split: option.splits if_splits)
    from rank_same [OF this] lane_finished(1) show ?thesis by simp
  next
    case (lane_close controls s signals)
    then have "s = notify_all_waiting_producers (sys_lane y\<lparr>ls_closing := True\<rparr>)"
      by (auto simp: lane_request_close_def Let_def)
    with same [OF same_but_permits_ops(2) [of "sys_lane y\<lparr>ls_closing := True\<rparr>"], of i]
      rank_same [of "sys_lane y\<lparr>ls_closing := True\<rparr>" "sys_lane y" i] lane_close(1)
    show ?thesis by simp
  next
    case (lane_stopped s signals)
    then have "s = notify_all_waiting_producers (sys_lane y\<lparr>ls_closing := True, ls_runtime_unavailable := True,
        ls_queue := [], ls_entries := [], ls_active := [], ls_running := 0, ls_active_ordering_keys := [],
        ls_running_ordering_keys := [], ls_ordering_key_refcounts := []\<rparr>)"
      by (auto simp: dispatcher_stopped_def Let_def)
    with after lane_stopped(1) same_but_permits_fields(4) [OF same_but_permits_ops(2)] show ?thesis
      by (simp add: ready_def)
  next
    case (lane_waiter_new res s)
    then have "ls_queue s = ls_queue (sys_lane y)" "ls_entries s = ls_entries (sys_lane y)"
      "ls_dispatch_count s = ls_dispatch_count (sys_lane y)"
      by (auto simp: waiter_new_def Let_def split: option.splits if_splits)
    from rank_same [OF this] lane_waiter_new(1) show ?thesis by simp
  next
    case (lane_waiter_finish ticket s signals)
    then have "ls_queue s = ls_queue (sys_lane y)" "ls_entries s = ls_entries (sys_lane y)"
      "ls_dispatch_count s = ls_dispatch_count (sys_lane y)"
      by (auto simp: waiter_finish_def waiter_finish_locked_def notify_waiting_producer_def Let_def split: option.splits)
    from rank_same [OF this] lane_waiter_finish(1) show ?thesis by simp
  next
    case (lane_waiter_wakes ticket)
    with same [OF same_but_permits_ops(3) [of "sys_lane y" ticket], of i] show ?thesis by simp
  qed
qed

section \<open>No starvation\<close>

definition waits_ready :: "lane_params \<Rightarrow> execution_id \<Rightarrow> lane_sys \<Rightarrow> lane_sys \<Rightarrow> bool" where
  "waits_ready p i y y' \<longleftrightarrow> lane_step p y y' \<and> ready i (sys_lane y) \<and> ready i (sys_lane y')"

lemma waits_ready_rank:
  assumes "(waits_ready p i)\<^sup>*\<^sup>* y y'" and "lane_inv p y"
  shows "lane_inv p y' \<and> rank (sys_lane y') i + sys_dispatches y' \<le> rank (sys_lane y) i + sys_dispatches y"
  using assms(1)
proof (induction rule: rtranclp_induct)
  case (step y1 y2)
  then have "lane_inv p y1" and "lane_step p y1 y2" and r: "ready i (sys_lane y1)" "ready i (sys_lane y2)"
    by (auto simp: waits_ready_def)
  from lane_step_rank [OF this] lane_inv_step [OF \<open>lane_inv p y1\<close> \<open>lane_step p y1 y2\<close>] step.IH show ?case
    by linarith
qed (use assms(2) in simp)

end
