(* ===== verification/BB_Lane_Props.thy ===== *)
theory BB_Lane_Props
  imports BB_Lane_Fair
begin

text \<open>
  The properties of the lane: bounds, key exclusion, selection, fairness, admission, closing,
  statistics, and the execution that keeps running when its registration is refused after the
  dispatcher took it.
\<close>

section \<open>A concrete lane\<close>

text \<open>One execution at a time, room for two queued ones, and three submissions, two with one key.\<close>

definition demo_params :: lane_params where
  "demo_params = \<lparr>lp_config = \<lparr>cfg_name = ''demo'', cfg_capacity = 2, cfg_concurrency = 1, cfg_lifetime = ExecutorLifetime\<rparr>,
     lp_max_waiting_producers = 4, lp_max_ordering_keys = 4\<rparr>"

definition keyed :: spawn_options where
  "keyed = \<lparr>opt_priority = 7, opt_ordering_key = Some ''k''\<rparr>"

definition lane0 where "lane0 = \<lparr>sys_lane = lane_state_new, sys_monitors = [], sys_dispatches = 0\<rparr>"
definition lane1 where "lane1 = lane0\<lparr>sys_lane := snd (insert_locked demo_params 1 default_options None (sys_lane lane0))\<rparr>"
definition lane2 where "lane2 = lane1\<lparr>sys_lane := snd (insert_locked demo_params 2 keyed None (sys_lane lane1))\<rparr>"
definition lane3 where
  "lane3 = lane2\<lparr>sys_lane := fst (snd (snd (take_startable demo_params (sys_lane lane2)))),
     sys_monitors := [2], sys_dispatches := 1\<rparr>"
definition lane4 where "lane4 = lane3\<lparr>sys_lane := snd (insert_locked demo_params 3 keyed None (sys_lane lane3))\<rparr>"

lemmas lane_compute = lane0_def lane_state_new_def demo_params_def keyed_def default_options_def
  normal_priority_def highest_priority_def insert_locked_def ticket_refused_def next_key_refcount_def
  checked_add_def checked_sub_def Let_def

lemmas dispatch_compute = dispatch_once_def candidates_def candidate_of_def blocked_def map_filter_def
  select_ready_candidate_def replaces_def dispatch_selected_def vec_remove_def notify_waiting_head_def

lemma lane_state1: "sys_lane lane1 = lane_state_new\<lparr>ls_next_sequence := 1, ls_active := [1],
    ls_entries := [(1, \<lparr>qe_options = default_options, qe_sequence = 0\<rparr>)], ls_queue := [1]\<rparr>"
  by (simp add: lane1_def lane_compute)

lemma lane_state2: "sys_lane lane2 = lane_state_new\<lparr>ls_next_sequence := 2, ls_active := [2, 1],
    ls_entries := [(1, \<lparr>qe_options = default_options, qe_sequence = 0\<rparr>), (2, \<lparr>qe_options = keyed, qe_sequence = 1\<rparr>)],
    ls_queue := [1, 2], ls_ordering_key_refcounts := [(''k'', 1)]\<rparr>"
  by (simp add: lane2_def lane_state1) (simp add: lane_compute)

lemma lane_take2: "take_startable demo_params (sys_lane lane2) = ([2], False,
    lane_state_new\<lparr>ls_next_sequence := 2, ls_active := [2, 1], ls_running := 1, ls_dispatch_count := 1,
    ls_entries := [(1, \<lparr>qe_options = default_options, qe_sequence = 0\<rparr>)],
    ls_queue := [1], ls_ordering_key_refcounts := [(''k'', 1)], ls_active_ordering_keys := [''k''],
    ls_running_ordering_keys := [(2, ''k'')]\<rparr>, [CapacityWaiters])"
  by (simp add: lane_state2 take_startable_def dispatch_loop.simps dispatch_compute lane_compute)

lemma lane_state3: "sys_lane lane3 = lane_state_new\<lparr>ls_next_sequence := 2, ls_active := [2, 1], ls_running := 1,
    ls_dispatch_count := 1, ls_entries := [(1, \<lparr>qe_options = default_options, qe_sequence = 0\<rparr>)],
    ls_queue := [1], ls_ordering_key_refcounts := [(''k'', 1)], ls_active_ordering_keys := [''k''],
    ls_running_ordering_keys := [(2, ''k'')]\<rparr>"
  by (simp add: lane3_def lane_take2)

lemma lane_state4: "sys_lane lane4 = lane_state_new\<lparr>ls_next_sequence := 3, ls_active := [3, 2, 1], ls_running := 1,
    ls_dispatch_count := 1, ls_entries := [(1, \<lparr>qe_options = default_options, qe_sequence = 0\<rparr>),
      (3, \<lparr>qe_options = keyed, qe_sequence = 2\<rparr>)],
    ls_queue := [1, 3], ls_ordering_key_refcounts := [(''k'', 2)], ls_active_ordering_keys := [''k''],
    ls_running_ordering_keys := [(2, ''k'')]\<rparr>"
  by (simp add: lane4_def lane_state3) (simp add: lane_compute)

lemma lane_steps: "lane_step demo_params lane0 lane1" "lane_step demo_params lane1 lane2"
  "lane_step demo_params lane2 lane3" "lane_step demo_params lane3 lane4"
proof -
  show "lane_step demo_params lane0 lane1"
    unfolding lane1_def by (rule lane_step.lane_insert [of 1 _ default_options _ None]) (simp_all add: lane_compute)
  show "lane_step demo_params lane1 lane2"
    unfolding lane2_def
    by (rule lane_step.lane_insert [of 2 _ keyed _ None "fst (insert_locked demo_params 2 keyed None (sys_lane lane1))"])
      (simp_all add: lane_state1, simp_all add: lane1_def lane_compute)
  show "lane_step demo_params lane2 lane3"
    using lane_step.lane_take [of lane2 demo_params "[2]" False "sys_lane lane3" "[CapacityWaiters]"]
    by (simp add: lane_take2 lane3_def) (simp add: lane_state2, simp add: lane2_def lane1_def lane_compute)
  show "lane_step demo_params lane3 lane4"
    unfolding lane4_def
    by (rule lane_step.lane_insert [of 3 _ keyed _ None "fst (insert_locked demo_params 3 keyed None (sys_lane lane3))"])
      (simp_all add: lane_state3, simp_all add: lane3_def lane_compute)
qed

lemma lane0_init: "lane_init lane0"
  by (simp add: lane_init_def lane0_def)

lemma lane_reach: "reach lane_init (lane_step demo_params) lane2" "reach lane_init (lane_step demo_params) lane3"
  "reach lane_init (lane_step demo_params) lane4"
proof -
  show r2: "reach lane_init (lane_step demo_params) lane2"
    using lane0_init lane_steps(1,2) by (blast intro: reach_init reach_step)
  with lane_steps(3) show r3: "reach lane_init (lane_step demo_params) lane3" by (blast intro: reach_step)
  with lane_steps(4) show "reach lane_init (lane_step demo_params) lane4" by (blast intro: reach_step)
qed

section \<open>Lemmas about the dispatch loop and the statistics\<close>

lemma dispatch_loop_result:
  assumes "state_inv p ms s" and "dispatch_loop p s = (starts, s')"
  shows "distinct starts \<and> set starts \<subseteq> set (ls_queue s)
    \<and> ls_queue s' = filter (\<lambda>i. i \<notin> set starts) (ls_queue s)
    \<and> ls_closing s' = ls_closing s \<and> ls_active s' = ls_active s
    \<and> (ls_running s' = cfg_concurrency (lp_config p) \<or> (\<forall>(j, f) \<in> set (ls_entries s'). blocked s' f))"
  using assms
proof (induction rule: dispatch_loop_induct)
  case (start i e s ms starts s')
  then have "i \<notin> set starts" and "ls_queue s' = filter (\<lambda>j. j \<notin> set starts) (removeAll i (ls_queue s))"
    by (auto simp: dispatched_fields)
  moreover from this(2) have "ls_queue s' = filter (\<lambda>j. j \<notin> set (i # starts)) (ls_queue s)"
    by (simp flip: removeAll_filter_eq)
  ultimately show ?case using start by (auto simp: dispatched_fields)
qed (auto simp: filter_id_conv)

lemma take_startable_result:
  assumes "state_inv p ms s" and "take_startable p s = (starts, should_exit, s', signals)"
  shows "distinct starts \<and> set starts \<subseteq> set (ls_queue s)
    \<and> ls_queue s' = filter (\<lambda>i. i \<notin> set starts) (ls_queue s)
    \<and> ls_closing s' = ls_closing s \<and> ls_active s' = ls_active s
    \<and> (ls_running s' = cfg_concurrency (lp_config p) \<or> (\<forall>(j, f) \<in> set (ls_entries s'). blocked s' f))
    \<and> should_exit = (ls_closing s' \<and> ls_active s' = [])"
proof -
  obtain s1 where l: "dispatch_loop p s = (starts, s1)" and s': "s' = s1 \<or> s' = notify_waiting_head s1"
    and ex: "should_exit = (ls_closing s1 \<and> ls_active s1 = [])"
    using assms(2) by (auto simp: take_startable_def Let_def split: prod.splits if_splits)
  note f = same_but_permits_fields [OF same_but_permits_ops(1) [of s1]]
  have "blocked (notify_waiting_head s1) = blocked s1"
    by (auto simp: fun_eq_iff blocked_def f split: option.splits)
  with s' ex dispatch_loop_result [OF assms(1) l] show ?thesis by (auto simp: f)
qed

lemma notify_all_closed: "ls_closing (notify_all_waiting_producers s) = ls_closing s"
  by (rule same_but_permits_fields [OF same_but_permits_ops(2)])

lemma closing_step:
  assumes "lane_inv p y" and "ls_closing (sys_lane y)" and "lane_step p y y'"
  shows "ls_closing (sys_lane y') \<and> set (ls_queue (sys_lane y')) \<subseteq> set (ls_queue (sys_lane y))"
  using assms(3)
proof cases
  case (lane_insert i options ticket res s)
  with assms(2) show ?thesis by (auto simp: insert_locked_def split: if_splits)
next
  case (lane_remove i s signals)
  with assms(2) same_but_permits_fields [OF same_but_permits_ops(1)] show ?thesis
    by (auto simp: remove_queued_def remove_queued_locked_def Let_def split: option.splits)
next
  case (lane_take starts should_exit s signals)
  with assms take_startable_result [OF _ lane_take(3)] show ?thesis by (auto simp: lane_inv_def)
next
  case (lane_finished i s signals)
  with assms(2) show ?thesis by (auto simp: execution_finished_def Let_def split: option.splits if_splits)
next
  case (lane_close controls s signals)
  with assms(2) same_but_permits_fields [OF same_but_permits_ops(2)] show ?thesis
    by (auto simp: lane_request_close_def Let_def)
next
  case (lane_stopped s signals)
  with same_but_permits_fields [OF same_but_permits_ops(2)] show ?thesis
    by (auto simp: dispatcher_stopped_def Let_def)
next
  case (lane_waiter_new res s)
  with assms(2) show ?thesis by (auto simp: waiter_new_def Let_def split: option.splits if_splits)
next
  case (lane_waiter_finish ticket s signals)
  with assms(2) show ?thesis
    by (auto simp: waiter_finish_def waiter_finish_locked_def notify_waiting_producer_def Let_def split: option.splits)
next
  case (lane_waiter_wakes ticket)
  with assms(2) show ?thesis by (simp add: consume_permit_def)
qed

lemma stats_loop_counts:
  assumes "length r = 8" and "\<forall>(j, f) \<in> set es. opt_priority (qe_options f) \<le> highest_priority"
  shows "stats_loop s es (b, r) =
     (b + length (filter (\<lambda>e. blocked s (snd e)) es),
      map (\<lambda>k. r ! k + length (filter (\<lambda>e. \<not> blocked s (snd e) \<and> unat (opt_priority (qe_options (snd e))) = k) es)) [0..<8])"
  using assms
proof (induction es arbitrary: b r)
  case Nil
  then show ?case by (simp add: list_eq_iff_nth_eq)
next
  case (Cons e es)
  let ?k = "unat (opt_priority (qe_options (snd e)))"
  have "?k \<le> unat highest_priority" using Cons.prems(2) by (cases e) (simp add: word_le_nat_alt)
  then have k: "?k < 8" by (simp add: highest_priority_def)
  show ?case
  proof (cases "blocked s (snd e)")
    case True
    with Cons.IH [of r "b + 1"] Cons.prems show ?thesis by simp
  next
    case False
    let ?r = "r[?k := r ! ?k + 1]"
    have "stats_loop s (e # es) (b, r) = stats_loop s es (b, ?r)"
      using False k Cons.prems(1) by (simp add: Let_def)
    also have "\<dots> = (b + length (filter (\<lambda>e. blocked s (snd e)) es),
        map (\<lambda>k. ?r ! k + length (filter (\<lambda>e. \<not> blocked s (snd e) \<and> unat (opt_priority (qe_options (snd e))) = k) es)) [0..<8])"
      using Cons.prems by (intro Cons.IH) auto
    finally show ?thesis using False k Cons.prems(1) by (auto simp: nth_list_update)
  qed
qed

lemma sum_of_classes:
  assumes "\<forall>e \<in> set es. P e \<longrightarrow> f e < n"
  shows "sum_list (map (\<lambda>k. length (filter (\<lambda>e. P e \<and> f e = k) es)) [0..<n]) = length (filter P es)"
  using assms
proof (induction es)
  case (Cons e es)
  have "sum_list (map (\<lambda>k. length (filter (\<lambda>e. P e \<and> f e = k) (e # es))) [0..<n])
      = sum_list (map (\<lambda>k. (if P e \<and> f e = k then 1 else 0) + length (filter (\<lambda>e. P e \<and> f e = k) es)) [0..<n])"
    by (rule arg_cong [where f = sum_list]) auto
  also have "\<dots> = sum_list (map (\<lambda>k. if P e \<and> f e = k then 1 else 0) [0..<n])
      + sum_list (map (\<lambda>k. length (filter (\<lambda>e. P e \<and> f e = k) es)) [0..<n])"
    by (rule sum_list_addf)
  also have "sum_list (map (\<lambda>k. if P e \<and> f e = k then 1 else (0::nat)) [0..<n]) = (if P e then 1 else 0)"
    using Cons.prems by (simp add: interv_sum_list_conv_sum_set_nat)
  finally show ?case using Cons by simp
qed simp

section \<open>Properties\<close>

text \<open>
  C14. The lane keeps its bounds: in every reachable state at most the configured number of executions
  run, at most the capacity is queued, the waiting producers and the distinct ordering keys stay
  within their limits, and while the dispatcher lives the running counter is the number of started
  executions that have not been reported finished.
\<close>

theorem lane_stays_bounded:
  assumes "reach lane_init (lane_step p) y"
  shows "ls_running (sys_lane y) \<le> cfg_concurrency (lp_config p)
    \<and> length (ls_queue (sys_lane y)) \<le> unat (cfg_capacity (lp_config p))
    \<and> length (ls_waiting_queue (sys_lane y)) \<le> unat (lp_max_waiting_producers p)
    \<and> length (ls_ordering_key_refcounts (sys_lane y)) \<le> unat (lp_max_ordering_keys p)
    \<and> (\<not> ls_runtime_unavailable (sys_lane y) \<longrightarrow> unat (ls_running (sys_lane y)) = length (sys_monitors y))"
proof -
  let ?s = "sys_lane y"
  from lane_system.reach_inv [OF assms] have q: "queue_inv p (sys_monitors y) ?s" and k: "key_inv p ?s"
    and w: "waiter_inv p ?s" by (simp_all add: lane_inv_def state_inv_def)
  have "length (ls_queue ?s) = length (ls_entries ?s)"
    using q distinct_card [of "ls_queue ?s"] distinct_card [of "keys (ls_entries ?s)"]
    by (simp add: queue_inv_def)
  moreover have "unat (ls_running ?s) = length (sys_monitors y)" if "\<not> ls_runtime_unavailable ?s"
  proof -
    from q that have "set (ls_active ?s) = set (ls_queue ?s @ sys_monitors y)" "distinct (ls_active ?s)"
      "distinct (ls_queue ?s @ sys_monitors y)" by (auto simp: queue_inv_def)
    then have "length (ls_active ?s) = length (ls_queue ?s @ sys_monitors y)" by (metis distinct_card)
    with q show ?thesis by (simp add: queue_inv_def)
  qed
  ultimately show ?thesis using q k w by (simp add: queue_inv_def key_inv_def waiter_inv_def word_le_nat_alt)
qed

theorem lane_stays_bounded_witness: "unat (ls_running (sys_lane lane3)) = length (sys_monitors lane3)"
  using lane_stays_bounded [OF lane_reach(2)] by (simp add: lane_state3 lane_state_new_def)

text \<open>
  C12. Executions with the same ordering key never run together: in every reachable state two running
  executions recorded with one key are the same, a key is active exactly when a running execution
  holds it, and the reference count of a key is the number of its queued and running executions.
\<close>

theorem one_execution_per_key:
  assumes "reach lane_init (lane_step p) y"
  shows "(\<forall>i j key. map_of (ls_running_ordering_keys (sys_lane y)) i = Some key
            \<and> map_of (ls_running_ordering_keys (sys_lane y)) j = Some key \<longrightarrow> i = j)
    \<and> (\<forall>key. key \<in> set (ls_active_ordering_keys (sys_lane y))
            \<longleftrightarrow> (\<exists>i. map_of (ls_running_ordering_keys (sys_lane y)) i = Some key))
    \<and> (\<forall>key count. map_of (ls_ordering_key_refcounts (sys_lane y)) key = Some count
            \<longrightarrow> unat count = key_uses (sys_lane y) key \<and> 0 < key_uses (sys_lane y) key)"
proof -
  let ?r = "ls_running_ordering_keys (sys_lane y)"
  from lane_system.reach_inv [OF assms] have k: "key_inv p (sys_lane y)" by (simp add: lane_inv_def state_inv_def)
  then have d: "distinct (keys ?r)" and inj: "inj_on snd (set ?r)" by (simp_all add: key_inv_def distinct_map)
  have "i = j" if "map_of ?r i = Some key" "map_of ?r j = Some key" for i j key
    using inj_onD [OF inj, of "(i, key)" "(j, key)"] map_of_SomeD [OF that(1)] map_of_SomeD [OF that(2)] by simp
  moreover have "key \<in> set (ls_active_ordering_keys (sys_lane y)) \<longleftrightarrow> (\<exists>i. map_of ?r i = Some key)" for key
  proof -
    have "key \<in> snd ` set ?r \<longleftrightarrow> (\<exists>i. (i, key) \<in> set ?r)" by force
    with k d show ?thesis by (simp add: key_inv_def map_of_eq_Some_iff)
  qed
  moreover have "unat count = key_uses (sys_lane y) key \<and> 0 < key_uses (sys_lane y) key"
    if "map_of (ls_ordering_key_refcounts (sys_lane y)) key = Some count" for key count
    using k that by (metis gr0I key_inv_def option.distinct(1) refcounts_ok_def)
  ultimately show ?thesis by blast
qed

theorem one_execution_per_key_witness:
  "key_uses (sys_lane lane4) ''k'' = 2 \<and> map_of (ls_ordering_key_refcounts (sys_lane lane4)) ''k'' = Some 2"
proof -
  have r: "map_of (ls_ordering_key_refcounts (sys_lane lane4)) ''k'' = Some 2" by (simp add: lane_state4)
  with one_execution_per_key [OF lane_reach(3)] have "unat (2 :: usize) = key_uses (sys_lane lane4) ''k''" by blast
  with r show ?thesis by simp
qed

text \<open>
  C13. A dispatch is work conserving and safe: the starts it takes are distinct queued executions and
  leave the queue in order, the internal-error branches never close the lane, and afterwards either
  every slot is used or every execution still queued is held back by a running one with its key.
\<close>

theorem dispatch_is_work_conserving:
  assumes "reach lane_init (lane_step p) y"
    and "take_startable p (sys_lane y) = (starts, should_exit, s', signals)"
  shows "distinct starts \<and> set starts \<subseteq> set (ls_queue (sys_lane y))
    \<and> ls_queue s' = filter (\<lambda>i. i \<notin> set starts) (ls_queue (sys_lane y))
    \<and> ls_closing s' = ls_closing (sys_lane y)
    \<and> (ls_running s' = cfg_concurrency (lp_config p) \<or> (\<forall>(j, f) \<in> set (ls_entries s'). blocked s' f))"
  using take_startable_result [OF _ assms(2)] lane_system.reach_inv [OF assms(1)] by (auto simp: lane_inv_def)

theorem dispatch_is_work_conserving_witness:
  "ls_queue (fst (snd (snd (take_startable demo_params (sys_lane lane2))))) = [1]"
proof -
  from dispatch_is_work_conserving [OF lane_reach(1) lane_take2]
  have "ls_queue (fst (snd (snd (take_startable demo_params (sys_lane lane2)))))
      = filter (\<lambda>i. i \<notin> set [2]) (ls_queue (sys_lane lane2))"
    unfolding lane_take2 fst_conv snd_conv by blast
  then show ?thesis by (simp add: lane_state2)
qed

text \<open>
  What one dispatch selects: a ready queued execution, at every eighth dispatch the oldest ready
  one, otherwise one of the highest priority among the ready ones and the oldest of these; it
  dispatches nothing only when no slot is free or nothing is ready.
\<close>

theorem dispatch_selection:
  assumes "reach lane_init (lane_step p) y"
  shows "(dispatch_once p (sys_lane y) = DispatchBreak (sys_lane y)
          \<and> (ls_running (sys_lane y) = cfg_concurrency (lp_config p)
             \<or> (\<forall>(j, f) \<in> set (ls_entries (sys_lane y)). blocked (sys_lane y) f)))
    \<or> (\<exists>i e s'. dispatch_once p (sys_lane y) = Dispatched i s' \<and> i \<in> set (ls_queue (sys_lane y))
          \<and> map_of (ls_entries (sys_lane y)) i = Some e \<and> \<not> blocked (sys_lane y) e
          \<and> (\<forall>(j, f) \<in> set (ls_entries (sys_lane y)). \<not> blocked (sys_lane y) f \<longrightarrow>
                (if ls_dispatch_count (sys_lane y) mod 8 = 7 then qe_sequence e \<le> qe_sequence f
                 else opt_priority (qe_options f) < opt_priority (qe_options e)
                      \<or> opt_priority (qe_options f) = opt_priority (qe_options e) \<and> qe_sequence e \<le> qe_sequence f)))"
proof -
  have "queue_inv p (sys_monitors y) (sys_lane y)"
    using lane_system.reach_inv [OF assms] by (simp add: lane_inv_def state_inv_def)
  from dispatch_once_spec [OF this] show ?thesis unfolding selected_def by blast
qed

theorem dispatch_selection_witness:
  "\<exists>s'. dispatch_once demo_params (sys_lane lane2) = Dispatched 2 s'"
  using dispatch_selection [OF lane_reach(1)] by (simp add: lane_state2 dispatch_compute lane_compute)

text \<open>
  C6. No starvation: while an execution is queued and ready (no running execution holds its key), at
  most eight times the number of older queued executions plus seven others are started before it,
  whatever is submitted meanwhile and at whatever priority, also across the wrap of the counter.
\<close>

theorem no_starvation:
  assumes "reach lane_init (lane_step p) y" and "(waits_ready p i)\<^sup>*\<^sup>* y y'"
  shows "sys_dispatches y' \<le> sys_dispatches y + 8 * older (sys_lane y) i + 7"
proof -
  from waits_ready_rank [OF assms(2) lane_system.reach_inv [OF assms(1)]]
  have "sys_dispatches y' \<le> rank (sys_lane y) i + sys_dispatches y" by linarith
  moreover have "rank (sys_lane y) i \<le> 8 * older (sys_lane y) i + 7" by (simp add: rank_def)
  ultimately show ?thesis by linarith
qed

theorem no_starvation_witness: "sys_dispatches lane3 \<le> sys_dispatches lane2 + 8 * older (sys_lane lane2) 1 + 7"
proof -
  have "waits_ready demo_params 1 lane2 lane3"
    using lane_steps(3) by (simp add: waits_ready_def ready_def lane_state2 lane_state3 blocked_def default_options_def)
  then show ?thesis by (intro no_starvation [OF lane_reach(1)] r_into_rtranclp)
qed

text \<open>
  The admission decision: an insertion succeeds exactly when the runtime is there, the lane is
  open and has room, the submission is the first in line (a waiting producer at the head, or a fresh
  one while nobody waits), its ordering key can be counted and a sequence number is left; a refused
  insertion changes nothing, a successful one appends the execution as the youngest queued entry.
\<close>

theorem admission_decision:
  "((\<exists>s'. insert_locked p i options ticket s = (Inr (), s')) \<longleftrightarrow>
      \<not> ls_runtime_unavailable s \<and> \<not> ls_closing s \<and> length (ls_entries s) < unat (cfg_capacity (lp_config p))
      \<and> (case ticket of None \<Rightarrow> ls_waiting_queue s = [] | Some t \<Rightarrow> first_key (ls_waiting_queue s) = Some t)
      \<and> (\<exists>r. next_key_refcount p options s = Inr r) \<and> unat (ls_next_sequence s) + 1 < 2 ^ 64)
   \<and> (\<forall>error s'. insert_locked p i options ticket s = (Inl error, s') \<longrightarrow> s' = s)
   \<and> (\<forall>s'. insert_locked p i options ticket s = (Inr (), s') \<longrightarrow>
        ls_queue s' = ls_queue s @ [i]
        \<and> map_of (ls_entries s') i = Some \<lparr>qe_options = options, qe_sequence = ls_next_sequence s\<rparr>
        \<and> unat (ls_next_sequence s') = unat (ls_next_sequence s) + 1)"
proof -
  have "checked_add (ls_next_sequence s) 1 = None \<longleftrightarrow> \<not> unat (ls_next_sequence s) + 1 < 2 ^ 64"
    by (auto simp: checked_add_def)
  then have "(\<exists>s'. insert_locked p i options ticket s = (Inr (), s')) \<longleftrightarrow>
      \<not> ls_runtime_unavailable s \<and> \<not> ls_closing s \<and> length (ls_entries s) < unat (cfg_capacity (lp_config p))
      \<and> (case ticket of None \<Rightarrow> ls_waiting_queue s = [] | Some t \<Rightarrow> first_key (ls_waiting_queue s) = Some t)
      \<and> (\<exists>r. next_key_refcount p options s = Inr r) \<and> unat (ls_next_sequence s) + 1 < 2 ^ 64"
    by (auto simp: insert_locked_def ticket_refused_def split: option.splits sum.splits)
  moreover have "ls_queue s' = ls_queue s @ [i]
      \<and> map_of (ls_entries s') i = Some \<lparr>qe_options = options, qe_sequence = ls_next_sequence s\<rparr>
      \<and> unat (ls_next_sequence s') = unat (ls_next_sequence s) + 1"
    if "insert_locked p i options ticket s = (Inr (), s')" for s'
    using that
    by (auto simp: insert_locked_def map_of_update checked_add_one split: if_splits option.splits sum.splits)
  ultimately show ?thesis using insert_locked_error by blast
qed

theorem admission_decision_witness:
  "ls_queue (sys_lane lane2) = ls_queue (sys_lane lane1) @ [2]"
proof -
  have "insert_locked demo_params 2 keyed None (sys_lane lane1) = (Inr (), sys_lane lane2)"
    by (simp add: lane_state2) (simp add: lane_state1 lane_compute)
  with admission_decision [of demo_params 2 keyed None "sys_lane lane1"] show ?thesis by blast
qed

text \<open>
  C15. A closed lane stays closed and drains: from a reachable closed state on, the lane is closed in
  every continuation, every insertion is refused, nothing is ever added to the queue, and when the
  dispatcher decides to end, no admitted execution is queued or unreported.
\<close>

theorem closed_lane_drains:
  assumes "reach lane_init (lane_step p) y" and "ls_closing (sys_lane y)" and "(lane_step p)\<^sup>*\<^sup>* y y'"
  shows "ls_closing (sys_lane y')
    \<and> (\<exists>error. fst (insert_locked p i options ticket (sys_lane y')) = Inl error)
    \<and> set (ls_queue (sys_lane y')) \<subseteq> set (ls_queue (sys_lane y))
    \<and> (\<forall>starts s' signals. \<not> ls_runtime_unavailable (sys_lane y')
          \<and> take_startable p (sys_lane y') = (starts, True, s', signals)
          \<longrightarrow> starts = [] \<and> ls_queue s' = [] \<and> sys_monitors y' = [])"
proof -
  have "ls_closing (sys_lane y') \<and> set (ls_queue (sys_lane y')) \<subseteq> set (ls_queue (sys_lane y)) \<and> lane_inv p y'"
    using assms(3)
  proof (induction rule: rtranclp_induct)
    case (step y1 y2)
    then show ?case using closing_step [of p y1 y2] lane_inv_step [of p y1 y2] by blast
  qed (use assms lane_system.reach_inv in blast)
  moreover have "\<exists>error. fst (insert_locked p i options ticket (sys_lane y')) = Inl error" if "ls_closing (sys_lane y')"
    using that by (simp add: insert_locked_def)
  moreover have "starts = [] \<and> ls_queue s' = [] \<and> sys_monitors y' = []"
    if inv: "lane_inv p y'" and "\<not> ls_runtime_unavailable (sys_lane y')"
      and t: "take_startable p (sys_lane y') = (starts, True, s', signals)" for starts s' signals
  proof -
    from inv have st: "state_inv p (sys_monitors y') (sys_lane y')" by (simp add: lane_inv_def)
    from take_startable_result [OF st t] have "ls_active (sys_lane y') = []" and sub: "set starts \<subseteq> set (ls_queue (sys_lane y'))"
      and "ls_queue s' = filter (\<lambda>i. i \<notin> set starts) (ls_queue (sys_lane y'))" by auto
    with st that(2) show ?thesis by (auto simp: state_inv_def queue_inv_def)
  qed
  ultimately show ?thesis by blast
qed

theorem closed_lane_drains_witness:
  "ls_closing (fst (snd (lane_request_close (sys_lane lane2))))"
proof -
  let ?y = "lane2\<lparr>sys_lane := fst (snd (lane_request_close (sys_lane lane2)))\<rparr>"
  have "lane_step demo_params lane2 ?y" by (rule lane_step.lane_close [where controls = "fst (lane_request_close (sys_lane lane2))"
        and signals = "snd (snd (lane_request_close (sys_lane lane2)))"]) simp
  with lane_reach(1) have "reach lane_init (lane_step demo_params) ?y" by (rule reach_step)
  moreover have "ls_closing (sys_lane ?y)" by (simp add: lane_request_close_def Let_def notify_all_closed)
  ultimately have "ls_closing (sys_lane ?y)" using closed_lane_drains [of demo_params ?y ?y] by blast
  then show ?thesis by simp
qed

text \<open>
  The statistics add up: in every reachable state the queued executions are the ones blocked by
  their key plus the ready ones of each priority, each priority's number is exact, and queued plus
  available is the capacity.
\<close>

theorem lane_stats_add_up:
  assumes "reach lane_init (lane_step p) y"
  shows "queued_live (lane_stats_of p (sys_lane y))
      = blocked_by_ordering_key (lane_stats_of p (sys_lane y)) + sum_list (ready_by_priority (lane_stats_of p (sys_lane y)))
    \<and> (\<forall>k < 8. ready_by_priority (lane_stats_of p (sys_lane y)) ! k
        = length (filter (\<lambda>e. \<not> blocked (sys_lane y) (snd e) \<and> unat (opt_priority (qe_options (snd e))) = k)
            (ls_entries (sys_lane y))))
    \<and> queued_live (lane_stats_of p (sys_lane y)) + available_queue_capacity (lane_stats_of p (sys_lane y))
        = unat (cfg_capacity (lp_config p))"
proof -
  let ?s = "sys_lane y" and ?prio = "\<lambda>e :: execution_id \<times> queue_entry. unat (opt_priority (qe_options (snd e)))"
  from lane_system.reach_inv [OF assms] have q: "queue_inv p (sys_monitors y) ?s" and sq: "sequence_inv ?s"
    by (simp_all add: lane_inv_def state_inv_def)
  have prio: "\<forall>(j, f) \<in> set (ls_entries ?s). opt_priority (qe_options f) \<le> highest_priority"
    using sq by (simp add: sequence_inv_def)
  have stats: "stats_loop ?s (ls_entries ?s) (0, replicate 8 0) =
     (length (filter (\<lambda>e. blocked ?s (snd e)) (ls_entries ?s)),
      map (\<lambda>k. length (filter (\<lambda>e. \<not> blocked ?s (snd e) \<and> ?prio e = k) (ls_entries ?s))) [0..<8])"
    using stats_loop_counts [OF _ prio, of "replicate 8 0" ?s 0] by simp
  have "\<forall>e \<in> set (ls_entries ?s). \<not> blocked ?s (snd e) \<longrightarrow> ?prio e < 8"
    using prio by (auto simp: word_le_nat_alt highest_priority_def)
  from sum_of_classes [OF this] have
    "sum_list (map (\<lambda>k. length (filter (\<lambda>e. \<not> blocked ?s (snd e) \<and> ?prio e = k) (ls_entries ?s))) [0..<8])
     = length (filter (\<lambda>e. \<not> blocked ?s (snd e)) (ls_entries ?s))" .
  with stats q length_filter_split [of "\<lambda>e. blocked ?s (snd e)" "ls_entries ?s"] show ?thesis
    by (simp add: lane_stats_of_def queue_inv_def)
qed

theorem lane_stats_add_up_witness:
  "blocked_by_ordering_key (lane_stats_of demo_params (sys_lane lane4)) = 1
   \<and> queued_live (lane_stats_of demo_params (sys_lane lane4)) = 1 + sum_list (ready_by_priority (lane_stats_of demo_params (sys_lane lane4)))"
proof -
  have "blocked_by_ordering_key (lane_stats_of demo_params (sys_lane lane4)) = 1"
    by (simp add: lane_stats_of_def lane_state4 lane_state_new_def blocked_def keyed_def default_options_def
        normal_priority_def Let_def)
  with conjunct1 [OF lane_stats_add_up [OF lane_reach(3)]] show ?thesis by simp
qed

text \<open>
  A submission can be reported as failed although it runs: if the dispatcher takes the new entry
  between the insertion and the registration, and the registration is then refused, the caller gets
  the error, but the removal finds nothing and the execution stays started.
\<close>

theorem refused_registration_keeps_running:
  assumes "state_inv p ms s" and "insert_locked p i options ticket s = (Inr (), s1)" and "i \<notin> set (ls_active s)"
    and "i \<notin> set ms" and "opt_priority options \<le> highest_priority"
    and "take_startable p s1 = (starts, should_exit, s2, signals)" and "i \<in> set starts"
  shows "insert_prepared p i options ticket (\<lambda>_. s2) (Inl error) s = (Inl (spawn_error_from error), s2, [])
    \<and> i \<in> set (ls_active s2) \<and> i \<notin> set (ls_queue s2)"
proof -
  from insert_locked_inv [OF assms(1,3,4,5,2)] have inv1: "state_inv p ms s1" .
  from take_startable_result [OF inv1 assms(6)] assms(7) have out: "i \<notin> set (ls_queue s2)"
    and act: "ls_active s2 = ls_active s1" by auto
  from take_startable_inv [OF inv1 assms(6)] out have "map_of (ls_entries s2) i = None"
    by (simp add: state_inv_def queue_inv_def map_of_notin_keys)
  then have "remove_queued i s2 = (s2, [])" by (simp add: remove_queued_def remove_queued_locked_def)
  moreover have "i \<in> set (ls_active s1)"
    using assms(2) by (auto simp: insert_locked_def split: if_splits option.splits sum.splits)
  ultimately show ?thesis using assms(2) act out by (simp add: insert_prepared_def Let_def)
qed

theorem refused_registration_keeps_running_witness:
  "2 \<in> set (ls_active (fst (snd (insert_prepared demo_params 2 keyed None
      (\<lambda>s. fst (snd (snd (take_startable demo_params s)))) (Inl (ResourceLimitExceeded ''active executions''))
      (sys_lane lane1)))))"
proof -
  have ins: "insert_locked demo_params 2 keyed None (sys_lane lane1) = (Inr (), sys_lane lane2)"
    by (simp add: lane_state2) (simp add: lane_state1 lane_compute)
  have reach1: "reach lane_init (lane_step demo_params) lane1"
    using lane_steps(1) by (blast intro: reach_step reach_init lane0_init)
  have "state_inv demo_params (sys_monitors lane1) (sys_lane lane1)"
    using lane_system.reach_inv [OF reach1] by (simp add: lane_inv_def)
  from refused_registration_keeps_running [OF this ins _ _ _ lane_take2, of "ResourceLimitExceeded ''active executions''"]
  show ?thesis
    by (simp add: insert_prepared_def ins lane_take2)
       (simp add: lane_state1 lane1_def lane0_def keyed_def highest_priority_def remove_queued_def
          remove_queued_locked_def lane_state_new_def)
qed

end
