(* ===== verification/BB_Lane_Waiters.thy ===== *)
theory BB_Lane_Waiters
  imports BB_Lane_Inv
begin

text \<open>
  The waiting producers of a lane: the loop of \<open>spawn_with_options\<close> (and of \<open>spawn_recurring\<close> and
  \<open>spawn_retry\<close>, which differ in the deadline only) as a state machine over the lane.  A producer
  tries to insert with its ticket; when the lane is full it waits for its notification; it leaves
  when it succeeded, failed otherwise, or was dropped, and then finishes its ticket.
  The result: no wake-up is lost.  Whenever an open lane has room and producers wait, the producer at
  the head can act, and its attempt is not refused as full.
\<close>

section \<open>The producers\<close>

text \<open>
  \<open>ws_trying\<close> are the tickets whose producer is running towards its next attempt, \<open>ws_leaving\<close>
  those whose producer has inserted and not finished its ticket yet; all others wait.
\<close>

record waiter_sys =
  ws_base :: lane_sys
  ws_trying :: "u64 list"
  ws_leaving :: "u64 list"

definition waiters_init :: "waiter_sys \<Rightarrow> bool" where
  "waiters_init w \<longleftrightarrow> lane_init (ws_base w) \<and> ws_trying w = [] \<and> ws_leaving w = []"

abbreviation ws_lane :: "waiter_sys \<Rightarrow> lane_state" where
  "ws_lane w \<equiv> sys_lane (ws_base w)"

inductive spawn_step :: "lane_params \<Rightarrow> waiter_sys \<Rightarrow> waiter_sys \<Rightarrow> bool" for p where
  spawn_waits:
    "waiter_new p (ws_lane w) = (Inr ticket, s) \<Longrightarrow>
     spawn_step p w (w\<lparr>ws_base := (ws_base w)\<lparr>sys_lane := s\<rparr>, ws_trying := ticket # ws_trying w\<rparr>)"
| spawn_succeeds:
    "ticket \<in> set (ws_trying w) \<Longrightarrow>
     i \<notin> set (ls_active (ws_lane w)) \<Longrightarrow> i \<notin> set (sys_monitors (ws_base w)) \<Longrightarrow>
     opt_priority options \<le> highest_priority \<Longrightarrow>
     insert_locked p i options (Some ticket) (ws_lane w) = (Inr u, s) \<Longrightarrow>
     spawn_step p w (w\<lparr>ws_base := (ws_base w)\<lparr>sys_lane := s\<rparr>,
       ws_trying := removeAll ticket (ws_trying w), ws_leaving := ticket # ws_leaving w\<rparr>)"
| spawn_queue_full:
    "ticket \<in> set (ws_trying w) \<Longrightarrow>
     insert_locked p i options (Some ticket) (ws_lane w) = (Inl SpQueueFull, s) \<Longrightarrow>
     spawn_step p w (w\<lparr>ws_trying := removeAll ticket (ws_trying w)\<rparr>)"
| spawn_woken:
    "(ticket, True) \<in> set (ls_waiting_queue (ws_lane w)) \<Longrightarrow>
     spawn_step p w (w\<lparr>ws_base := (ws_base w)\<lparr>sys_lane := consume_permit ticket (ws_lane w)\<rparr>,
       ws_trying := ticket # ws_trying w\<rparr>)"
| spawn_leaves:
    "waiter_finish p ticket (ws_lane w) = (s, signals) \<Longrightarrow>
     spawn_step p w (w\<lparr>ws_base := (ws_base w)\<lparr>sys_lane := s\<rparr>,
       ws_trying := removeAll ticket (ws_trying w), ws_leaving := removeAll ticket (ws_leaving w)\<rparr>)"
| spawn_direct:
    "i \<notin> set (ls_active (ws_lane w)) \<Longrightarrow> i \<notin> set (sys_monitors (ws_base w)) \<Longrightarrow>
     opt_priority options \<le> highest_priority \<Longrightarrow>
     insert_locked p i options None (ws_lane w) = (res, s) \<Longrightarrow>
     spawn_step p w (w\<lparr>ws_base := (ws_base w)\<lparr>sys_lane := s\<rparr>\<rparr>)"
| spawn_removed:
    "remove_queued i (ws_lane w) = (s, signals) \<Longrightarrow>
     spawn_step p w (w\<lparr>ws_base := (ws_base w)\<lparr>sys_lane := s\<rparr>\<rparr>)"
| spawn_dispatched:
    "\<not> ls_runtime_unavailable (ws_lane w) \<Longrightarrow>
     take_startable p (ws_lane w) = (starts, should_exit, s, signals) \<Longrightarrow>
     spawn_step p w (w\<lparr>ws_base := (ws_base w)\<lparr>sys_lane := s, sys_monitors := sys_monitors (ws_base w) @ starts,
       sys_dispatches := sys_dispatches (ws_base w) + length starts\<rparr>\<rparr>)"
| spawn_finished:
    "i \<in> set (sys_monitors (ws_base w)) \<Longrightarrow> execution_finished i (ws_lane w) = (s, signals) \<Longrightarrow>
     spawn_step p w (w\<lparr>ws_base := (ws_base w)\<lparr>sys_lane := s, sys_monitors := removeAll i (sys_monitors (ws_base w))\<rparr>\<rparr>)"
| spawn_closed:
    "lane_request_close (ws_lane w) = (controls, s, signals) \<Longrightarrow>
     spawn_step p w (w\<lparr>ws_base := (ws_base w)\<lparr>sys_lane := s\<rparr>\<rparr>)"
| spawn_stopped:
    "dispatcher_stopped (ws_lane w) = (s, signals) \<Longrightarrow>
     spawn_step p w (w\<lparr>ws_base := (ws_base w)\<lparr>sys_lane := s\<rparr>\<rparr>)"

text \<open>Every step of the producers' system is a step of the lane or leaves the lane alone.\<close>

lemma spawn_step_lane:
  assumes "spawn_step p w w'"
  shows "ws_base w' = ws_base w \<or> lane_step p (ws_base w) (ws_base w')"
  using assms
proof cases
  case (spawn_waits ticket s)
  then show ?thesis using lane_step.lane_waiter_new [of p "ws_base w"] by simp
next
  case (spawn_succeeds ticket i options u s)
  then show ?thesis using lane_step.lane_insert [of i "ws_base w" options p "Some ticket"] by simp
next
  case (spawn_woken ticket)
  then show ?thesis using lane_step.lane_waiter_wakes [of p "ws_base w" ticket] by simp
next
  case (spawn_leaves ticket s signals)
  then show ?thesis using lane_step.lane_waiter_finish [of p ticket "ws_base w"] by simp
next
  case (spawn_direct i options res s)
  then show ?thesis using lane_step.lane_insert [of i "ws_base w" options p None] by simp
next
  case (spawn_removed i s signals)
  then show ?thesis using lane_step.lane_remove [of i "ws_base w"] by simp
next
  case (spawn_dispatched starts should_exit s signals)
  then show ?thesis using lane_step.lane_take [of "ws_base w" p] by simp
next
  case (spawn_finished i s signals)
  then show ?thesis using lane_step.lane_finished [of i "ws_base w"] by simp
next
  case (spawn_closed controls s signals)
  then show ?thesis using lane_step.lane_close [of "ws_base w"] by simp
next
  case (spawn_stopped s signals)
  then show ?thesis using lane_step.lane_stopped [of "ws_base w"] by simp
qed simp

section \<open>No lost wake-up\<close>

definition has_room :: "lane_params \<Rightarrow> lane_state \<Rightarrow> bool" where
  "has_room p s \<longleftrightarrow> \<not> ls_closing s \<and> length (ls_entries s) < unat (cfg_capacity (lp_config p))"

definition head_enabled :: "waiter_sys \<Rightarrow> bool" where
  "head_enabled w \<longleftrightarrow>
     (case ls_waiting_queue (ws_lane w) of
        [] \<Rightarrow> True
      | (ticket, permit) # _ \<Rightarrow> permit \<or> ticket \<in> set (ws_trying w) \<or> ticket \<in> set (ws_leaving w))"

definition waiters_inv :: "lane_params \<Rightarrow> waiter_sys \<Rightarrow> bool" where
  "waiters_inv p w \<longleftrightarrow> lane_inv p (ws_base w) \<and> (has_room p (ws_lane w) \<longrightarrow> head_enabled w)"

definition head_notified :: "lane_state \<Rightarrow> bool" where
  "head_notified s \<longleftrightarrow> (case ls_waiting_queue s of [] \<Rightarrow> True | (_, permit) # _ \<Rightarrow> permit)"

lemma head_notified_enabled: "head_notified (ws_lane w) \<Longrightarrow> head_enabled w"
  by (auto simp: head_notified_def head_enabled_def split: list.splits)

lemma notify_head_notified: "head_notified (notify_waiting_head s)"
  by (cases "ls_waiting_queue s")
     (auto simp: head_notified_def notify_waiting_head_def notify_waiting_producer_def)

lemma remove_queued_room:
  assumes "remove_queued i s = (s', signals)"
  shows "s' = s \<or> head_notified s'"
  using assms notify_head_notified
  by (auto simp: remove_queued_def remove_queued_locked_def Let_def split: option.splits)

lemma dispatch_once_break: "dispatch_once p s = DispatchBreak s' \<Longrightarrow> s' = s \<or> ls_closing s'"
  by (auto simp: dispatch_once_def dispatch_selected_def Let_def split: if_splits option.splits prod.splits)

lemma take_startable_room:
  assumes "take_startable p s = (starts, should_exit, s', signals)"
  shows "s' = s \<or> ls_closing s' \<or> head_notified s'"
proof (cases "starts = []")
  case False
  with assms notify_head_notified show ?thesis
    by (auto simp: take_startable_def Let_def split: prod.splits if_splits)
next
  case True
  with assms obtain s1 where "dispatch_loop p s = ([], s1)" "s' = s1"
    by (auto simp: take_startable_def Let_def split: prod.splits if_splits)
  then show ?thesis
    using dispatch_once_break [of p s]
    by (auto simp: dispatch_loop.simps [of p s] split: dispatch_iteration.splits prod.splits)
qed

lemma waiters_inv_init: "waiters_init w \<Longrightarrow> waiters_inv p w"
  by (auto simp: waiters_init_def waiters_inv_def lane_inv_init head_enabled_def lane_init_def lane_state_new_def)

lemma head_enabled_same:
  assumes "has_room p (ws_lane w) \<longrightarrow> head_enabled w"
    and "ls_waiting_queue (ws_lane w') = ls_waiting_queue (ws_lane w)"
    and "ls_entries (ws_lane w') = ls_entries (ws_lane w)" and "ls_closing (ws_lane w') = ls_closing (ws_lane w)"
    and "set (ws_trying w) \<subseteq> set (ws_trying w')" and "set (ws_leaving w) \<subseteq> set (ws_leaving w')"
  shows "has_room p (ws_lane w') \<longrightarrow> head_enabled w'"
  using assms by (auto simp: has_room_def head_enabled_def split: list.splits)

lemma closing_no_room: "ls_closing s \<Longrightarrow> \<not> has_room p s"
  by (simp add: has_room_def)

lemma notify_all_closing: "ls_closing (notify_all_waiting_producers s) = ls_closing s"
  by (rule same_but_permits_fields [OF same_but_permits_ops(2)])

lemma insert_full_head:
  assumes "insert_locked p i options (Some ticket) s = (Inl SpQueueFull, s')" and "has_room p s"
  shows "first_key (ls_waiting_queue s) \<noteq> Some ticket"
  using assms
  by (auto simp: insert_locked_def has_room_def ticket_refused_def next_key_refcount_def
      split: if_splits option.splits sum.splits)

lemma waiters_inv_step:
  assumes inv: "waiters_inv p w" and step: "spawn_step p w w'"
  shows "waiters_inv p w'"
proof -
  from inv have base: "lane_inv p (ws_base w)" and room: "has_room p (ws_lane w) \<longrightarrow> head_enabled w"
    by (simp_all add: waiters_inv_def)
  from base have wi: "waiter_inv p (ws_lane w)" by (simp add: lane_inv_def state_inv_def)
  have "has_room p (ws_lane w') \<longrightarrow> head_enabled w'"
    using step
  proof cases
    case (spawn_waits ticket s)
    have "ls_waiting_queue s = ls_waiting_queue (ws_lane w) @ [(ticket, False)]"
      and "ls_entries s = ls_entries (ws_lane w)" "ls_closing s = ls_closing (ws_lane w)"
      using spawn_waits(2) wi btree_insert_last [of "ls_waiting_queue (ws_lane w)" ticket False]
      by (auto simp: waiter_new_def Let_def waiter_inv_def split: if_splits option.splits)
    with room spawn_waits(1) show ?thesis
      by (auto simp: has_room_def head_enabled_def split: list.splits)
  next
    case (spawn_succeeds ticket i options u s)
    then have wq: "ls_waiting_queue s = ls_waiting_queue (ws_lane w)"
      and head: "first_key (ls_waiting_queue (ws_lane w)) = Some ticket"
      by (auto simp: insert_locked_def ticket_refused_def split: if_splits option.splits sum.splits)
    with spawn_succeeds(1) show ?thesis
      by (auto simp: head_enabled_def split: list.splits)
  next
    case (spawn_queue_full ticket i options s)
    with room insert_full_head [OF spawn_queue_full(3)] show ?thesis
      by (auto simp: head_enabled_def split: list.splits)
  next
    case (spawn_woken ticket)
    with room show ?thesis
      by (auto simp: has_room_def head_enabled_def consume_permit_def split: list.splits)
  next
    case (spawn_leaves ticket s signals)
    show ?thesis
    proof (cases "first_key (ls_waiting_queue (ws_lane w)) = Some ticket")
      case True
      then obtain permit rest where wq: "ls_waiting_queue (ws_lane w) = (ticket, permit) # rest"
        by (cases "ls_waiting_queue (ws_lane w)") auto
      with wi have "ticket \<notin> set (keys rest)" by (auto simp: waiter_inv_def)
      with wq have "AList.delete ticket (ls_waiting_queue (ws_lane w)) = rest"
        by (simp add: delete_notin)
      with spawn_leaves(2) wq have "head_notified s"
        by (cases rest) (auto simp: waiter_finish_def waiter_finish_locked_def Let_def head_notified_def
            notify_waiting_producer_def split: option.splits)
      with spawn_leaves(1) head_notified_enabled [of w'] show ?thesis by simp
    next
      case False
      with spawn_leaves(2) have s: "ls_entries s = ls_entries (ws_lane w)" "ls_closing s = ls_closing (ws_lane w)"
        "ls_waiting_queue s = AList.delete ticket (ls_waiting_queue (ws_lane w))"
        by (auto simp: waiter_finish_def waiter_finish_locked_def Let_def split: option.splits)
      show ?thesis
      proof (cases "ls_waiting_queue (ws_lane w)")
        case Nil
        with s(3) spawn_leaves(1) show ?thesis by (simp add: head_enabled_def)
      next
        case (Cons q rest)
        with False s room spawn_leaves(1) show ?thesis
          by (cases q) (auto simp: has_room_def head_enabled_def)
      qed
    qed
  next
    case (spawn_direct i options res s)
    have "s = ws_lane w \<or> ls_waiting_queue s = []"
      using spawn_direct(5) by (auto simp: insert_locked_def ticket_refused_def split: if_splits option.splits sum.splits)
    with head_enabled_same [OF room, of w'] spawn_direct(1) show ?thesis by (auto simp: head_enabled_def)
  next
    case (spawn_removed i s signals)
    with head_enabled_same [OF room, of w'] remove_queued_room [OF spawn_removed(2)]
      head_notified_enabled [of w'] show ?thesis by auto
  next
    case (spawn_dispatched starts should_exit s signals)
    with head_enabled_same [OF room, of w'] take_startable_room [OF spawn_dispatched(3)]
      head_notified_enabled [of w'] closing_no_room show ?thesis by auto
  next
    case (spawn_finished i s signals)
    then have "ls_waiting_queue s = ls_waiting_queue (ws_lane w)" "ls_entries s = ls_entries (ws_lane w)"
      "ls_closing s = ls_closing (ws_lane w)"
      by (auto simp: execution_finished_def Let_def split: option.splits if_splits)
    with spawn_finished(1) show ?thesis by (intro head_enabled_same [OF room]) simp_all
  next
    case (spawn_closed controls s signals)
    then have "ls_closing s" by (auto simp: lane_request_close_def Let_def notify_all_closing)
    with spawn_closed(1) closing_no_room show ?thesis by simp
  next
    case (spawn_stopped s signals)
    then have "ls_closing s" by (auto simp: dispatcher_stopped_def Let_def notify_all_closing)
    with spawn_stopped(1) closing_no_room show ?thesis by simp
  qed
  with spawn_step_lane [OF step] lane_inv_step [OF base] base show ?thesis
    by (auto simp: waiters_inv_def)
qed

interpretation waiters: invariant_system waiters_init "spawn_step p" "waiters_inv p"
  by unfold_locales (auto intro: waiters_inv_init waiters_inv_step)

section \<open>Properties\<close>

text \<open>
  C7. No wake-up of a waiting producer is lost: in every reachable state of the lane and its
  producers, if the lane is open and has room while producers wait, then the producer at the head
  has an unconsumed notification, is already on its way to its next attempt, or has just inserted and
  is about to hand over; and its attempt with its ticket is not refused as full.
\<close>

theorem no_lost_wakeup:
  assumes "reach waiters_init (spawn_step p) w" and "has_room p (ws_lane w)"
    and "ls_waiting_queue (ws_lane w) = (ticket, permit) # rest"
  shows "(permit \<or> ticket \<in> set (ws_trying w) \<or> ticket \<in> set (ws_leaving w))
    \<and> fst (insert_locked p i options (Some ticket) (ws_lane w)) \<noteq> Inl SpQueueFull"
proof
  show "permit \<or> ticket \<in> set (ws_trying w) \<or> ticket \<in> set (ws_leaving w)"
    using waiters.reach_inv [OF assms(1)] assms(2,3) by (simp add: waiters_inv_def head_enabled_def)
  show "fst (insert_locked p i options (Some ticket) (ws_lane w)) \<noteq> Inl SpQueueFull"
  proof
    assume full: "fst (insert_locked p i options (Some ticket) (ws_lane w)) = Inl SpQueueFull"
    then obtain s' where "insert_locked p i options (Some ticket) (ws_lane w) = (Inl SpQueueFull, s')"
      by (metis prod.collapse)
    from insert_full_head [OF this assms(2)] assms(3) show False by simp
  qed
qed

text \<open>A lane with room for one whose only waiting producer has just got its ticket.\<close>

definition room_params :: lane_params where
  "room_params = \<lparr>lp_config = \<lparr>cfg_name = ''w'', cfg_capacity = 1, cfg_concurrency = 1, cfg_lifetime = ExecutorLifetime\<rparr>,
     lp_max_waiting_producers = 2, lp_max_ordering_keys = 1\<rparr>"

definition wait0 :: waiter_sys where
  "wait0 = \<lparr>ws_base = \<lparr>sys_lane = lane_state_new, sys_monitors = [], sys_dispatches = 0\<rparr>, ws_trying = [], ws_leaving = []\<rparr>"

definition wait1 :: waiter_sys where
  "wait1 = wait0\<lparr>ws_base := (ws_base wait0)\<lparr>sys_lane := snd (waiter_new room_params (ws_lane wait0))\<rparr>, ws_trying := [0]\<rparr>"

lemma wait_reach: "reach waiters_init (spawn_step room_params) wait1"
proof -
  have "waiters_init wait0" by (simp add: waiters_init_def wait0_def lane_init_def)
  moreover have "spawn_step room_params wait0 wait1"
    using spawn_step.spawn_waits [of room_params wait0 0 "snd (waiter_new room_params (ws_lane wait0))"]
    by (simp add: wait1_def wait0_def waiter_new_def lane_state_new_def room_params_def checked_add_def Let_def)
  ultimately show ?thesis by (blast intro: reach_init reach_step)
qed

theorem no_lost_wakeup_witness:
  "fst (insert_locked room_params 1 default_options (Some 0) (ws_lane wait1)) \<noteq> Inl SpQueueFull"
  using no_lost_wakeup [OF wait_reach, of 0 False "[]" 1 default_options]
  by (simp add: wait1_def wait0_def waiter_new_def lane_state_new_def room_params_def checked_add_def has_room_def Let_def)

end
