(* ===== verification/BB_Range.thy ===== *)
theory BB_Range
  imports BB_Types "HOL-Library.Product_Lexorder"
begin

text \<open>
  The range interval task (\<open>range_interval_task.rs\<close>): the builder, the compilation of overlapping
  attempt ranges into an adaptive delay lookup (a sweep over the range boundaries with a heap of
  active ranges), and the lookup.  The result: the compiled lookup agrees, at every attempt index,
  with the documented rule that the last range added that contains the index decides and an
  index in no range has no delay.

  Positions are natural numbers: the code widens \<open>u32\<close> attempt numbers to \<open>u64\<close> first, so no position
  overflows.  A binary heap is the list of its elements from the greatest down; a slice's partition
  point is the length of its longest prefix that satisfies the predicate.
\<close>

section \<open>Ranges and the builder\<close>

record range_spec =
  rs_start_inclusive :: u32
  rs_end_inclusive :: u32
  rs_duration_millis :: u64

record range_delay_segment =
  seg_start_inclusive :: nat
  seg_end_exclusive :: nat
  seg_duration_millis :: u64

datatype (plugins only: size) range_intervals =
    Dense "u64 list"
  | Segments "range_delay_segment list"

record range_interval_builder =
  rib_work :: "work_ref option"
  rib_total_retries :: u32
  rib_ranges :: "range_spec list"
  rib_tag :: "string option"
  rib_listener :: "listener_ref option"

definition range_builder_new :: "work_ref \<Rightarrow> u32 \<Rightarrow> range_interval_builder" where
  "range_builder_new work total_retries =
     \<lparr>rib_work = Some work, rib_total_retries = total_retries, rib_ranges = [], rib_tag = None, rib_listener = None\<rparr>"

text \<open>A duration beyond \<open>u64::MAX\<close> milliseconds is capped.\<close>

definition duration_to_millis :: "duration \<Rightarrow> u64" where
  "duration_to_millis d = (let millis = d div 1000000 in if millis < 2 ^ 64 then of_nat millis else - 1)"

definition add_range :: "u32 \<Rightarrow> u32 \<Rightarrow> duration \<Rightarrow> range_interval_builder \<Rightarrow> range_interval_builder" where
  "add_range start_inclusive end_inclusive d b =
     b\<lparr>rib_ranges := rib_ranges b @
         [\<lparr>rs_start_inclusive = start_inclusive, rs_end_inclusive = end_inclusive,
           rs_duration_millis = duration_to_millis d\<rparr>]\<rparr>"

section \<open>Compilation\<close>

text \<open>A normalized range is \<open>(start, end_exclusive, priority, duration)\<close>.\<close>

type_synonym normalized_range = "nat \<times> nat \<times> nat \<times> u64"

definition range_end :: "nat \<Rightarrow> range_spec \<Rightarrow> nat" where
  "range_end total' r = min (unat (rs_end_inclusive r) + 1) total'"

primrec normalize_ranges ::
  "nat \<Rightarrow> (nat \<times> range_spec) list \<Rightarrow> normalized_range list \<times> nat list" where
  "normalize_ranges total' [] = ([], [])"
| "normalize_ranges total' (pr # prs) =
     (let start = unat (rs_start_inclusive (snd pr));
          end_exclusive = range_end total' (snd pr);
          (normalized, boundaries) = normalize_ranges total' prs
      in if end_exclusive \<le> start then (normalized, boundaries)
         else ((start, end_exclusive, fst pr, rs_duration_millis (snd pr)) # normalized,
               start # end_exclusive # boundaries))"

primrec heap_push :: "'a::linorder \<Rightarrow> 'a list \<Rightarrow> 'a list" where
  "heap_push x [] = [x]"
| "heap_push x (y # ys) = (if y \<le> x then x # y # ys else y # heap_push x ys)"

type_synonym active_range = "nat \<times> nat \<times> u64"

fun push_started ::
  "nat \<Rightarrow> normalized_range list \<Rightarrow> active_range list \<Rightarrow> normalized_range list \<times> active_range list" where
  "push_started start [] active = ([], active)"
| "push_started start ((range_start, range_end', priority, dur) # rest) active =
     (if range_start \<le> start then push_started start rest (heap_push (priority, range_end', dur) active)
      else ((range_start, range_end', priority, dur) # rest, active))"

definition pop_ended :: "nat \<Rightarrow> active_range list \<Rightarrow> active_range list" where
  "pop_ended start active = dropWhile (\<lambda>(_, range_end', _). range_end' \<le> start) active"

definition add_segment ::
  "nat \<Rightarrow> nat \<Rightarrow> u64 \<Rightarrow> range_delay_segment list \<Rightarrow> range_delay_segment list" where
  "add_segment start end_exclusive dur segments =
     (if dur = 0 \<or> end_exclusive \<le> start then segments
      else if segments \<noteq> [] \<and> seg_end_exclusive (last segments) = start
              \<and> seg_duration_millis (last segments) = dur
      then butlast segments @ [(last segments)\<lparr>seg_end_exclusive := end_exclusive\<rparr>]
      else segments @ [\<lparr>seg_start_inclusive = start, seg_end_exclusive = end_exclusive,
                        seg_duration_millis = dur\<rparr>])"

fun sweep ::
  "nat list \<Rightarrow> normalized_range list \<Rightarrow> active_range list \<Rightarrow> range_delay_segment list
   \<Rightarrow> range_delay_segment list" where
  "sweep (start # end_exclusive # boundaries) rest active segments =
     (let (rest', pushed) = push_started start rest active;
          active' = pop_ended start pushed;
          dur = (case active' of [] \<Rightarrow> 0 | (_, _, d) # _ \<Rightarrow> d)
      in sweep (end_exclusive # boundaries) rest' active' (add_segment start end_exclusive dur segments))"
| "sweep _ rest active segments = segments"

definition compile_segments :: "nat \<Rightarrow> range_spec list \<Rightarrow> range_delay_segment list" where
  "compile_segments total' ranges =
     (let (normalized, bounds) = normalize_ranges total' (List.enumerate 0 ranges);
          sorted_ranges = sort_key (\<lambda>(start, _, priority, _). (start, priority)) normalized;
          boundaries = remdups_adj (sort (0 # total' # bounds))
      in sweep boundaries sorted_ranges [] [])"

text \<open>Filling \<open>start..end\<close> of the dense table; None when the slice does not exist.\<close>

definition fill :: "range_delay_segment \<Rightarrow> u64 list \<Rightarrow> u64 list option" where
  "fill segment dense =
     (if seg_start_inclusive segment \<le> seg_end_exclusive segment \<and> seg_end_exclusive segment \<le> length dense
      then Some (take (seg_start_inclusive segment) dense
                 @ replicate (seg_end_exclusive segment - seg_start_inclusive segment) (seg_duration_millis segment)
                 @ drop (seg_end_exclusive segment) dense)
      else None)"

primrec fill_all :: "range_delay_segment list \<Rightarrow> u64 list \<Rightarrow> u64 list option" where
  "fill_all [] dense = Some dense"
| "fill_all (segment # segments) dense =
     (case fill segment dense of None \<Rightarrow> None | Some dense' \<Rightarrow> fill_all segments dense')"

text \<open>The sizes in bytes of a dense entry and of a segment.\<close>

definition dense_entry_bytes :: nat where "dense_entry_bytes = 8"
definition segment_entry_bytes :: nat where "segment_entry_bytes = 24"

definition compile_intervals :: "u32 \<Rightarrow> range_spec list \<Rightarrow> range_intervals" where
  "compile_intervals total_retries ranges =
     (let total' = unat total_retries in
      if total' = 0 then Dense []
      else
        let segments = compile_segments total' ranges in
        if total' \<le> 4096 \<or> total' * dense_entry_bytes \<le> length segments * segment_entry_bytes
        then case fill_all segments (replicate total' 0) of
               Some dense \<Rightarrow> Dense dense
             | None \<Rightarrow> Segments segments
        else Segments segments)"

section \<open>Lookup\<close>

definition partition_point :: "('a \<Rightarrow> bool) \<Rightarrow> 'a list \<Rightarrow> nat" where
  "partition_point pred xs = length (takeWhile pred xs)"

fun delay_at :: "range_intervals \<Rightarrow> nat \<Rightarrow> u64" where
  "delay_at (Dense intervals) i = (if i < length intervals then intervals ! i else 0)"
| "delay_at (Segments segments) i =
     (let position = partition_point (\<lambda>s. seg_start_inclusive s \<le> i) segments in
      if position = 0 then 0
      else if position - 1 < length segments
      then (let segment = segments ! (position - 1)
            in if i < seg_end_exclusive segment then seg_duration_millis segment else 0)
      else 0)"

record range_interval_task =
  rit_id :: task_id
  rit_work :: work_ref
  rit_total_retries :: u32
  rit_intervals :: range_intervals
  rit_tag :: "string option"
  rit_listener :: "listener_ref option"

definition interval_millis :: "range_interval_task \<Rightarrow> nat \<Rightarrow> u64 option" where
  "interval_millis t attempt_index =
     (if unat (rit_total_retries t) \<le> attempt_index then None
      else Some (delay_at (rit_intervals t) attempt_index))"

definition range_build :: "task_id \<Rightarrow> range_interval_builder \<Rightarrow> beaver_error + range_interval_task" where
  "range_build fresh b =
     (case rib_work b of
        None \<Rightarrow> Inl (BuilderMissingField ''work'')
      | Some work \<Rightarrow>
          if unat (rib_total_retries b) < length (rib_ranges b)
          then Inl (RangeIntervalRangesExceedTotal (rib_total_retries b) (of_nat (length (rib_ranges b))))
          else Inr \<lparr>rit_id = fresh, rit_work = work, rit_total_retries = rib_total_retries b,
                     rit_intervals = compile_intervals (rib_total_retries b) (rib_ranges b),
                     rit_tag = rib_tag b, rit_listener = rib_listener b\<rparr>)"

section \<open>The rule of the documentation\<close>

text \<open>The last range that contains the index decides; none gives no delay.\<close>

definition contains_index :: "range_spec \<Rightarrow> nat \<Rightarrow> bool" where
  "contains_index r i \<longleftrightarrow> unat (rs_start_inclusive r) \<le> i \<and> i \<le> unat (rs_end_inclusive r)"

definition later_wins :: "range_spec list \<Rightarrow> nat \<Rightarrow> u64" where
  "later_wins ranges i = foldl (\<lambda>delay r. if contains_index r i then rs_duration_millis r else delay) 0 ranges"

lemma later_wins_None: "\<forall>r \<in> set ranges. \<not> contains_index r i \<Longrightarrow> later_wins ranges i = 0"
  unfolding later_wins_def by (induction ranges rule: rev_induct) auto

lemma later_wins_last:
  assumes "p < length ranges" and "contains_index (ranges ! p) i"
    and "\<forall>q < length ranges. contains_index (ranges ! q) i \<longrightarrow> q \<le> p"
  shows "later_wins ranges i = rs_duration_millis (ranges ! p)"
  using assms
proof (induction ranges rule: rev_induct)
  case (snoc r ranges)
  show ?case
  proof (cases "p = length ranges")
    case True
    with snoc.prems show ?thesis by (simp add: later_wins_def)
  next
    case False
    with snoc.prems have p: "p < length ranges" and "\<not> contains_index r i"
      by (auto dest!: spec [of _ "length ranges"])
    moreover have "later_wins ranges i = rs_duration_millis (ranges ! p)"
      using snoc.prems p by (intro snoc.IH) (auto simp: nth_append dest!: spec)
    ultimately show ?thesis using p by (simp add: later_wins_def nth_append)
  qed
qed simp

section \<open>Normalized ranges\<close>

lemma set_normalized:
  "set (fst (normalize_ranges total' prs)) =
     {(s, e, p, d). \<exists>r. (p, r) \<in> set prs \<and> s = unat (rs_start_inclusive r) \<and> e = range_end total' r
        \<and> d = rs_duration_millis r \<and> s < e}"
  by (induction prs) (auto simp: Let_def case_prod_beta not_le split: if_splits)

lemma set_boundaries:
  "set (snd (normalize_ranges total' prs)) =
     {b. \<exists>(s, e, p, d) \<in> set (fst (normalize_ranges total' prs)). b = s \<or> b = e}"
  by (induction prs) (auto simp: Let_def case_prod_beta split: if_splits)

text \<open>What the normalized ranges that contain an index say about the rule.\<close>

definition normalized :: "nat \<Rightarrow> range_spec list \<Rightarrow> normalized_range set" where
  "normalized total' ranges = set (fst (normalize_ranges total' (List.enumerate 0 ranges)))"

lemma normalized_rule:
  assumes "i < total'"
  shows "(\<forall>(s, e, p, d) \<in> normalized total' ranges. \<not> (s \<le> i \<and> i < e)) \<Longrightarrow> later_wins ranges i = 0"
    and "(s, e, p, d) \<in> normalized total' ranges \<Longrightarrow> s \<le> i \<Longrightarrow> i < e \<Longrightarrow>
      (\<And>s' e' p' d'. (s', e', p', d') \<in> normalized total' ranges \<Longrightarrow> s' \<le> i \<Longrightarrow> i < e' \<Longrightarrow> p' \<le> p) \<Longrightarrow>
      later_wins ranges i = d"
proof -
  have iff: "(\<exists>s e d. (s, e, p, d) \<in> normalized total' ranges \<and> s \<le> i \<and> i < e)
      \<longleftrightarrow> p < length ranges \<and> contains_index (ranges ! p) i" for p
    using assms by (auto simp: normalized_def set_normalized in_set_enumerate_eq contains_index_def range_end_def)
  show "later_wins ranges i = 0" if "\<forall>(s, e, p, d) \<in> normalized total' ranges. \<not> (s \<le> i \<and> i < e)"
  proof (rule later_wins_None, rule ballI)
    fix r assume "r \<in> set ranges"
    then obtain q where "q < length ranges" "r = ranges ! q" by (auto simp: in_set_conv_nth)
    with that iff [of q] show "\<not> contains_index r i" by fastforce
  qed
  show "later_wins ranges i = d" if m: "(s, e, p, d) \<in> normalized total' ranges" "s \<le> i" "i < e"
    and top: "\<And>s' e' p' d'. (s', e', p', d') \<in> normalized total' ranges \<Longrightarrow> s' \<le> i \<Longrightarrow> i < e' \<Longrightarrow> p' \<le> p"
  proof -
    from m iff [of p] have p: "p < length ranges" "contains_index (ranges ! p) i" by blast+
    have "d = rs_duration_millis (ranges ! p)"
      using m(1) by (auto simp: normalized_def set_normalized in_set_enumerate_eq)
    moreover have "\<forall>q < length ranges. contains_index (ranges ! q) i \<longrightarrow> q \<le> p"
      using iff top by blast
    ultimately show ?thesis using later_wins_last [OF p] by simp
  qed
qed

section \<open>The sweep\<close>

lemma set_heap_push: "set (heap_push x h) = insert x (set h)"
  by (induction h) auto

lemma sorted_heap_push: "sorted_wrt (\<ge>) h \<Longrightarrow> sorted_wrt (\<ge>) (heap_push x h)"
  by (induction h) (auto simp: set_heap_push)

text \<open>The windows seen so far are handled; \<open>a\<close> is the next boundary.\<close>

definition sweep_state ::
  "normalized_range set \<Rightarrow> nat \<Rightarrow> normalized_range list \<Rightarrow> active_range list \<Rightarrow> bool" where
  "sweep_state N a rest active \<longleftrightarrow>
     sorted_wrt (\<lambda>x y. fst x \<le> fst y) rest \<and> set rest \<subseteq> N \<and> sorted_wrt (\<ge>) active
     \<and> (\<forall>(s, e, p, d) \<in> N - set rest. (p, e, d) \<in> set active \<or> e \<le> a)
     \<and> (\<forall>(p, e, d) \<in> set active. \<exists>s \<le> a. (s, e, p, d) \<in> N)"

lemma push_started_state:
  assumes "push_started a rest active = (rest', active')" and "sweep_state N a rest active"
  shows "sweep_state N a rest' active' \<and> (\<forall>(s, e, p, d) \<in> set rest'. a < s)"
  using assms
proof (induction a rest active rule: push_started.induct)
  case (2 a s e p d rest active)
  show ?case
  proof (cases "s \<le> a")
    case True
    with "2.prems"(2) have "sweep_state N a rest (heap_push (p, e, d) active)"
      by (fastforce simp: sweep_state_def set_heap_push sorted_heap_push)
    with "2.IH" [OF True] "2.prems"(1) True show ?thesis by simp
  next
    case False
    with "2.prems" show ?thesis by (fastforce simp: sweep_state_def)
  qed
qed (auto simp: sweep_state_def)

lemma sweep_state_pop:
  assumes "sweep_state N a rest active"
  shows "sweep_state N a rest (pop_ended a active)"
    and "pop_ended a active = (p, e, d) # h \<Longrightarrow> a < e"
proof -
  let ?P = "\<lambda>x :: active_range. fst (snd x) \<le> a"
  have pop: "pop_ended a active = dropWhile ?P active"
    by (simp add: pop_ended_def case_prod_unfold)
  have split: "takeWhile ?P active @ dropWhile ?P active = active" by (rule takeWhile_dropWhile_id)
  have "\<forall>x \<in> set (takeWhile ?P active). ?P x" by (auto dest: set_takeWhileD)
  then have alive: "x \<in> set (dropWhile ?P active) \<or> ?P x" if "x \<in> set active" for x
    using that split by (metis Un_iff set_append)
  have "sorted_wrt (\<ge>) (takeWhile ?P active @ dropWhile ?P active)"
    using assms unfolding split by (simp add: sweep_state_def)
  then have "sorted_wrt (\<ge>) (dropWhile ?P active)" by (simp only: sorted_wrt_append)
  with assms alive show "sweep_state N a rest (pop_ended a active)"
    unfolding sweep_state_def pop by (fastforce dest: set_dropWhileD)
  show "a < e" if "pop_ended a active = (p, e, d) # h"
    using that hd_dropWhile [of ?P active] unfolding pop by (metis fst_conv list.sel(1) list.distinct(1) not_le snd_conv)
qed

lemma sweep_state_mono:
  assumes "sweep_state N a rest active" and "a \<le> b"
  shows "sweep_state N b rest active"
proof -
  have seen: "\<forall>(s, e, p, d) \<in> N - set rest. (p, e, d) \<in> set active \<or> e \<le> a"
    and started: "\<forall>(p, e, d) \<in> set active. \<exists>s \<le> a. (s, e, p, d) \<in> N"
    using assms(1) by (simp_all add: sweep_state_def)
  have "(p, e, d) \<in> set active \<or> e \<le> b" if "(s, e, p, d) \<in> N - set rest" for s e p d
    using bspec [OF seen that] assms(2) by auto
  moreover have "\<exists>s \<le> b. (s, e, p, d) \<in> N" if "(p, e, d) \<in> set active" for p e d
    using bspec [OF started that] assms(2) by (auto intro: le_trans)
  ultimately show ?thesis using assms(1) by (auto simp: sweep_state_def)
qed

text \<open>No boundary lies strictly inside a window, so a window is decided at its start.\<close>

definition bounded_by :: "nat set \<Rightarrow> normalized_range set \<Rightarrow> bool" where
  "bounded_by B N \<longleftrightarrow> (\<forall>(s, e, p, d) \<in> N. s \<in> B \<and> e \<in> B)"

lemma window_delay:
  assumes st: "sweep_state N a rest active" and rest: "\<forall>(s, e, p, d) \<in> set rest. a < s"
    and popped: "active = [] \<or> (\<exists>p e d h. active = (p, e, d) # h \<and> a < e)"
    and N: "N = normalized total' ranges" and B: "bounded_by B N" and gap: "\<forall>x \<in> B. x \<le> a \<or> b \<le> x"
    and i: "a \<le> i" "i < b" "i < total'"
  shows "later_wins ranges i = (case active of [] \<Rightarrow> 0 | (_, _, d) # _ \<Rightarrow> d)"
proof -
  have at_start: "s \<le> i \<and> i < e \<longleftrightarrow> s \<le> a \<and> a < e" if "(s, e, p, d) \<in> N" for s e p d
    using B gap i that unfolding bounded_by_def by (metis (no_types, lifting) case_prodD le_trans not_le order.strict_trans1)
  have act: "(p, e, d) \<in> set active" if "(s, e, p, d) \<in> N" "s \<le> a" "a < e" for s e p d
  proof -
    have "(s, e, p, d) \<notin> set rest" using rest that(2) by fastforce
    with st that show ?thesis by (fastforce simp: sweep_state_def)
  qed
  show ?thesis
  proof (cases active)
    case Nil
    have "\<forall>(s, e, p, d) \<in> N. \<not> (s \<le> i \<and> i < e)" using act at_start Nil by fastforce
    with normalized_rule(1) [OF i(3)] Nil show ?thesis by (simp add: N)
  next
    case (Cons x h)
    with popped obtain p e d where active: "active = (p, e, d) # h" and "a < e" by auto
    with st obtain s where top: "(s, e, p, d) \<in> N" "s \<le> a" by (auto simp: sweep_state_def)
    have "p' \<le> p" if "(s', e', p', d') \<in> N" "s' \<le> i" "i < e'" for s' e' p' d'
    proof -
      from that at_start act have "(p', e', d') \<in> set active" by blast
      with active st have "(p', e', d') \<le> (p, e, d)" by (auto simp: sweep_state_def)
      then show ?thesis by auto
    qed
    with normalized_rule(2) [OF i(3)] top at_start \<open>a < e\<close> have "later_wins ranges i = d"
      unfolding N by blast
    with active show ?thesis by simp
  qed
qed

section \<open>Segments\<close>

definition segment_covers :: "range_delay_segment \<Rightarrow> nat \<Rightarrow> bool" where
  "segment_covers s i \<longleftrightarrow> seg_start_inclusive s \<le> i \<and> i < seg_end_exclusive s"

text \<open>Ordered, non-empty segments that end at \<open>a\<close> at the latest and say what the rule says below \<open>a\<close>.\<close>

definition segments_ok :: "(nat \<Rightarrow> u64) \<Rightarrow> nat \<Rightarrow> range_delay_segment list \<Rightarrow> bool" where
  "segments_ok f a segs \<longleftrightarrow>
     sorted_wrt (\<lambda>x y. seg_end_exclusive x \<le> seg_start_inclusive y) segs
     \<and> (\<forall>s \<in> set segs. seg_start_inclusive s < seg_end_exclusive s \<and> seg_end_exclusive s \<le> a)
     \<and> (\<forall>i < a. (\<forall>s \<in> set segs. segment_covers s i \<longrightarrow> f i = seg_duration_millis s)
               \<and> ((\<forall>s \<in> set segs. \<not> segment_covers s i) \<longrightarrow> f i = 0))"

lemma segments_ok_add:
  assumes ok: "segments_ok f a segs" and f: "\<forall>i. a \<le> i \<and> i < b \<longrightarrow> f i = dur" and ab: "a < b"
  shows "segments_ok f b (add_segment a b dur segs)"
proof -
  have out: "\<not> segment_covers s i" if "s \<in> set segs" "a \<le> i" for s i
    using ok that by (auto simp: segments_ok_def segment_covers_def)
  show ?thesis
  proof (cases "dur = 0")
    case True
    then have "add_segment a b dur segs = segs" by (simp add: add_segment_def)
    moreover have "(\<forall>s \<in> set segs. segment_covers s i \<longrightarrow> f i = seg_duration_millis s)
        \<and> ((\<forall>s \<in> set segs. \<not> segment_covers s i) \<longrightarrow> f i = 0)" if "i < b" for i
    proof (cases "i < a")
      case True
      with ok show ?thesis by (simp add: segments_ok_def)
    next
      case False
      with f out that \<open>dur = 0\<close> show ?thesis by auto
    qed
    moreover have "\<forall>s \<in> set segs. seg_start_inclusive s < seg_end_exclusive s \<and> seg_end_exclusive s \<le> b"
      using ok ab by (auto simp: segments_ok_def)
    ultimately show ?thesis using ok by (simp add: segments_ok_def)
  next
    case nz: False
    show ?thesis
    proof (cases "segs \<noteq> [] \<and> seg_end_exclusive (last segs) = a \<and> seg_duration_millis (last segs) = dur")
      case True
      then obtain init l where segs: "segs = init @ [l]" by (metis append_butlast_last_id)
      let ?l = "l\<lparr>seg_end_exclusive := b\<rparr>"
      have add: "add_segment a b dur segs = init @ [?l]"
        using True nz ab segs by (simp add: add_segment_def)
      have l: "seg_end_exclusive l = a" "seg_duration_millis l = dur" using True segs by simp_all
      have cov: "segment_covers ?l i \<longleftrightarrow> segment_covers l i \<or> a \<le> i \<and> i < b" for i
        using ok l ab segs by (auto simp: segments_ok_def segment_covers_def)
      have "sorted_wrt (\<lambda>x y. seg_end_exclusive x \<le> seg_start_inclusive y) (init @ [?l])"
        and "\<forall>s \<in> set (init @ [?l]). seg_start_inclusive s < seg_end_exclusive s \<and> seg_end_exclusive s \<le> b"
        using ok ab l segs by (auto simp: segments_ok_def sorted_wrt_append)
      moreover have "(\<forall>s \<in> set (init @ [?l]). segment_covers s i \<longrightarrow> f i = seg_duration_millis s)
               \<and> ((\<forall>s \<in> set (init @ [?l]). \<not> segment_covers s i) \<longrightarrow> f i = 0)" if "i < b" for i
      proof (cases "i < a")
        case True
        with ok cov segs show ?thesis by (auto simp: segments_ok_def)
      next
        case False
        with f out cov that l segs show ?thesis by auto
      qed
      ultimately show ?thesis unfolding segments_ok_def add by blast
    next
      case False
      let ?n = "\<lparr>seg_start_inclusive = a, seg_end_exclusive = b, seg_duration_millis = dur\<rparr>"
      have add: "add_segment a b dur segs = segs @ [?n]"
        using False nz ab by (auto simp: add_segment_def)
      have "sorted_wrt (\<lambda>x y. seg_end_exclusive x \<le> seg_start_inclusive y) (segs @ [?n])"
        and "\<forall>s \<in> set (segs @ [?n]). seg_start_inclusive s < seg_end_exclusive s \<and> seg_end_exclusive s \<le> b"
        using ok ab by (auto simp: segments_ok_def sorted_wrt_append)
      moreover have "(\<forall>s \<in> set (segs @ [?n]). segment_covers s i \<longrightarrow> f i = seg_duration_millis s)
               \<and> ((\<forall>s \<in> set (segs @ [?n]). \<not> segment_covers s i) \<longrightarrow> f i = 0)" if "i < b" for i
      proof (cases "i < a")
        case True
        then have "\<not> segment_covers ?n i" by (simp add: segment_covers_def)
        with True ok show ?thesis by (auto simp: segments_ok_def)
      next
        case False
        with f out that show ?thesis by (auto simp: segment_covers_def)
      qed
      ultimately show ?thesis unfolding segments_ok_def add by blast
    qed
  qed
qed

lemma sweep_ok:
  assumes "sorted_wrt (<) bs" and "bs \<noteq> []" and "N = normalized total' ranges"
    and "bounded_by B N" and "\<forall>x \<in> B. x \<le> hd bs \<or> x \<in> set bs" and "last bs = total'"
    and "sweep_state N (hd bs) rest active" and "segments_ok (later_wins ranges) (hd bs) segs"
  shows "segments_ok (later_wins ranges) total' (sweep bs rest active segs)"
  using assms
proof (induction bs rest active segs rule: sweep.induct)
  case (1 a b bs rest active segs)
  obtain rest' pushed where push: "push_started a rest active = (rest', pushed)" by fastforce
  let ?act = "pop_ended a pushed"
  let ?dur = "case ?act of [] \<Rightarrow> 0 | (_, _, d) # _ \<Rightarrow> d"
  from push_started_state [OF push] "1.prems"(7) have st: "sweep_state N a rest' pushed"
    and rest: "\<forall>(s, e, p, d) \<in> set rest'. a < s" by auto
  note popped = sweep_state_pop [OF st]
  have ab: "a < b" using "1.prems"(1) by simp
  have gap: "\<forall>x \<in> B. x \<le> a \<or> b \<le> x" using "1.prems"(1,5) by fastforce
  have le: "b \<le> total'" using "1.prems"(1,6) by (cases bs rule: rev_cases) (auto simp: sorted_wrt_append)
  have "?act = [] \<or> (\<exists>p e d h. ?act = (p, e, d) # h \<and> a < e)"
    using popped(2) by (cases ?act) auto
  note win = window_delay [OF popped(1) rest this "1.prems"(3,4) gap]
  have "\<forall>i. a \<le> i \<and> i < b \<longrightarrow> later_wins ranges i = ?dur" using win le by auto
  from segments_ok_add [OF _ this ab] "1.prems"(8)
  have segs: "segments_ok (later_wins ranges) b (add_segment a b ?dur segs)" by simp
  have "sweep_state N b rest' ?act" using sweep_state_mono [OF popped(1)] ab by simp
  moreover have "\<forall>x \<in> B. x \<le> b \<or> x \<in> set (b # bs)" using "1.prems"(5) ab by fastforce
  ultimately have "segments_ok (later_wins ranges) total' (sweep (b # bs) rest' ?act (add_segment a b ?dur segs))"
    using "1.prems" segs by (intro "1.IH" [OF push [symmetric] refl refl refl]) simp_all
  then show ?case by (simp add: push Let_def)
qed simp_all

lemma set_remdups_adj_sort [simp]: "set (remdups_adj (sort xs)) = set xs"
  by simp

lemma sorted_remdups_adj_distinct: "sorted xs \<Longrightarrow> distinct (remdups_adj (xs :: nat list))"
  by (induction xs rule: remdups_adj.induct) (auto simp: less_le)

lemma last_sorted_strict:
  assumes "sorted_wrt (<) xs" and "m \<in> set xs" and "\<forall>x \<in> set xs. x \<le> (m :: nat)"
  shows "last xs = m"
proof (cases xs rule: rev_cases)
  case (snoc ys y)
  with assms show ?thesis by (auto simp: sorted_wrt_append)
qed (use assms in simp)

lemma hd_sorted_zero: "sorted_wrt (<) xs \<Longrightarrow> (0 :: nat) \<in> set xs \<Longrightarrow> hd xs = 0"
  by (cases xs) auto

lemma compile_segments_ok:
  assumes "0 < total'"
  shows "segments_ok (later_wins ranges) total' (compile_segments total' ranges)"
proof -
  obtain norm bounds where n: "normalize_ranges total' (List.enumerate 0 ranges) = (norm, bounds)"
    by fastforce
  define bs where "bs = remdups_adj (sort (0 # total' # bounds))"
  define rs where "rs = sort_key (\<lambda>(start, _, priority, _). (start, priority)) norm"
  have N: "set norm = normalized total' ranges" by (simp add: normalized_def n)
  have B: "set bounds = {b. \<exists>(s, e, p, d) \<in> normalized total' ranges. b = s \<or> b = e}"
    using set_boundaries [of total' "List.enumerate 0 ranges"] by (simp add: normalized_def n)
  have set_bs: "set bs = insert 0 (insert total' (set bounds))" by (simp add: bs_def set_insort_key)
  have "e \<le> total'" "s \<le> total'" if "(s, e, p, d) \<in> normalized total' ranges" for s e p d
    using that by (auto simp: normalized_def set_normalized range_end_def)
  then have le: "\<forall>x \<in> set bs. x \<le> total'" unfolding set_bs B by auto
  have sorted: "sorted_wrt (<) bs"
    unfolding bs_def strict_sorted_iff
    by (intro conjI sorted_remdups_adj sorted_remdups_adj_distinct sorted_sort)
  have hd: "hd bs = 0" using hd_sorted_zero [OF sorted] set_bs by simp
  have "sorted (map (\<lambda>(start, _, priority, _). (start, priority)) rs)" by (simp add: rs_def)
  then have "sorted_wrt (\<lambda>x y. fst x \<le> fst y) rs"
    unfolding sorted_map by (rule sorted_wrt_mono_rel [rotated]) (auto simp: less_eq_prod_def split: prod.splits)
  then have "sweep_state (normalized total' ranges) (hd bs) rs []"
    using N by (simp add: sweep_state_def rs_def)
  moreover have "segments_ok (later_wins ranges) (hd bs) []" by (simp add: segments_ok_def hd)
  moreover have "bounded_by (set bs) (normalized total' ranges)"
    unfolding bounded_by_def set_bs B by blast
  moreover have "bs \<noteq> []" using set_bs by auto
  moreover have "last bs = total'" using last_sorted_strict [OF sorted _ le] set_bs by simp
  ultimately have "segments_ok (later_wins ranges) total' (sweep bs rs [] [])"
    using sorted by (intro sweep_ok [where B = "set bs"]) blast+
  then show ?thesis by (simp add: compile_segments_def n bs_def rs_def)
qed

section \<open>Both lookups read the segments\<close>

definition segments_value :: "range_delay_segment list \<Rightarrow> nat \<Rightarrow> u64 \<Rightarrow> bool" where
  "segments_value segs i d \<longleftrightarrow>
     (\<forall>s \<in> set segs. segment_covers s i \<longrightarrow> d = seg_duration_millis s)
     \<and> ((\<forall>s \<in> set segs. \<not> segment_covers s i) \<longrightarrow> d = 0)"

lemma segments_value_unique: "segments_value segs i d \<Longrightarrow> segments_value segs i d' \<Longrightarrow> d = d'"
  unfolding segments_value_def by metis

lemma add_segment_sorted_part:
  "segments_ok f a segs \<Longrightarrow> segs = pre @ s # post \<Longrightarrow> segment_covers s i \<Longrightarrow> t \<in> set post \<Longrightarrow> \<not> segment_covers t i"
  unfolding segments_ok_def segment_covers_def by (fastforce simp: sorted_wrt_append)

lemma segments_ok_value:
  assumes "segments_ok f total' segs" and "i < total'" and "segments_value segs i d"
  shows "d = f i"
  using assms unfolding segments_ok_def segments_value_def by metis

text \<open>The binary search finds the only segment that may cover the index.\<close>

lemma delay_at_value:
  assumes "segments_ok f total' segs"
  shows "segments_value segs i (delay_at (Segments segs) i)"
proof -
  let ?P = "\<lambda>s. seg_start_inclusive s \<le> i"
  let ?pre = "takeWhile ?P segs" and ?post = "dropWhile ?P segs"
  have split: "segs = ?pre @ ?post" by simp
  have ord: "sorted_wrt (\<lambda>x y. seg_end_exclusive x \<le> seg_start_inclusive y) (?pre @ ?post)"
    and ne: "\<forall>s \<in> set segs. seg_start_inclusive s < seg_end_exclusive s"
    using assms by (simp_all add: segments_ok_def)
  have post: "\<not> segment_covers s i" if "s \<in> set ?post" for s
  proof (cases ?post)
    case (Cons x xs)
    then have "\<not> ?P x" by (metis hd_dropWhile list.distinct(1) list.sel(1))
    moreover have "seg_start_inclusive x \<le> seg_start_inclusive s"
    proof (cases "s = x")
      case False
      then have "s \<in> set xs" using that Cons by simp
      moreover have "x \<in> set segs" using Cons by (metis list.set_intros(1) set_dropWhileD)
      ultimately show ?thesis using ord ne Cons by (fastforce simp: sorted_wrt_append)
    qed simp
    ultimately show ?thesis by (simp add: segment_covers_def)
  next
    case Nil
    with that show ?thesis by (metis empty_iff empty_set)
  qed
  show ?thesis
  proof (cases ?pre rule: rev_cases)
    case Nil
    then have "segs = ?post" using split by simp
    with post have "\<forall>s \<in> set segs. \<not> segment_covers s i" by metis
    with Nil show ?thesis by (simp add: segments_value_def partition_point_def)
  next
    case (snoc init l)
    have segs: "segs = init @ l # ?post" using split snoc by simp
    then have nth: "segs ! length init = l" by (metis nth_append_length)
    have start: "?P l" using snoc by (metis in_set_conv_decomp set_takeWhileD)
    have initial: "\<not> segment_covers s i" if "s \<in> set init" for s
    proof -
      have "seg_end_exclusive s \<le> seg_start_inclusive l" using ord snoc that by (auto simp: sorted_wrt_append)
      with start show ?thesis by (simp add: segment_covers_def)
    qed
    have at: "delay_at (Segments segs) i = (if i < seg_end_exclusive l then seg_duration_millis l else 0)"
    proof -
      have "partition_point ?P segs = Suc (length init)" by (simp add: partition_point_def snoc)
      moreover have "length init < length segs" by (subst segs) simp
      ultimately show ?thesis by (simp add: nth)
    qed
    have "set segs = insert l (set init \<union> set ?post)" by (subst segs) auto
    moreover have "segment_covers l i \<longleftrightarrow> i < seg_end_exclusive l" using start by (simp add: segment_covers_def)
    ultimately show ?thesis unfolding segments_value_def at using initial post by auto
  qed
qed

text \<open>Writing ordered segments into a table: it reads like the segments.\<close>

lemma fill_nth:
  assumes "fill s dense = Some dense'"
  shows "length dense' = length dense"
    and "i < length dense \<Longrightarrow> dense' ! i = (if segment_covers s i then seg_duration_millis s else dense ! i)"
  using assms by (auto simp: fill_def segment_covers_def nth_append split: if_splits)

lemma fill_all_value:
  assumes "\<forall>s \<in> set segs. seg_start_inclusive s < seg_end_exclusive s \<and> seg_end_exclusive s \<le> length dense"
  shows "\<exists>dense'. fill_all segs dense = Some dense' \<and> length dense' = length dense
    \<and> (\<forall>i < length dense. (\<forall>s \<in> set segs. \<not> segment_covers s i) \<longrightarrow> dense' ! i = dense ! i)
    \<and> (\<forall>i < length dense. (\<exists>s \<in> set segs. segment_covers s i) \<longrightarrow>
        (\<exists>s \<in> set segs. segment_covers s i \<and> dense' ! i = seg_duration_millis s))"
  using assms
proof (induction segs arbitrary: dense)
  case (Cons s segs)
  then obtain d1 where d1: "fill s dense = Some d1" by (auto simp: fill_def)
  have len: "length d1 = length dense" using fill_nth(1) [OF d1] .
  from Cons.IH [of d1] Cons.prems len obtain d2 where d2: "fill_all segs d1 = Some d2" "length d2 = length dense"
    and out: "\<And>i. i < length dense \<Longrightarrow> \<forall>s \<in> set segs. \<not> segment_covers s i \<Longrightarrow> d2 ! i = d1 ! i"
    and "in": "\<And>i. i < length dense \<Longrightarrow> \<exists>s \<in> set segs. segment_covers s i \<Longrightarrow>
        \<exists>s \<in> set segs. segment_covers s i \<and> d2 ! i = seg_duration_millis s" by auto
  have "fill_all (s # segs) dense = Some d2" by (simp add: d1 d2)
  moreover have "\<exists>s' \<in> set (s # segs). segment_covers s' i \<and> d2 ! i = seg_duration_millis s'"
    if "i < length dense" "\<exists>s' \<in> set (s # segs). segment_covers s' i" for i
    using "in" [OF that(1)] out [OF that(1)] fill_nth(2) [OF d1 that(1)] that(2) by (cases "\<exists>s \<in> set segs. segment_covers s i") auto
  moreover have "d2 ! i = dense ! i"
    if "i < length dense" "\<forall>s' \<in> set (s # segs). \<not> segment_covers s' i" for i
    using out [OF that(1)] fill_nth(2) [OF d1 that(1)] that(2) by auto
  ultimately show ?case using d2(2) by blast
qed simp

lemma compile_intervals_delay:
  "delay_at (compile_intervals n ranges) i = (if i < unat n then later_wins ranges i else 0)"
proof (cases "unat n = 0")
  case False
  let ?segs = "compile_segments (unat n) ranges"
  have ok: "segments_ok (later_wins ranges) (unat n) ?segs" using compile_segments_ok False by simp
  have in_range: "\<forall>s \<in> set ?segs. seg_start_inclusive s < seg_end_exclusive s \<and> seg_end_exclusive s \<le> unat n"
    using ok by (simp add: segments_ok_def)
  have segs: "delay_at (Segments ?segs) i = (if i < unat n then later_wins ranges i else 0)"
  proof (cases "i < unat n")
    case True
    with segments_ok_value [OF ok True delay_at_value [OF ok]] show ?thesis by (simp only: if_True)
  next
    case False
    have "\<forall>s \<in> set ?segs. \<not> segment_covers s i"
    proof (intro ballI notI)
      fix s assume "s \<in> set ?segs" "segment_covers s i"
      with in_range have "i < seg_end_exclusive s" "seg_end_exclusive s \<le> unat n" by (simp_all add: segment_covers_def)
      with False show False by simp
    qed
    with delay_at_value [OF ok, of i] False show ?thesis by (simp only: segments_value_def if_False)
  qed
  obtain dense where dense: "fill_all ?segs (replicate (unat n) 0) = Some dense" "length dense = unat n"
    and out: "\<And>i. i < unat n \<Longrightarrow> \<forall>s \<in> set ?segs. \<not> segment_covers s i \<Longrightarrow> dense ! i = 0"
    and cov: "\<And>i. i < unat n \<Longrightarrow> \<exists>s \<in> set ?segs. segment_covers s i \<Longrightarrow>
        \<exists>s \<in> set ?segs. segment_covers s i \<and> dense ! i = seg_duration_millis s"
    using fill_all_value [of ?segs "replicate (unat n) 0"] in_range by auto
  have "dense ! i = later_wins ranges i" if i: "i < unat n"
  proof (cases "\<exists>s \<in> set ?segs. segment_covers s i")
    case True
    with cov [OF i] ok i show ?thesis by (auto simp: segments_ok_def)
  next
    case False
    with out [OF i] ok i show ?thesis by (simp add: segments_ok_def)
  qed
  with dense segs show ?thesis by (simp add: compile_intervals_def Let_def)
qed (simp add: compile_intervals_def)

section \<open>Properties\<close>

text \<open>
  C20. The compiled lookup says what the documentation promises.  For every task that the builder
  accepts, of every size and with every overlap of ranges, dense table or segments: the delay of
  attempt \<open>i\<close> is the duration of the last added range that contains \<open>i\<close> (none: 0), and there is no
  delay, hence no attempt, from the total on.
\<close>

theorem compiled_delays_follow_the_rule:
  assumes "range_build fresh b = Inr t"
  shows "interval_millis t i =
    (if i < unat (rib_total_retries b) then Some (later_wins (rib_ranges b) i) else None)"
  using assms by (auto simp: range_build_def interval_millis_def compile_intervals_delay
      split: if_splits option.splits)

lemma compiled_delays_follow_the_rule_witness:
  "\<exists>t. range_build 0 (add_range 2 4 9000000 (add_range 0 3 5000000 (range_builder_new 0 5))) = Inr t
     \<and> map (interval_millis t) [0, 2, 4, 5] = [Some 5, Some 9, Some 9, None]"
proof -
  let ?b = "add_range 2 4 9000000 (add_range 0 3 5000000 (range_builder_new 0 5))"
  obtain t where t: "range_build 0 ?b = Inr t" by (simp add: range_build_def add_range_def range_builder_new_def)
  have "map (interval_millis t) [0, 2, 4, 5] = [Some 5, Some 9, Some 9, None]"
    unfolding list.map compiled_delays_follow_the_rule [OF t]
    by (simp add: add_range_def range_builder_new_def later_wins_def contains_index_def duration_to_millis_def)
  with t show ?thesis by (intro exI conjI)
qed

end
