(* ===== verification/BB_Tasks.thy ===== *)
theory BB_Tasks
  imports BB_Range
begin

text \<open>
  The legacy task kinds and their builders (\<open>fixed_count_task.rs\<close>, \<open>time_interval_task.rs\<close>,
  \<open>periodic_task.rs\<close>, \<open>task.rs\<close>).  A task's \<open>interrupted\<close> flag is shared by everyone who holds the task and
  is kept in the dam's state; the rest of a task never changes.  The result of this theory: every
  task a builder delivers has at least one attempt, a range interval task excepted when its total
  is 0.
\<close>

section \<open>Fixed count\<close>

record fixed_count_task =
  fct_id :: task_id
  fct_work :: work_ref
  fct_count :: u32
  fct_tag :: "string option"
  fct_progress :: "progress_ref option"
  fct_listener :: "listener_ref option"

record fixed_count_builder =
  fcb_work :: "work_ref option"
  fcb_count :: u32
  fcb_tag :: "string option"
  fcb_progress :: "progress_ref option"
  fcb_listener :: "listener_ref option"

definition fixed_count_builder_new :: "work_ref \<Rightarrow> fixed_count_builder" where
  "fixed_count_builder_new work =
     \<lparr>fcb_work = Some work, fcb_count = 3, fcb_tag = None, fcb_progress = None, fcb_listener = None\<rparr>"

definition fixed_count_count :: "u32 \<Rightarrow> fixed_count_builder \<Rightarrow> fixed_count_builder" where
  "fixed_count_count n b = b\<lparr>fcb_count := max n 1\<rparr>"

definition fixed_count_build :: "task_id \<Rightarrow> fixed_count_builder \<Rightarrow> beaver_error + fixed_count_task" where
  "fixed_count_build fresh b =
     (case fcb_work b of
        None \<Rightarrow> Inl (BuilderMissingField ''work'')
      | Some work \<Rightarrow>
          Inr \<lparr>fct_id = fresh, fct_work = work, fct_count = fcb_count b, fct_tag = fcb_tag b,
               fct_progress = fcb_progress b, fct_listener = fcb_listener b\<rparr>)"

section \<open>Time intervals\<close>

record time_interval_task =
  tit_id :: task_id
  tit_work :: work_ref
  tit_intervals :: "u64 list"
  tit_tag :: "string option"
  tit_listener :: "listener_ref option"

record time_interval_builder =
  tib_work :: "work_ref option"
  tib_intervals :: "u64 list"
  tib_tag :: "string option"
  tib_listener :: "listener_ref option"

definition time_interval_builder_new :: "work_ref \<Rightarrow> time_interval_builder" where
  "time_interval_builder_new work =
     \<lparr>tib_work = Some work, tib_intervals = [1000], tib_tag = None, tib_listener = None\<rparr>"

definition intervals_millis :: "u64 list \<Rightarrow> time_interval_builder \<Rightarrow> time_interval_builder" where
  "intervals_millis millis b = b\<lparr>tib_intervals := millis\<rparr>"

definition time_interval_build :: "task_id \<Rightarrow> time_interval_builder \<Rightarrow> beaver_error + time_interval_task" where
  "time_interval_build fresh b =
     (case tib_work b of
        None \<Rightarrow> Inl (BuilderMissingField ''work'')
      | Some work \<Rightarrow>
          let intervals = (if tib_intervals b = [] then [0] else tib_intervals b) in
          Inr \<lparr>tit_id = fresh, tit_work = work, tit_intervals = intervals, tit_tag = tib_tag b,
               tit_listener = tib_listener b\<rparr>)"

section \<open>Periodic\<close>

record periodic_task =
  pt_id :: task_id
  pt_work :: work_ref
  pt_interval :: duration
  pt_initial_delay :: bool
  pt_tag :: "string option"
  pt_listener :: "listener_ref option"

record periodic_builder =
  pb_work :: "work_ref option"
  pb_interval :: duration
  pb_initial_delay :: bool
  pb_tag :: "string option"
  pb_listener :: "listener_ref option"

definition periodic_builder_new :: "work_ref \<Rightarrow> periodic_builder" where
  "periodic_builder_new work =
     \<lparr>pb_work = Some work, pb_interval = 0, pb_initial_delay = False, pb_tag = None, pb_listener = None\<rparr>"

definition periodic_build :: "task_id \<Rightarrow> periodic_builder \<Rightarrow> beaver_error + periodic_task" where
  "periodic_build fresh b =
     (case pb_work b of
        None \<Rightarrow> Inl (BuilderMissingField ''work'')
      | Some work \<Rightarrow>
          Inr \<lparr>pt_id = fresh, pt_work = work, pt_interval = pb_interval b,
               pt_initial_delay = pb_initial_delay b, pt_tag = pb_tag b, pt_listener = pb_listener b\<rparr>)"

section \<open>Tasks\<close>

datatype (plugins only: size) task =
    TimeInterval time_interval_task
  | RangeInterval range_interval_task
  | FixedCount fixed_count_task
  | Periodic periodic_task

primrec task_id_of :: "task \<Rightarrow> task_id" where
  "task_id_of (TimeInterval s) = tit_id s"
| "task_id_of (RangeInterval s) = rit_id s"
| "task_id_of (FixedCount s) = fct_id s"
| "task_id_of (Periodic s) = pt_id s"

definition tag_or_empty :: "string option \<Rightarrow> string" where
  "tag_or_empty tag = (case tag of None \<Rightarrow> [] | Some t \<Rightarrow> t)"

primrec task_tag :: "task \<Rightarrow> string" where
  "task_tag (TimeInterval s) = tag_or_empty (tit_tag s)"
| "task_tag (RangeInterval s) = tag_or_empty (rit_tag s)"
| "task_tag (FixedCount s) = tag_or_empty (fct_tag s)"
| "task_tag (Periodic s) = tag_or_empty (pt_tag s)"

primrec task_listener :: "task \<Rightarrow> listener_ref option" where
  "task_listener (TimeInterval s) = tit_listener s"
| "task_listener (RangeInterval s) = rit_listener s"
| "task_listener (FixedCount s) = fct_listener s"
| "task_listener (Periodic s) = pt_listener s"

text \<open>The number of attempts of a bounded task.\<close>

primrec attempt_limit :: "task \<Rightarrow> nat option" where
  "attempt_limit (TimeInterval s) = Some (length (tit_intervals s))"
| "attempt_limit (RangeInterval s) = Some (unat (rit_total_retries s))"
| "attempt_limit (FixedCount s) = Some (unat (fct_count s))"
| "attempt_limit (Periodic s) = None"

text \<open>What the builders deliver; the setters of \<open>tag\<close>, \<open>listener\<close> and \<open>progress\<close> do not matter for it.\<close>

inductive built :: "task \<Rightarrow> bool" where
  built_fixed: "fixed_count_build fresh b = Inr t \<Longrightarrow> fcb_count b = 3 \<or> fcb_count b = max n 1 \<Longrightarrow> built (FixedCount t)"
| built_time: "time_interval_build fresh b = Inr t \<Longrightarrow> built (TimeInterval t)"
| built_range: "range_build fresh b = Inr t \<Longrightarrow> built (RangeInterval t)"
| built_periodic: "periodic_build fresh b = Inr t \<Longrightarrow> built (Periodic t)"

lemma built_attempts:
  assumes "built t" and "attempt_limit t = Some n"
  shows "0 < n \<or> (\<exists>s. t = RangeInterval s \<and> rit_total_retries s = 0)"
  using assms
proof cases
  case (built_fixed fresh b s m)
  have "0 < unat (max m 1)" by (auto simp: max_def word_le_nat_alt)
  with built_fixed assms(2) show ?thesis by (auto simp: fixed_count_build_def split: option.splits)
next
  case (built_time fresh b s)
  with assms(2) show ?thesis
    by (auto simp: time_interval_build_def Let_def split: option.splits if_splits)
next
  case (built_range fresh b s)
  with assms(2) show ?thesis by (auto simp: unat_gt_0 word_neq_0_conv)
next
  case (built_periodic fresh b s)
  with assms(2) show ?thesis by simp
qed

end
