(* ===== verification/BB_Dam.thy ===== *)
theory BB_Dam
  imports BB_Tasks
begin

text \<open>
  The legacy dam (\<open>dam.rs\<close>): a bounded queue of executions, one worker that runs them one after the
  other, and the operations \<open>enqueue\<close>, \<open>cancel_all\<close> and \<open>release\<close> of any number of callers.  Every
  operation is split where another thread may interleave: a caller between two of its atomic
  accesses is an entry of \<open>dam_ops\<close>, and the worker's position, inside the attempt loops too, is
  \<open>dam_worker\<close>.  User code (work, listener, progress) is input: \<open>run_input\<close> says how it answers.
  The field \<open>le_calls\<close> is a history variable: what the execution has called, in order.
\<close>

section \<open>Executions of legacy tasks\<close>

datatype (plugins only: size) user_call =
    OnComplete
  | OnInterrupt
  | OnError runtime_error
  | OnProgress u32 u32 string
  | WorkReturned "unit work_result"
  | WorkPanicked panic_payload

record legacy_execution =
  le_task :: task
  le_cancelled :: bool
  le_cancellation :: bool
  le_interrupt_notified :: bool
  le_calls :: "user_call list"

text \<open>What executions share: the failures of callbacks and the \<open>interrupted\<close> flags of the tasks.\<close>

record dam_shared =
  callback_failures :: "string list"
  interrupted_tasks :: "task_id set"

type_synonym exec_ctx = "legacy_execution \<times> dam_shared"

definition legacy_new :: "task \<Rightarrow> legacy_execution" where
  "legacy_new t = \<lparr>le_task = t, le_cancelled = False, le_cancellation = False,
                   le_interrupt_notified = False, le_calls = []\<rparr>"

definition set_interrupted :: "task \<Rightarrow> dam_shared \<Rightarrow> dam_shared" where
  "set_interrupted t s = s\<lparr>interrupted_tasks := insert (task_id_of t) (interrupted_tasks s)\<rparr>"

definition legacy_cancel :: "exec_ctx \<Rightarrow> exec_ctx" where
  "legacy_cancel c =
     (let (e, s) = c in
      if le_cancelled e then c
      else (e\<lparr>le_cancelled := True, le_cancellation := True\<rparr>, set_interrupted (le_task e) s))"

text \<open>
  One poll of \<open>LegacyExecution::sleep\<close>: what it returns, if it is done.  A sleeper wakes early when the
  cancellation channel says so; a zero duration only yields.
\<close>

definition legacy_sleep :: "duration \<Rightarrow> bool \<Rightarrow> legacy_execution \<Rightarrow> bool option" where
  "legacy_sleep d elapsed e =
     (if le_cancelled e then Some False
      else if d = 0 then Some True
      else if elapsed then Some True
      else None)"

fun panic_message_to_string :: "panic_payload \<Rightarrow> string" where
  "panic_message_to_string (StaticStr s) = s"
| "panic_message_to_string (OwnedString s) = s"
| "panic_message_to_string OtherPayload = ''panic (unknown payload)''"

definition record_callback_failure :: "string \<Rightarrow> panic_payload \<Rightarrow> dam_shared \<Rightarrow> dam_shared" where
  "record_callback_failure source payload s =
     s\<lparr>callback_failures := callback_failures s @ [source @ '': '' @ panic_message_to_string payload]\<rparr>"

text \<open>A callback runs; \<open>outcome\<close> is the payload when it panics.\<close>

definition isolate_callback :: "string \<Rightarrow> user_call \<Rightarrow> panic_payload option \<Rightarrow> exec_ctx \<Rightarrow> exec_ctx" where
  "isolate_callback source call outcome c =
     (let (e, s) = c in
      (e\<lparr>le_calls := le_calls e @ [call]\<rparr>,
       case outcome of None \<Rightarrow> s | Some payload \<Rightarrow> record_callback_failure source payload s))"

definition notify_listener :: "string \<Rightarrow> user_call \<Rightarrow> panic_payload option \<Rightarrow> exec_ctx \<Rightarrow> exec_ctx" where
  "notify_listener source call outcome c =
     (case task_listener (le_task (fst c)) of
        None \<Rightarrow> c
      | Some _ \<Rightarrow> isolate_callback source call outcome c)"

definition notify_complete :: "panic_payload option \<Rightarrow> exec_ctx \<Rightarrow> exec_ctx" where
  "notify_complete = notify_listener ''on_complete'' OnComplete"

definition notify_interrupt_listener :: "panic_payload option \<Rightarrow> exec_ctx \<Rightarrow> exec_ctx" where
  "notify_interrupt_listener = notify_listener ''on_interrupt'' OnInterrupt"

definition notify_error :: "runtime_error \<Rightarrow> panic_payload option \<Rightarrow> exec_ctx \<Rightarrow> exec_ctx" where
  "notify_error err = notify_listener ''on_error'' (OnError err)"

definition notify_interrupt :: "panic_payload option \<Rightarrow> exec_ctx \<Rightarrow> exec_ctx" where
  "notify_interrupt outcome c =
     (let (e, s) = legacy_cancel c in
      if le_interrupt_notified e then (e, s)
      else notify_interrupt_listener outcome (e\<lparr>le_interrupt_notified := True\<rparr>, s))"

section \<open>The attempt loops\<close>

text \<open>
  Where a run is: at the head of its loop before attempt \<open>i\<close>, in the sleep before it, after the
  progress callback, inside the work, in the periodic rest after it, returned, or ended by a panic.
\<close>

datatype (plugins only: size) run_point =
    LoopHead nat
  | Waiting nat
  | Progressed nat
  | Working nat
  | Resting nat
  | Returned
  | Crashed panic_payload

datatype (plugins only: size) work_poll = WorkPending | WorkReady "unit work_result" | WorkPanic panic_payload

record run_input =
  in_elapsed :: bool
  in_work :: work_poll
  in_callback :: "panic_payload option"
  in_dropped :: bool

definition log_call :: "user_call \<Rightarrow> exec_ctx \<Rightarrow> exec_ctx" where
  "log_call call c = ((fst c)\<lparr>le_calls := le_calls (fst c) @ [call]\<rparr>, snd c)"

text \<open>\<open>notify_interrupt\<close> and return.\<close>

definition interrupted_return :: "run_input \<Rightarrow> exec_ctx \<Rightarrow> run_point \<times> exec_ctx" where
  "interrupted_return inp c = (Returned, notify_interrupt (in_callback inp) c)"

definition sleep_then :: "duration \<Rightarrow> run_point \<Rightarrow> run_point \<Rightarrow> run_input \<Rightarrow> exec_ctx \<Rightarrow> run_point \<times> exec_ctx" where
  "sleep_then d here next inp c =
     (case legacy_sleep d (in_elapsed inp) (fst c) of
        None \<Rightarrow> (here, c)
      | Some False \<Rightarrow> interrupted_return inp c
      | Some True \<Rightarrow> (next, c))"

text \<open>The end of an attempt: what the loops do when the work has answered.\<close>

definition work_then ::
  "run_point \<Rightarrow> run_point \<Rightarrow> bool \<Rightarrow> run_input \<Rightarrow> exec_ctx \<Rightarrow> run_point \<times> exec_ctx" where
  "work_then here next last_attempt inp c =
     (case in_work inp of
        WorkPending \<Rightarrow> (here, c)
      | WorkPanic payload \<Rightarrow> (Crashed payload, log_call (WorkPanicked payload) c)
      | WorkReady result \<Rightarrow>
          let c = log_call (WorkReturned result) c in
          if le_cancelled (fst c) then interrupted_return inp c
          else if \<not> need_retry result then (Returned, notify_complete (in_callback inp) c)
          else if last_attempt then (next, notify_error RetriesExhausted (in_callback inp) c)
          else (next, c))"

definition millis_duration :: "u64 \<Rightarrow> duration" where
  "millis_duration millis = unat millis * 1000000"

fun run_time_interval ::
  "time_interval_task \<Rightarrow> run_input \<Rightarrow> run_point \<Rightarrow> exec_ctx \<Rightarrow> run_point \<times> exec_ctx" where
  "run_time_interval t inp (LoopHead i) c =
     (if length (tit_intervals t) \<le> i then (Returned, c)
      else if le_cancelled (fst c) then interrupted_return inp c
      else (Waiting i, c))"
| "run_time_interval t inp (Waiting i) c =
     sleep_then (millis_duration (tit_intervals t ! i)) (Waiting i) (Working i) inp c"
| "run_time_interval t inp (Working i) c =
     work_then (Working i) (LoopHead (Suc i)) (Suc i = length (tit_intervals t)) inp c"
| "run_time_interval t inp pt c = (pt, c)"

fun run_range_interval ::
  "range_interval_task \<Rightarrow> run_input \<Rightarrow> run_point \<Rightarrow> exec_ctx \<Rightarrow> run_point \<times> exec_ctx" where
  "run_range_interval t inp (LoopHead attempt) c =
     (if unat (rit_total_retries t) \<le> attempt then (Returned, c)
      else if le_cancelled (fst c) then interrupted_return inp c
      else if attempt = 0 then (Working 0, c)
      else case interval_millis t (attempt - 1) of
        None \<Rightarrow> (Returned, notify_error (InternalInvariantViolation ''BB-RANGE-INTERVAL-MISSING'') (in_callback inp) c)
      | Some _ \<Rightarrow> (Waiting attempt, c))"
| "run_range_interval t inp (Waiting attempt) c =
     (case interval_millis t (attempt - 1) of
        None \<Rightarrow> (Waiting attempt, c)
      | Some millis \<Rightarrow> sleep_then (millis_duration millis) (Waiting attempt) (Working attempt) inp c)"
| "run_range_interval t inp (Working attempt) c =
     work_then (Working attempt) (LoopHead (Suc attempt)) (Suc attempt = unat (rit_total_retries t)) inp c"
| "run_range_interval t inp pt c = (pt, c)"

text \<open>\<open>current\<close> runs from 1 to \<open>count\<close>: the attempt index is one less.\<close>

fun run_fixed_count ::
  "fixed_count_task \<Rightarrow> run_input \<Rightarrow> run_point \<Rightarrow> exec_ctx \<Rightarrow> run_point \<times> exec_ctx" where
  "run_fixed_count t inp (LoopHead i) c =
     (if unat (fct_count t) \<le> i then (Returned, c)
      else if le_cancelled (fst c) then interrupted_return inp c
      else case fct_progress t of
        None \<Rightarrow> (Progressed i, c)
      | Some _ \<Rightarrow>
          (Progressed i,
           isolate_callback ''progress'' (OnProgress (of_nat (Suc i)) (fct_count t) (tag_or_empty (fct_tag t)))
             (in_callback inp) c))"
| "run_fixed_count t inp (Progressed i) c =
     (if le_cancelled (fst c) then interrupted_return inp c else (Working i, c))"
| "run_fixed_count t inp (Working i) c =
     work_then (Working i) (LoopHead (Suc i)) (Suc i = unat (fct_count t)) inp c"
| "run_fixed_count t inp pt c = (pt, c)"

fun run_periodic ::
  "periodic_task \<Rightarrow> run_input \<Rightarrow> run_point \<Rightarrow> exec_ctx \<Rightarrow> run_point \<times> exec_ctx" where
  "run_periodic t inp (Waiting i) c = sleep_then (pt_interval t) (Waiting i) (LoopHead i) inp c"
| "run_periodic t inp (LoopHead i) c =
     (if le_cancelled (fst c) then interrupted_return inp c else (Working i, c))"
| "run_periodic t inp (Working i) c = work_then (Working i) (Resting i) False inp c"
| "run_periodic t inp (Resting i) c = sleep_then (pt_interval t) (Resting i) (LoopHead (Suc i)) inp c"
| "run_periodic t inp pt c = (pt, c)"

primrec run_start :: "task \<Rightarrow> run_point" where
  "run_start (TimeInterval t) = LoopHead 0"
| "run_start (RangeInterval t) = LoopHead 0"
| "run_start (FixedCount t) = LoopHead 0"
| "run_start (Periodic t) = (if pt_initial_delay t then Waiting 0 else LoopHead 0)"

primrec run_task_on :: "task \<Rightarrow> run_input \<Rightarrow> run_point \<Rightarrow> exec_ctx \<Rightarrow> run_point \<times> exec_ctx" where
  "run_task_on (TimeInterval t) = run_time_interval t"
| "run_task_on (RangeInterval t) = run_range_interval t"
| "run_task_on (FixedCount t) = run_fixed_count t"
| "run_task_on (Periodic t) = run_periodic t"

definition run_task :: "run_input \<Rightarrow> run_point \<Rightarrow> exec_ctx \<Rightarrow> run_point \<times> exec_ctx" where
  "run_task inp pt c = run_task_on (le_task (fst c)) inp pt c"

section \<open>The dam\<close>

text \<open>Executions are shared by reference: a reference is an index into \<open>dam_executions\<close>.\<close>

record splash =
  sp_execution :: nat
  sp_seq :: u64

text \<open>Callers between two of their steps.\<close>

datatype (plugins only: size) client_op =
    EnqueueChecked task
  | EnqueueStamped splash
  | CancelLoaded u64
  | CancelRaised
  | ReleaseFlagged
  | ReleaseRaised
  | ReleaseCancelled

datatype (plugins only: size) worker_point =
    Receiving
  | Checking splash
  | Publishing splash
  | Rechecking splash
  | RunningTask splash run_point
  | Healing splash
  | Restarting splash
  | Clearing splash
  | WorkerExited

record dam =
  dam_tx :: bool
  dam_capacity :: nat
  dam_queue :: "splash list"
  dam_current :: "nat option"
  dam_release_flag :: bool
  dam_enqueue_seq :: u64
  dam_cancel_watermark :: u64
  dam_executions :: "legacy_execution list"
  dam_shared_state :: dam_shared
  dam_worker :: worker_point
  dam_ops :: "client_op list"

definition dam_new :: "nat \<Rightarrow> dam" where
  "dam_new capacity =
     \<lparr>dam_tx = True, dam_capacity = capacity, dam_queue = [], dam_current = None, dam_release_flag = False,
      dam_enqueue_seq = 0, dam_cancel_watermark = 0, dam_executions = [],
      dam_shared_state = \<lparr>callback_failures = [], interrupted_tasks = {}\<rparr>,
      dam_worker = Receiving, dam_ops = []\<rparr>"

text \<open>Running a function on one execution and the shared state.\<close>

definition exec_ctx_of :: "nat \<Rightarrow> dam \<Rightarrow> exec_ctx" where
  "exec_ctx_of r d = (dam_executions d ! r, dam_shared_state d)"

definition put_ctx :: "nat \<Rightarrow> exec_ctx \<Rightarrow> dam \<Rightarrow> dam" where
  "put_ctx r c d = d\<lparr>dam_executions := (dam_executions d)[r := fst c], dam_shared_state := snd c\<rparr>"

definition on_execution :: "nat \<Rightarrow> (exec_ctx \<Rightarrow> exec_ctx) \<Rightarrow> dam \<Rightarrow> dam" where
  "on_execution r f d = put_ctx r (f (exec_ctx_of r d)) d"

definition cancel_current :: "dam \<Rightarrow> dam" where
  "cancel_current d =
     (case dam_current d of None \<Rightarrow> d | Some r \<Rightarrow> on_execution r legacy_cancel d)"

subsection \<open>Callers\<close>

definition add_op :: "client_op \<Rightarrow> dam \<Rightarrow> dam" where
  "add_op op d = d\<lparr>dam_ops := op # dam_ops d\<rparr>"

definition enqueue_check :: "task \<Rightarrow> dam \<Rightarrow> beaver_error + dam" where
  "enqueue_check t d = (if dam_release_flag d then Inl DamReleased else Inr (add_op (EnqueueChecked t) d))"

definition enqueue_stamp :: "task \<Rightarrow> dam \<Rightarrow> dam" where
  "enqueue_stamp t d =
     add_op (EnqueueStamped \<lparr>sp_execution = length (dam_executions d), sp_seq = dam_enqueue_seq d\<rparr>)
       (d\<lparr>dam_enqueue_seq := dam_enqueue_seq d + 1, dam_executions := dam_executions d @ [legacy_new t]\<rparr>)"

definition enqueue_send :: "splash \<Rightarrow> dam \<Rightarrow> (beaver_error + unit) \<times> dam" where
  "enqueue_send sp d =
     (if \<not> dam_tx d then (Inl DamReleased, d)
      else if dam_worker d = WorkerExited \<or> dam_capacity d \<le> length (dam_queue d) then (Inl QueueFull, d)
      else (Inr (), d\<lparr>dam_queue := dam_queue d @ [sp]\<rparr>))"

definition cancel_all_load :: "dam \<Rightarrow> dam" where
  "cancel_all_load d = add_op (CancelLoaded (dam_enqueue_seq d)) d"

definition cancel_all_raise :: "u64 \<Rightarrow> dam \<Rightarrow> dam" where
  "cancel_all_raise watermark d =
     add_op CancelRaised (d\<lparr>dam_cancel_watermark := max (dam_cancel_watermark d) watermark\<rparr>)"

definition release_begin :: "dam \<Rightarrow> dam" where
  "release_begin d = add_op ReleaseFlagged (d\<lparr>dam_release_flag := True\<rparr>)"

definition release_raise :: "dam \<Rightarrow> dam" where
  "release_raise d = add_op ReleaseRaised (d\<lparr>dam_cancel_watermark := - 1\<rparr>)"

definition release_cancel :: "dam \<Rightarrow> dam" where
  "release_cancel d = add_op ReleaseCancelled (cancel_current d)"

definition release_close :: "dam \<Rightarrow> dam" where
  "release_close d = d\<lparr>dam_tx := False\<rparr>"

primrec client_step :: "client_op \<Rightarrow> dam \<Rightarrow> dam" where
  "client_step (EnqueueChecked t) d = enqueue_stamp t d"
| "client_step (EnqueueStamped sp) d = snd (enqueue_send sp d)"
| "client_step (CancelLoaded w) d = cancel_all_raise w d"
| "client_step CancelRaised d = cancel_current d"
| "client_step ReleaseFlagged d = release_raise d"
| "client_step ReleaseRaised d = release_cancel d"
| "client_step ReleaseCancelled d = release_close d"

text \<open>Dropping the dam: no caller is left, so its steps follow one another.\<close>

definition dam_drop :: "dam \<Rightarrow> dam" where
  "dam_drop d =
     release_close (cancel_current (d\<lparr>dam_release_flag := True, dam_cancel_watermark := - 1\<rparr>))"

subsection \<open>The worker\<close>

definition worker_receive :: "dam \<Rightarrow> dam" where
  "worker_receive d =
     (case dam_queue d of
        sp # rest \<Rightarrow> d\<lparr>dam_queue := rest, dam_worker := Checking sp\<rparr>
      | [] \<Rightarrow> if dam_tx d then d else d\<lparr>dam_worker := WorkerExited\<rparr>)"

definition worker_check :: "splash \<Rightarrow> run_input \<Rightarrow> dam \<Rightarrow> dam" where
  "worker_check sp inp d =
     (if sp_seq sp < dam_cancel_watermark d
      then (on_execution (sp_execution sp) (notify_interrupt (in_callback inp)) d)\<lparr>dam_worker := Receiving\<rparr>
      else d\<lparr>dam_worker := Publishing sp\<rparr>)"

definition worker_publish :: "splash \<Rightarrow> dam \<Rightarrow> dam" where
  "worker_publish sp d = d\<lparr>dam_current := Some (sp_execution sp), dam_worker := Rechecking sp\<rparr>"

definition worker_recheck :: "splash \<Rightarrow> run_input \<Rightarrow> dam \<Rightarrow> dam" where
  "worker_recheck sp inp d =
     (if sp_seq sp < dam_cancel_watermark d
      then (on_execution (sp_execution sp) (notify_interrupt (in_callback inp)) d)\<lparr>dam_worker := Clearing sp\<rparr>
      else d\<lparr>dam_worker := RunningTask sp (run_start (le_task (dam_executions d ! sp_execution sp)))\<rparr>)"

text \<open>The spawned run: it goes on, has ended, has panicked, or was dropped with its runtime.\<close>

definition worker_run :: "splash \<Rightarrow> run_point \<Rightarrow> run_input \<Rightarrow> dam \<Rightarrow> dam" where
  "worker_run sp pt inp d =
     (if in_dropped inp then d\<lparr>dam_worker := Clearing sp\<rparr>
      else case pt of
        Returned \<Rightarrow> d\<lparr>dam_worker := Clearing sp\<rparr>
      | Crashed payload \<Rightarrow>
          (on_execution (sp_execution sp)
             (notify_error (TaskExecutionFailed (panic_message_to_string payload)) (in_callback inp)) d)
             \<lparr>dam_worker := Healing sp\<rparr>
      | _ \<Rightarrow>
          let (pt', c) = run_task inp pt (exec_ctx_of (sp_execution sp) d)
          in (put_ctx (sp_execution sp) c d)\<lparr>dam_worker := RunningTask sp pt'\<rparr>)"

text \<open>A periodic task that was not interrupted starts again after its interval.\<close>

definition worker_heal :: "splash \<Rightarrow> dam \<Rightarrow> dam" where
  "worker_heal sp d =
     (let e = dam_executions d ! sp_execution sp in
      d\<lparr>dam_worker := (case le_task e of
           Periodic _ \<Rightarrow> if le_cancelled e then Clearing sp else Restarting sp
         | _ \<Rightarrow> Clearing sp)\<rparr>)"

definition restart_interval :: "task \<Rightarrow> duration" where
  "restart_interval t = (case t of Periodic p \<Rightarrow> pt_interval p | _ \<Rightarrow> 0)"

definition worker_restart :: "splash \<Rightarrow> run_input \<Rightarrow> dam \<Rightarrow> dam" where
  "worker_restart sp inp d =
     (let e = dam_executions d ! sp_execution sp in
      case legacy_sleep (restart_interval (le_task e)) (in_elapsed inp) e of
        None \<Rightarrow> d
      | Some False \<Rightarrow>
          (on_execution (sp_execution sp) (notify_interrupt (in_callback inp)) d)\<lparr>dam_worker := Clearing sp\<rparr>
      | Some True \<Rightarrow> d\<lparr>dam_worker := RunningTask sp (run_start (le_task e))\<rparr>)"

definition worker_clear :: "dam \<Rightarrow> dam" where
  "worker_clear d = d\<lparr>dam_current := None, dam_worker := Receiving\<rparr>"

definition worker_step :: "run_input \<Rightarrow> dam \<Rightarrow> dam" where
  "worker_step inp d =
     (case dam_worker d of
        Receiving \<Rightarrow> worker_receive d
      | Checking sp \<Rightarrow> worker_check sp inp d
      | Publishing sp \<Rightarrow> worker_publish sp d
      | Rechecking sp \<Rightarrow> worker_recheck sp inp d
      | RunningTask sp pt \<Rightarrow> worker_run sp pt inp d
      | Healing sp \<Rightarrow> worker_heal sp d
      | Restarting sp \<Rightarrow> worker_restart sp inp d
      | Clearing sp \<Rightarrow> worker_clear d
      | WorkerExited \<Rightarrow> d)"

subsection \<open>All interleavings\<close>

inductive dam_step :: "dam \<Rightarrow> dam \<Rightarrow> bool" where
  step_worker: "dam_step d (worker_step inp d)"
| step_enqueue: "enqueue_check t d = Inr d' \<Longrightarrow> dam_step d d'"
| step_cancel_all: "dam_step d (cancel_all_load d)"
| step_release: "dam_step d (release_begin d)"
| step_client: "op \<in> set (dam_ops d) \<Longrightarrow> dam_step d (client_step op (d\<lparr>dam_ops := remove1 op (dam_ops d)\<rparr>))"

inductive_cases dam_stepE: "dam_step d d'"

text \<open>Tokio refuses a channel without capacity.\<close>

definition dam_init :: "dam \<Rightarrow> bool" where
  "dam_init d \<longleftrightarrow> (\<exists>capacity. 0 < capacity \<and> d = dam_new capacity)"

end
