(* ===== verification/BB_Dam_Props.thy ===== *)
theory BB_Dam_Props
  imports BB_Dam "HOL-Library.Multiset"
begin

text \<open>
  What holds of the dam in every interleaving: what a listener is told and when, how many attempts
  an execution gets, and that a cancellation reaches everything submitted before it, the execution
  that is just being handed to the worker included.
\<close>

section \<open>The log of an execution\<close>

fun is_attempt :: "user_call \<Rightarrow> bool" where
  "is_attempt (WorkReturned _) = True"
| "is_attempt (WorkPanicked _) = True"
| "is_attempt _ = False"

definition attempts :: "user_call list \<Rightarrow> user_call list" where
  "attempts calls = filter is_attempt calls"

text \<open>Calls that report the end of an execution; a panic ends it only when the task is bounded.\<close>

fun is_final :: "task \<Rightarrow> user_call \<Rightarrow> bool" where
  "is_final t OnComplete = True"
| "is_final t OnInterrupt = True"
| "is_final t (OnError (TaskExecutionFailed _)) = (attempt_limit t \<noteq> None)"
| "is_final t (OnError _) = True"
| "is_final t _ = False"

definition finals :: "task \<Rightarrow> user_call list \<Rightarrow> user_call list" where
  "finals t calls = filter (is_final t) calls"

abbreviation need_retries :: "nat \<Rightarrow> user_call list" where
  "need_retries n \<equiv> replicate n (WorkReturned NeedRetry)"

definition log_ok :: "legacy_execution \<Rightarrow> bool" where
  "log_ok e \<longleftrightarrow>
     length (finals (le_task e) (le_calls e)) \<le> 1
     \<and> (\<forall>n. attempt_limit (le_task e) = Some n \<longrightarrow> length (attempts (le_calls e)) \<le> n)
     \<and> (OnComplete \<in> set (le_calls e) \<longrightarrow>
          attempts (le_calls e) \<noteq> [] \<and> last (attempts (le_calls e)) = WorkReturned (Done ()))
     \<and> (OnError RetriesExhausted \<in> set (le_calls e) \<longrightarrow>
          (\<exists>n. attempt_limit (le_task e) = Some n \<and> attempts (le_calls e) = need_retries n))
     \<and> (\<forall>code. OnError (InternalInvariantViolation code) \<notin> set (le_calls e))"

text \<open>Nothing final was reported yet; or it was, once.\<close>

definition untold :: "legacy_execution \<Rightarrow> bool" where
  "untold e \<longleftrightarrow> finals (le_task e) (le_calls e) = [] \<and> \<not> le_interrupt_notified e"

definition told :: "legacy_execution \<Rightarrow> bool" where
  "told e \<longleftrightarrow>
     length (finals (le_task e) (le_calls e)) = (if task_listener (le_task e) = None then 0 else 1)"

definition retried :: "nat \<Rightarrow> legacy_execution \<Rightarrow> bool" where
  "retried i e \<longleftrightarrow> attempts (le_calls e) = need_retries i"

lemma log_append [simp]:
  "attempts (xs @ ys) = attempts xs @ attempts ys"
  "finals t (xs @ ys) = finals t xs @ finals t ys"
  "attempts [] = []" "finals t [] = []"
  "attempts [c] = (if is_attempt c then [c] else [])"
  "finals t [c] = (if is_final t c then [c] else [])"
  by (simp_all add: attempts_def finals_def)

lemma finals_none:
  assumes "finals t calls = []"
  shows "OnComplete \<notin> set calls" "OnInterrupt \<notin> set calls" "OnError RetriesExhausted \<notin> set calls"
  using assms by (auto simp: finals_def filter_empty_conv)

definition within_limit :: "legacy_execution \<Rightarrow> bool" where
  "within_limit e \<longleftrightarrow> (\<forall>n. attempt_limit (le_task e) = Some n \<longrightarrow> length (attempts (le_calls e)) \<le> n)
     \<and> (\<forall>code. OnError (InternalInvariantViolation code) \<notin> set (le_calls e))"

lemma untold_log_ok: "untold e \<Longrightarrow> log_ok e \<longleftrightarrow> within_limit e"
  by (auto simp: untold_def log_ok_def within_limit_def dest: finals_none)

section \<open>What the calls do to an execution\<close>

lemma notify_listener_execution:
  "fst (notify_listener source call outcome c) =
     (if task_listener (le_task (fst c)) = None then fst c
      else (fst c)\<lparr>le_calls := le_calls (fst c) @ [call]\<rparr>)"
  by (auto simp: notify_listener_def isolate_callback_def Let_def split: option.splits prod.splits)

lemma legacy_cancel_execution:
  "le_task (fst (legacy_cancel c)) = le_task (fst c)" "le_calls (fst (legacy_cancel c)) = le_calls (fst c)"
  "le_interrupt_notified (fst (legacy_cancel c)) = le_interrupt_notified (fst c)"
  "le_cancelled (fst (legacy_cancel c))"
  by (auto simp: legacy_cancel_def Let_def split: prod.splits)

lemma notify_interrupt_execution:
  "le_task (fst (notify_interrupt outcome c)) = le_task (fst c)"
  "le_cancelled (fst (notify_interrupt outcome c))"
  "le_calls (fst (notify_interrupt outcome c)) = le_calls (fst c) @
      (if le_interrupt_notified (fst c) \<or> task_listener (le_task (fst c)) = None then [] else [OnInterrupt])"
  using legacy_cancel_execution [of c] unfolding notify_interrupt_def notify_interrupt_listener_def
  by (auto simp: notify_listener_execution split: prod.splits)

lemma log_call_execution [simp]:
  "fst (log_call call c) = (fst c)\<lparr>le_calls := le_calls (fst c) @ [call]\<rparr>"
  by (simp add: log_call_def)

lemma told_interrupt:
  assumes "untold (fst c)" and "within_limit (fst c)"
  shows "told (fst (notify_interrupt outcome c))" and "log_ok (fst (notify_interrupt outcome c))"
  using assms notify_interrupt_execution [of outcome c]
  by (auto simp: told_def log_ok_def untold_def within_limit_def dest: finals_none)

lemma told_complete:
  assumes "untold (fst c)" and "within_limit (fst c)"
    and "attempts (le_calls (fst c)) \<noteq> []" "last (attempts (le_calls (fst c))) = WorkReturned (Done ())"
  shows "told (fst (notify_complete outcome c))" and "log_ok (fst (notify_complete outcome c))"
  using assms
  by (auto simp: notify_complete_def notify_listener_execution told_def log_ok_def untold_def within_limit_def
      dest: finals_none)

lemma told_exhausted:
  assumes "untold (fst c)" and "within_limit (fst c)"
    and "attempt_limit (le_task (fst c)) = Some n" "attempts (le_calls (fst c)) = need_retries n"
  shows "told (fst (notify_error RetriesExhausted outcome c))"
    and "log_ok (fst (notify_error RetriesExhausted outcome c))"
  using assms
  by (auto simp: notify_error_def notify_listener_execution told_def log_ok_def untold_def within_limit_def
      dest: finals_none)

lemma told_failed:
  assumes "untold (fst c)" and "within_limit (fst c)"
  shows "log_ok (fst (notify_error (TaskExecutionFailed m) outcome c))"
    and "attempt_limit (le_task (fst c)) \<noteq> None \<Longrightarrow> told (fst (notify_error (TaskExecutionFailed m) outcome c))"
    and "attempt_limit (le_task (fst c)) = None \<Longrightarrow> untold (fst (notify_error (TaskExecutionFailed m) outcome c))"
  using assms
  by (auto simp: notify_error_def notify_listener_execution told_def log_ok_def untold_def within_limit_def
      dest: finals_none)

lemma notify_task [simp]:
  "le_task (fst (notify_complete outcome c)) = le_task (fst c)"
  "le_task (fst (notify_error err outcome c)) = le_task (fst c)"
  "le_cancelled (fst (notify_complete outcome c)) = le_cancelled (fst c)"
  "le_cancelled (fst (notify_error err outcome c)) = le_cancelled (fst c)"
  "le_interrupt_notified (fst (notify_error err outcome c)) = le_interrupt_notified (fst c)"
  "attempts (le_calls (fst (notify_error err outcome c))) = attempts (le_calls (fst c))"
  by (simp_all add: notify_complete_def notify_error_def notify_listener_execution)

section \<open>The attempt loops\<close>

definition in_loop :: "nat \<Rightarrow> legacy_execution \<Rightarrow> bool" where
  "in_loop i e \<longleftrightarrow> untold e \<and> within_limit e
     \<and> (\<forall>n. attempt_limit (le_task e) = Some n \<longrightarrow> i < n \<and> retried i e)"

text \<open>What is known of an execution whose run is at a point.\<close>

primrec run_ok :: "run_point \<Rightarrow> legacy_execution \<Rightarrow> bool" where
  "run_ok (LoopHead i) e =
     (case attempt_limit (le_task e) of
        None \<Rightarrow> in_loop i e
      | Some n \<Rightarrow> if i < n then in_loop i e
          else i = n \<and> log_ok e \<and> (if n = 0 then untold e else told e))"
| "run_ok (Waiting i) e = in_loop i e"
| "run_ok (Progressed i) e = in_loop i e"
| "run_ok (Working i) e = in_loop i e"
| "run_ok (Resting i) e = (in_loop i e \<and> attempt_limit (le_task e) = None)"
| "run_ok Returned e = (log_ok e \<and> (attempt_limit (le_task e) \<noteq> Some 0 \<longrightarrow> told e))"
| "run_ok (Crashed p) e = (untold e \<and> within_limit e)"

lemma in_loop_D: "in_loop i e \<Longrightarrow> untold e" "in_loop i e \<Longrightarrow> within_limit e"
  by (simp_all add: in_loop_def)

lemma run_ok_log: "run_ok pt e \<Longrightarrow> log_ok e"
  by (cases pt) (auto simp: in_loop_def untold_log_ok split: option.splits if_splits)

definition run_result_ok :: "legacy_execution \<Rightarrow> run_point \<times> exec_ctx \<Rightarrow> bool" where
  "run_result_ok e r \<longleftrightarrow>
     run_ok (fst r) (fst (snd r)) \<and> le_task (fst (snd r)) = le_task e
     \<and> (le_cancelled e \<longrightarrow> le_cancelled (fst (snd r)))"

lemma interrupted_return_ok:
  assumes "untold (fst c)" and "within_limit (fst c)"
  shows "run_result_ok (fst c) (interrupted_return inp c)"
  using told_interrupt [OF assms] by (simp add: interrupted_return_def run_result_ok_def notify_interrupt_execution)

lemma sleep_then_ok:
  assumes "in_loop i (fst c)" and "run_ok here (fst c)" and "run_ok next (fst c)"
  shows "run_result_ok (fst c) (sleep_then d here next inp c)"
  using assms interrupted_return_ok [OF in_loop_D [OF assms(1)]]
  by (auto simp: sleep_then_def run_result_ok_def split: option.splits bool.splits)

lemma in_loop_attempt:
  assumes "in_loop i e" and "is_attempt a"
  shows "untold (e\<lparr>le_calls := le_calls e @ [a]\<rparr>)" and "within_limit (e\<lparr>le_calls := le_calls e @ [a]\<rparr>)"
proof -
  have "\<not> is_final t a" "\<And>code. a \<noteq> OnError (InternalInvariantViolation code)" for t
    using assms(2) by (cases a; simp)+
  then show "untold (e\<lparr>le_calls := le_calls e @ [a]\<rparr>)" and "within_limit (e\<lparr>le_calls := le_calls e @ [a]\<rparr>)"
    using assms by (auto simp: in_loop_def untold_def within_limit_def retried_def)
qed

lemma work_then_ok:
  assumes loop: "in_loop i (fst c)" and here: "run_ok here (fst c)"
    and last: "last_attempt \<longleftrightarrow> attempt_limit (le_task (fst c)) = Some (Suc i)"
    and next_pt: "next = LoopHead (Suc i) \<or> next = Resting i \<and> attempt_limit (le_task (fst c)) = None"
  shows "run_result_ok (fst c) (work_then here next last_attempt inp c)"
proof (cases "in_work inp")
  case WorkPending
  with here show ?thesis by (simp add: work_then_def run_result_ok_def)
next
  case (WorkPanic p)
  with in_loop_attempt [OF loop, of "WorkPanicked p"] show ?thesis
    by (simp add: work_then_def run_result_ok_def)
next
  case (WorkReady r)
  let ?c = "log_call (WorkReturned r) c" and ?cb = "in_callback inp"
  have log: "untold (fst ?c)" "within_limit (fst ?c)" using in_loop_attempt [OF loop, of "WorkReturned r"] by simp_all
  have task: "le_task (fst ?c) = le_task (fst c)" "le_cancelled (fst ?c) = le_cancelled (fst c)" by simp_all
  consider "le_cancelled (fst c)" | "\<not> le_cancelled (fst c)" "r = Done ()" | "\<not> le_cancelled (fst c)" "r = NeedRetry" "last_attempt"
    | "\<not> le_cancelled (fst c)" "r = NeedRetry" "\<not> last_attempt"
    by (cases r) auto
  then show ?thesis
  proof cases
    case 1
    with interrupted_return_ok [OF log] WorkReady show ?thesis by (simp add: work_then_def run_result_ok_def Let_def)
  next
    case 2
    then have "attempts (le_calls (fst ?c)) \<noteq> []" "last (attempts (le_calls (fst ?c))) = WorkReturned (Done ())"
      by simp_all
    from told_complete [OF log this] 2 WorkReady show ?thesis
      by (simp add: work_then_def run_result_ok_def Let_def)
  next
    case 3
    with last have limit: "attempt_limit (le_task (fst ?c)) = Some (Suc i)" by simp
    with loop 3 have "attempts (le_calls (fst ?c)) = need_retries (Suc i)"
      by (simp add: in_loop_def retried_def replicate_append_same)
    from told_exhausted [OF log limit this] 3 WorkReady limit next_pt show ?thesis
      by (auto simp: work_then_def run_result_ok_def Let_def)
  next
    case 4
    have "Suc i < n \<and> retried (Suc i) (fst ?c)" if "attempt_limit (le_task (fst c)) = Some n" for n
      using loop that last 4 by (auto simp: in_loop_def retried_def replicate_append_same)
    with log 4 WorkReady next_pt show ?thesis
      by (auto simp: work_then_def run_result_ok_def Let_def in_loop_def split: option.splits)
  qed
qed

text \<open>The case analysis all loops share: only points that stay and the operations above occur.\<close>

lemma stay_ok: "run_ok pt (fst c) \<Longrightarrow> run_result_ok (fst c) (pt, c)"
  by (simp add: run_result_ok_def)

lemmas loop_rules = stay_ok interrupted_return_ok sleep_then_ok work_then_ok

lemma isolate_progress_ok:
  assumes "in_loop i (fst c)"
  shows "run_result_ok (fst c) (Progressed i, isolate_callback source (OnProgress a b tag) outcome c)"
  using assms by (auto simp: run_result_ok_def isolate_callback_def in_loop_def untold_def within_limit_def
      retried_def split: prod.splits)

lemma run_time_interval_ok:
  assumes "run_ok pt (fst c)" and "le_task (fst c) = TimeInterval t"
  shows "run_result_ok (fst c) (run_time_interval t inp pt c)"
  using assms
proof (cases pt)
  case (LoopHead i)
  show ?thesis
  proof (cases "i < length (tit_intervals t)")
    case True
    with assms LoopHead have loop: "in_loop i (fst c)" by simp
    with True LoopHead interrupted_return_ok [OF in_loop_D [OF loop]] show ?thesis
      by (auto simp: run_result_ok_def)
  next
    case False
    with assms LoopHead show ?thesis by (auto simp: run_result_ok_def)
  qed
next
  case (Waiting i)
  with assms show ?thesis by (auto intro!: sleep_then_ok)
next
  case (Working i)
  with assms show ?thesis by (auto intro!: work_then_ok)
qed (auto intro!: stay_ok)

lemma interval_present: "i < unat (rit_total_retries t) \<Longrightarrow> \<exists>ms. interval_millis t i = Some ms"
  by (simp add: interval_millis_def)

lemma run_range_interval_ok:
  assumes "run_ok pt (fst c)" and "le_task (fst c) = RangeInterval t"
  shows "run_result_ok (fst c) (run_range_interval t inp pt c)"
  using assms
proof (cases pt)
  case (LoopHead i)
  show ?thesis
  proof (cases "i < unat (rit_total_retries t)")
    case True
    with assms LoopHead have loop: "in_loop i (fst c)" by simp
    have "i - 1 < unat (rit_total_retries t)" using True by simp
    then obtain ms where "interval_millis t (i - 1) = Some ms" using interval_present by blast
    with True LoopHead loop interrupted_return_ok [OF in_loop_D [OF loop]] show ?thesis
      by (auto simp: run_result_ok_def)
  next
    case False
    with assms LoopHead show ?thesis by (auto simp: run_result_ok_def)
  qed
next
  case (Waiting i)
  with assms show ?thesis by (auto intro!: sleep_then_ok stay_ok split: option.splits)
next
  case (Working i)
  with assms show ?thesis by (auto intro!: work_then_ok)
qed (auto intro!: stay_ok)

lemma run_fixed_count_ok:
  assumes "run_ok pt (fst c)" and "le_task (fst c) = FixedCount t"
  shows "run_result_ok (fst c) (run_fixed_count t inp pt c)"
  using assms
proof (cases pt)
  case (LoopHead i)
  show ?thesis
  proof (cases "i < unat (fct_count t)")
    case True
    with assms LoopHead have loop: "in_loop i (fst c)" by simp
    with True LoopHead interrupted_return_ok [OF in_loop_D [OF loop]] isolate_progress_ok [OF loop] show ?thesis
      by (auto simp: run_result_ok_def split: option.splits)
  next
    case False
    with assms LoopHead show ?thesis by (auto simp: run_result_ok_def)
  qed
next
  case (Progressed i)
  with assms show ?thesis
    by (auto intro!: interrupted_return_ok stay_ok dest: in_loop_D)
next
  case (Working i)
  with assms show ?thesis by (auto intro!: work_then_ok)
qed (auto intro!: stay_ok)

lemma run_periodic_ok:
  assumes "run_ok pt (fst c)" and "le_task (fst c) = Periodic t"
  shows "run_result_ok (fst c) (run_periodic t inp pt c)"
  using assms
proof (cases pt)
  case (LoopHead i)
  with assms show ?thesis by (auto intro!: interrupted_return_ok stay_ok dest: in_loop_D)
next
  case (Waiting i)
  with assms show ?thesis by (auto intro!: sleep_then_ok)
next
  case (Working i)
  with assms show ?thesis by (auto intro!: work_then_ok)
next
  case (Resting i)
  with assms show ?thesis by (auto intro!: sleep_then_ok simp: in_loop_def)
qed (auto intro!: stay_ok)

lemma run_task_ok: "run_ok pt (fst c) \<Longrightarrow> run_result_ok (fst c) (run_task inp pt c)"
  unfolding run_task_def
  by (cases "le_task (fst c)")
     (simp_all add: run_time_interval_ok run_range_interval_ok run_fixed_count_ok run_periodic_ok)

section \<open>The invariant of the dam\<close>

primrec worker_splash :: "worker_point \<Rightarrow> splash option" where
  "worker_splash Receiving = None"
| "worker_splash (Checking sp) = Some sp"
| "worker_splash (Publishing sp) = Some sp"
| "worker_splash (Rechecking sp) = Some sp"
| "worker_splash (RunningTask sp pt) = Some sp"
| "worker_splash (Healing sp) = Some sp"
| "worker_splash (Restarting sp) = Some sp"
| "worker_splash (Clearing sp) = Some sp"
| "worker_splash WorkerExited = None"

text \<open>The worker has taken the execution past its second look at the watermark.\<close>

primrec admitted :: "worker_point \<Rightarrow> splash option" where
  "admitted Receiving = None"
| "admitted (Checking sp) = None"
| "admitted (Publishing sp) = None"
| "admitted (Rechecking sp) = None"
| "admitted (RunningTask sp pt) = Some sp"
| "admitted (Healing sp) = Some sp"
| "admitted (Restarting sp) = Some sp"
| "admitted (Clearing sp) = None"
| "admitted WorkerExited = None"

primrec published :: "worker_point \<Rightarrow> splash option" where
  "published Receiving = None"
| "published (Checking sp) = None"
| "published (Publishing sp) = None"
| "published (Rechecking sp) = Some sp"
| "published (RunningTask sp pt) = Some sp"
| "published (Healing sp) = Some sp"
| "published (Restarting sp) = Some sp"
| "published (Clearing sp) = Some sp"
| "published WorkerExited = None"

fun stamped_ref :: "client_op \<Rightarrow> nat list" where
  "stamped_ref (EnqueueStamped sp) = [sp_execution sp]"
| "stamped_ref _ = []"

definition pending_refs :: "dam \<Rightarrow> nat list" where
  "pending_refs d = concat (map stamped_ref (dam_ops d)) @ map sp_execution (dam_queue d)"

definition worker_refs :: "dam \<Rightarrow> nat list" where
  "worker_refs d = (case worker_splash (dam_worker d) of None \<Rightarrow> [] | Some sp \<Rightarrow> [sp_execution sp])"

definition refs_ok :: "dam \<Rightarrow> bool" where
  "refs_ok d \<longleftrightarrow> distinct (worker_refs d @ pending_refs d)
     \<and> (\<forall>r \<in> set (worker_refs d @ pending_refs d). r < length (dam_executions d))
     \<and> dam_current d = map_option sp_execution (published (dam_worker d))"

text \<open>An execution under the watermark that runs is cancelled, or its canceller is on the way.\<close>

definition cancel_covered :: "dam \<Rightarrow> bool" where
  "cancel_covered d \<longleftrightarrow>
     (\<forall>sp. admitted (dam_worker d) = Some sp \<longrightarrow> sp_seq sp < dam_cancel_watermark d \<longrightarrow>
        le_cancelled (dam_executions d ! sp_execution sp)
        \<or> CancelRaised \<in> set (dam_ops d) \<or> ReleaseRaised \<in> set (dam_ops d))"

definition fresh_log :: "legacy_execution \<Rightarrow> bool" where
  "fresh_log e \<longleftrightarrow> le_calls e = [] \<and> \<not> le_interrupt_notified e"

definition recovering_ok :: "legacy_execution \<Rightarrow> bool" where
  "recovering_ok e \<longleftrightarrow> log_ok e \<and> (if attempt_limit (le_task e) = None then untold e else told e)"

primrec worker_ok :: "worker_point \<Rightarrow> legacy_execution list \<Rightarrow> bool" where
  "worker_ok Receiving es = True"
| "worker_ok (Checking sp) es = fresh_log (es ! sp_execution sp)"
| "worker_ok (Publishing sp) es = fresh_log (es ! sp_execution sp)"
| "worker_ok (Rechecking sp) es = fresh_log (es ! sp_execution sp)"
| "worker_ok (RunningTask sp pt) es = run_ok pt (es ! sp_execution sp)"
| "worker_ok (Healing sp) es = recovering_ok (es ! sp_execution sp)"
| "worker_ok (Restarting sp) es =
     (recovering_ok (es ! sp_execution sp) \<and> attempt_limit (le_task (es ! sp_execution sp)) = None)"
| "worker_ok (Clearing sp) es = True"
| "worker_ok WorkerExited es = True"

definition logs_ok :: "dam \<Rightarrow> bool" where
  "logs_ok d \<longleftrightarrow> (\<forall>r < length (dam_executions d). log_ok (dam_executions d ! r))
     \<and> (\<forall>r \<in> set (pending_refs d). fresh_log (dam_executions d ! r))
     \<and> worker_ok (dam_worker d) (dam_executions d)"

definition dam_inv :: "dam \<Rightarrow> bool" where
  "dam_inv d \<longleftrightarrow> refs_ok d \<and> cancel_covered d \<and> logs_ok d"

subsection \<open>Initial state\<close>

lemma dam_inv_init: "dam_init d \<Longrightarrow> dam_inv d"
  by (auto simp: dam_init_def dam_new_def dam_inv_def refs_ok_def worker_refs_def pending_refs_def
      cancel_covered_def logs_ok_def)

subsection \<open>Steps of the worker\<close>

text \<open>
  A step of the worker changes at most the execution it holds: the other executions, the callers
  and the watermark stay.  What it must establish is said of that execution and its new position.
\<close>

lemma logs_update:
  assumes "logs_ok d" and "r < length (dam_executions d)" and "r \<notin> set (pending_refs d)" and "log_ok e"
  shows "\<forall>q < length (dam_executions d). log_ok ((dam_executions d)[r := e] ! q)"
    and "\<forall>q \<in> set (pending_refs d). fresh_log ((dam_executions d)[r := e] ! q)"
  using assms by (auto simp: logs_ok_def nth_list_update)

lemma worker_moves:
  assumes inv: "dam_inv d" and sp: "worker_splash (dam_worker d) = Some sp"
    and e: "log_ok e" and cancelled: "le_cancelled (dam_executions d ! sp_execution sp) \<Longrightarrow> le_cancelled e"
    and d': "d' = d\<lparr>dam_executions := (dam_executions d)[sp_execution sp := e], dam_shared_state := s,
                    dam_current := map_option sp_execution (published w), dam_worker := w\<rparr>"
    and w: "worker_splash w = None \<or> worker_splash w = Some sp"
    and ok: "worker_ok w ((dam_executions d)[sp_execution sp := e])"
    and adm: "admitted w = Some sp \<Longrightarrow> admitted (dam_worker d) = Some sp \<or> dam_cancel_watermark d \<le> sp_seq sp"
  shows "dam_inv d'"
proof -
  have refs: "refs_ok d" and logs: "logs_ok d" and cov: "cancel_covered d" using inv by (simp_all add: dam_inv_def)
  have wr: "worker_refs d = [sp_execution sp]" using sp by (simp add: worker_refs_def)
  with refs have r: "sp_execution sp < length (dam_executions d)" "sp_execution sp \<notin> set (pending_refs d)"
    by (simp_all add: refs_ok_def)
  have pend: "pending_refs d' = pending_refs d" by (simp add: d' pending_refs_def)
  have "set (worker_refs d') \<subseteq> set (worker_refs d)" "distinct (worker_refs d')"
    using w sp by (auto simp: worker_refs_def d')
  then have "refs_ok d'" using refs unfolding refs_ok_def pend by (auto simp: d' wr)
  moreover have "logs_ok d'" unfolding logs_ok_def pend using logs_update [OF logs r e] ok by (simp add: d')
  moreover have "cancel_covered d'"
  proof -
    have q: "q = sp" if "admitted w = Some q" for q using w that by (cases w) auto
    show ?thesis
      unfolding cancel_covered_def
    proof (intro allI impI)
      fix q assume q_at: "admitted (dam_worker d') = Some q" and below: "sp_seq q < dam_cancel_watermark d'"
      then have "q = sp" using q by (simp add: d')
      with q_at below adm have "admitted (dam_worker d) = Some sp" "sp_seq sp < dam_cancel_watermark d"
        by (auto simp: d')
      with cov have "le_cancelled (dam_executions d ! sp_execution sp)
          \<or> CancelRaised \<in> set (dam_ops d) \<or> ReleaseRaised \<in> set (dam_ops d)"
        by (simp add: cancel_covered_def)
      with cancelled r \<open>q = sp\<close> show "le_cancelled (dam_executions d' ! sp_execution q)
          \<or> CancelRaised \<in> set (dam_ops d') \<or> ReleaseRaised \<in> set (dam_ops d')"
        by (auto simp: d')
    qed
  qed
  ultimately show ?thesis by (simp add: dam_inv_def)
qed

text \<open>The same for a step that only moves the worker.\<close>

lemma worker_moves_only:
  assumes inv: "dam_inv d" and sp: "worker_splash (dam_worker d) = Some sp"
    and w: "worker_splash w = None \<or> worker_splash w = Some sp"
    and ok: "worker_ok w (dam_executions d)"
    and adm: "admitted w = Some sp \<Longrightarrow> admitted (dam_worker d) = Some sp \<or> dam_cancel_watermark d \<le> sp_seq sp"
    and d': "d' = d\<lparr>dam_current := map_option sp_execution (published w), dam_worker := w\<rparr>"
  shows "dam_inv d'"
proof (rule worker_moves [OF inv sp _ _ _ w _ adm])
  have "sp_execution sp < length (dam_executions d)" using inv sp by (simp add: dam_inv_def refs_ok_def worker_refs_def)
  then show "log_ok (dam_executions d ! sp_execution sp)" using inv by (simp add: dam_inv_def logs_ok_def)
  show "d' = d\<lparr>dam_executions := (dam_executions d)[sp_execution sp := dam_executions d ! sp_execution sp],
      dam_shared_state := dam_shared_state d, dam_current := map_option sp_execution (published w), dam_worker := w\<rparr>"
    by (simp add: d')
  show "worker_ok w ((dam_executions d)[sp_execution sp := dam_executions d ! sp_execution sp])" using ok by simp
qed

lemma dam_inv_D:
  assumes "dam_inv d" and "worker_splash (dam_worker d) = Some sp"
  shows "log_ok (dam_executions d ! sp_execution sp)" and "worker_ok (dam_worker d) (dam_executions d)"
    and "dam_current d = map_option sp_execution (published (dam_worker d))"
    and "sp_execution sp < length (dam_executions d)"
  using assms by (auto simp: dam_inv_def logs_ok_def refs_ok_def worker_refs_def)

lemma fresh_log_in_loop: "fresh_log e \<Longrightarrow> run_ok (run_start (le_task e)) e"
  by (cases "le_task e") (auto simp: fresh_log_def in_loop_def untold_def within_limit_def retried_def log_ok_def)

lemma untold_fresh: "fresh_log e \<Longrightarrow> untold e \<and> within_limit e"
  by (auto simp: fresh_log_def untold_def within_limit_def)

lemma on_execution_eq:
  "on_execution r f d = d\<lparr>dam_executions := (dam_executions d)[r := fst (f (exec_ctx_of r d))],
                          dam_shared_state := snd (f (exec_ctx_of r d))\<rparr>"
  by (simp add: on_execution_def put_ctx_def)

lemma fst_exec_ctx_of [simp]: "fst (exec_ctx_of r d) = dam_executions d ! r"
  by (simp add: exec_ctx_of_def)

text \<open>Dropping an execution that must not run tells its listener.\<close>

lemma interrupt_moves:
  assumes inv: "dam_inv d" and sp: "worker_splash (dam_worker d) = Some sp"
    and e: "untold (dam_executions d ! sp_execution sp)" "within_limit (dam_executions d ! sp_execution sp)"
    and w: "w = Receiving \<and> published (dam_worker d) = None \<or> w = Clearing sp \<and> published (dam_worker d) = Some sp"
  shows "dam_inv ((on_execution (sp_execution sp) (notify_interrupt cb) d)\<lparr>dam_worker := w\<rparr>)"
proof (rule worker_moves [OF inv sp])
  let ?c = "exec_ctx_of (sp_execution sp) d"
  show "log_ok (fst (notify_interrupt cb ?c))" using told_interrupt(2) [of ?c cb] e by simp
  show "le_cancelled (fst (notify_interrupt cb ?c))" by (rule notify_interrupt_execution)
  show "(on_execution (sp_execution sp) (notify_interrupt cb) d)\<lparr>dam_worker := w\<rparr> =
    d\<lparr>dam_executions := (dam_executions d)[sp_execution sp := fst (notify_interrupt cb ?c)],
      dam_shared_state := snd (notify_interrupt cb ?c), dam_current := map_option sp_execution (published w), dam_worker := w\<rparr>"
    using w dam_inv_D(3) [OF inv sp] by (auto simp: on_execution_eq)
  show "worker_splash w = None \<or> worker_splash w = Some sp" using w by auto
  show "worker_ok w ((dam_executions d)[sp_execution sp := fst (notify_interrupt cb ?c)])" using w by auto
  show "admitted w = Some sp \<Longrightarrow> admitted (dam_worker d) = Some sp \<or> dam_cancel_watermark d \<le> sp_seq sp"
    using w by auto
qed

lemma worker_run_inv:
  assumes inv: "dam_inv d" and at: "dam_worker d = RunningTask sp pt"
  shows "dam_inv (worker_run sp pt inp d)"
proof -
  let ?e = "dam_executions d ! sp_execution sp" and ?c = "exec_ctx_of (sp_execution sp) d"
  have sp: "worker_splash (dam_worker d) = Some sp" by (simp add: at)
  note D = dam_inv_D [OF inv sp]
  have run: "run_ok pt ?e" using D(2) by (simp add: at)
  have clear: "dam_inv (d\<lparr>dam_worker := Clearing sp\<rparr>)"
    by (rule worker_moves_only [OF inv sp, of "Clearing sp"]) (use D(3) in \<open>simp_all add: at\<close>)
  consider "in_dropped inp \<or> pt = Returned" | p where "\<not> in_dropped inp" "pt = Crashed p"
    | "\<not> in_dropped inp" "pt \<noteq> Returned" "\<And>p. pt \<noteq> Crashed p"
    by (cases pt) auto
  then show ?thesis
  proof cases
    case 1
    with clear show ?thesis by (auto simp: worker_run_def)
  next
    case 2
    let ?f = "notify_error (TaskExecutionFailed (panic_message_to_string p)) (in_callback inp)"
    have "untold (fst ?c)" "within_limit (fst ?c)" using run 2 by simp_all
    note failed = told_failed [OF this, of "panic_message_to_string p" "in_callback inp"]
    have "dam_inv ((on_execution (sp_execution sp) ?f d)\<lparr>dam_worker := Healing sp\<rparr>)"
      by (rule worker_moves [OF inv sp failed(1), where w = "Healing sp" and s = "snd (?f ?c)"])
         (use D(3,4) failed in \<open>simp_all add: at on_execution_eq recovering_ok_def\<close>)
    with 2 show ?thesis by (simp add: worker_run_def)
  next
    case 3
    have res: "run_result_ok ?e (run_task inp pt ?c)" using run_task_ok [of pt ?c inp] run by simp
    obtain pt' c where step: "run_task inp pt ?c = (pt', c)" by (cases "run_task inp pt ?c")
    with res have c: "run_ok pt' (fst c)" "le_cancelled ?e \<Longrightarrow> le_cancelled (fst c)"
      by (auto simp: run_result_ok_def)
    have "dam_inv ((put_ctx (sp_execution sp) c d)\<lparr>dam_worker := RunningTask sp pt'\<rparr>)"
      by (rule worker_moves [OF inv sp run_ok_log [OF c(1)] c(2), where w = "RunningTask sp pt'" and s = "snd c"])
         (use D(3,4) c in \<open>simp_all add: at put_ctx_def\<close>)
    with 3 step show ?thesis by (cases pt) (auto simp: worker_run_def)
  qed
qed

lemma worker_receive_inv:
  assumes inv: "dam_inv d" and at: "dam_worker d = Receiving"
  shows "dam_inv (worker_receive d)"
proof (cases "dam_queue d")
  case Nil
  with inv at show ?thesis
    by (auto simp: worker_receive_def dam_inv_def refs_ok_def worker_refs_def pending_refs_def cancel_covered_def logs_ok_def)
next
  case (Cons sp rest)
  let ?d = "d\<lparr>dam_queue := rest, dam_worker := Checking sp\<rparr>"
  have pend: "set (pending_refs d) = insert (sp_execution sp) (set (pending_refs ?d))"
    "distinct (pending_refs d) \<longleftrightarrow> distinct (sp_execution sp # pending_refs ?d)"
    by (auto simp: pending_refs_def Cons)
  have "refs_ok ?d" using inv at pend by (simp add: dam_inv_def refs_ok_def worker_refs_def)
  moreover have "logs_ok ?d" using inv at pend(1) by (simp add: dam_inv_def logs_ok_def)
  moreover have "cancel_covered ?d" by (simp add: cancel_covered_def)
  ultimately show ?thesis using Cons by (simp add: worker_receive_def dam_inv_def)
qed

lemma worker_step_inv:
  assumes inv: "dam_inv d"
  shows "dam_inv (worker_step inp d)"
proof (cases "dam_worker d")
  case Receiving
  with worker_receive_inv [OF inv] show ?thesis by (simp add: worker_step_def)
next
  case (Checking sp)
  then have sp: "worker_splash (dam_worker d) = Some sp" by simp
  note D = dam_inv_D [OF inv sp]
  have fresh: "fresh_log (dam_executions d ! sp_execution sp)" using D(2) Checking by simp
  have "dam_inv (d\<lparr>dam_worker := Publishing sp\<rparr>)"
    by (rule worker_moves_only [OF inv sp, of "Publishing sp"]) (use D(3) fresh Checking in simp_all)
  with interrupt_moves [OF inv sp, of Receiving] untold_fresh [OF fresh] Checking show ?thesis
    by (simp add: worker_step_def worker_check_def)
next
  case (Publishing sp)
  then have sp: "worker_splash (dam_worker d) = Some sp" by simp
  note D = dam_inv_D [OF inv sp]
  have "dam_inv (d\<lparr>dam_current := Some (sp_execution sp), dam_worker := Rechecking sp\<rparr>)"
    by (rule worker_moves_only [OF inv sp, of "Rechecking sp"]) (use D(2,3) Publishing in simp_all)
  with Publishing show ?thesis by (simp add: worker_step_def worker_publish_def)
next
  case (Rechecking sp)
  then have sp: "worker_splash (dam_worker d) = Some sp" by simp
  note D = dam_inv_D [OF inv sp]
  have fresh: "fresh_log (dam_executions d ! sp_execution sp)" using D(2) Rechecking by simp
  let ?start = "run_start (le_task (dam_executions d ! sp_execution sp))"
  have "dam_inv (d\<lparr>dam_worker := RunningTask sp ?start\<rparr>)" if "dam_cancel_watermark d \<le> sp_seq sp"
    by (rule worker_moves_only [OF inv sp, of "RunningTask sp ?start"])
       (use D(3) fresh_log_in_loop [OF fresh] Rechecking that in simp_all)
  with interrupt_moves [OF inv sp, of "Clearing sp"] untold_fresh [OF fresh] Rechecking show ?thesis
    by (simp add: worker_step_def worker_recheck_def not_less)
next
  case (RunningTask sp pt)
  with worker_run_inv [OF inv this] show ?thesis by (simp add: worker_step_def)
next
  case (Healing sp)
  then have sp: "worker_splash (dam_worker d) = Some sp" by simp
  note D = dam_inv_D [OF inv sp]
  let ?t = "le_task (dam_executions d ! sp_execution sp)"
  have "dam_inv (d\<lparr>dam_worker := Clearing sp\<rparr>)"
    by (rule worker_moves_only [OF inv sp, of "Clearing sp"]) (use D(3) Healing in simp_all)
  moreover have "dam_inv (d\<lparr>dam_worker := Restarting sp\<rparr>)" if "?t = Periodic p" for p
    by (rule worker_moves_only [OF inv sp, of "Restarting sp"]) (use D(2,3) Healing that in simp_all)
  ultimately show ?thesis using Healing
    by (cases ?t) (simp_all add: worker_step_def worker_heal_def Let_def)
next
  case (Restarting sp)
  then have sp: "worker_splash (dam_worker d) = Some sp" by simp
  note D = dam_inv_D [OF inv sp]
  let ?e = "dam_executions d ! sp_execution sp"
  have rec: "untold ?e" "attempt_limit (le_task ?e) = None" using D(2) Restarting by (simp_all add: recovering_ok_def)
  have lim: "within_limit ?e" using D(1) untold_log_ok [OF rec(1)] by simp
  have start: "run_ok (run_start (le_task ?e)) ?e"
    using rec lim by (cases "le_task ?e") (simp_all add: in_loop_def)
  have "dam_inv (d\<lparr>dam_worker := RunningTask sp (run_start (le_task ?e))\<rparr>)"
    by (rule worker_moves_only [OF inv sp, of "RunningTask sp (run_start (le_task ?e))"])
       (use D(3) start Restarting in simp_all)
  with interrupt_moves [OF inv sp rec(1) lim, of "Clearing sp"] Restarting inv show ?thesis
    by (auto simp: worker_step_def worker_restart_def Let_def split: option.splits bool.splits)
next
  case (Clearing sp)
  then have sp: "worker_splash (dam_worker d) = Some sp" by simp
  have "dam_inv (d\<lparr>dam_current := None, dam_worker := Receiving\<rparr>)"
    by (rule worker_moves_only [OF inv sp, of Receiving]) simp_all
  with Clearing show ?thesis by (simp add: worker_step_def worker_clear_def)
next
  case WorkerExited
  with inv show ?thesis by (simp add: worker_step_def)
qed

subsection \<open>Steps of the callers\<close>

lemma stamped_refs_remove:
  assumes "op \<in> set ops"
  shows "mset (concat (map stamped_ref ops)) = mset (stamped_ref op) + mset (concat (map stamped_ref (remove1 op ops)))"
  using assms by (induction ops) auto

lemma pending_remove:
  assumes "op \<in> set (dam_ops d)"
  defines "d' \<equiv> d\<lparr>dam_ops := remove1 op (dam_ops d)\<rparr>"
  shows "mset (pending_refs d) = mset (stamped_ref op) + mset (pending_refs d')"
  unfolding d'_def pending_refs_def using stamped_refs_remove [OF assms(1)] by simp

lemma refs_mset:
  assumes "mset xs = mset ys"
  shows "distinct xs \<longleftrightarrow> distinct ys" and "set xs = set ys"
  using assms by (metis mset_eq_imp_distinct_iff, metis mset_eq_setD)

text \<open>A caller's step that leaves executions, worker and watermark alone.\<close>

lemma caller_inv:
  assumes inv: "dam_inv d"
    and same: "dam_executions d' = dam_executions d" "dam_worker d' = dam_worker d" "dam_current d' = dam_current d"
      "dam_cancel_watermark d' = dam_cancel_watermark d"
    and pend: "set (pending_refs d') \<subseteq> set (pending_refs d)" "distinct (pending_refs d) \<Longrightarrow> distinct (pending_refs d')"
    and ops: "CancelRaised \<in> set (dam_ops d) \<Longrightarrow> CancelRaised \<in> set (dam_ops d')"
      "ReleaseRaised \<in> set (dam_ops d) \<Longrightarrow> ReleaseRaised \<in> set (dam_ops d')"
  shows "dam_inv d'"
proof -
  have "worker_refs d' = worker_refs d" by (simp add: worker_refs_def same)
  then have "refs_ok d'" using inv pend unfolding dam_inv_def refs_ok_def by (auto simp: same)
  moreover have "cancel_covered d'" using inv ops unfolding dam_inv_def cancel_covered_def same by blast
  moreover have "logs_ok d'" using inv pend unfolding dam_inv_def logs_ok_def same by blast
  ultimately show ?thesis by (simp add: dam_inv_def)
qed

lemma remove_op_inv:
  assumes inv: "dam_inv d" and op: "op \<in> set (dam_ops d)" "op \<noteq> CancelRaised" "op \<noteq> ReleaseRaised"
  shows "dam_inv (d\<lparr>dam_ops := remove1 op (dam_ops d)\<rparr>)"
proof (rule caller_inv [OF inv])
  let ?d = "d\<lparr>dam_ops := remove1 op (dam_ops d)\<rparr>"
  have pend: "mset (pending_refs d) = mset (stamped_ref op @ pending_refs ?d)" using pending_remove [OF op(1)] by simp
  show "set (pending_refs ?d) \<subseteq> set (pending_refs d)" using refs_mset(2) [OF pend] by simp
  show "distinct (pending_refs d) \<Longrightarrow> distinct (pending_refs ?d)" using refs_mset(1) [OF pend] by simp
qed (use op in auto)

lemma add_op_pending [simp]:
  "pending_refs (add_op op d) = stamped_ref op @ pending_refs d"
  "worker_refs (add_op op d) = worker_refs d"
  by (simp_all add: add_op_def pending_refs_def worker_refs_def)

lemma add_op_inv:
  assumes "dam_inv d" and "stamped_ref op = []"
  shows "dam_inv (add_op op d)"
  by (rule caller_inv [OF assms(1)]) (use assms(2) in \<open>simp_all, simp_all add: add_op_def\<close>)

lemma enqueue_stamp_inv:
  assumes inv: "dam_inv d"
  shows "dam_inv (enqueue_stamp t d)"
proof -
  let ?es = "dam_executions d" and ?d = "enqueue_stamp t d"
  have es: "dam_executions ?d = ?es @ [legacy_new t]" and w: "dam_worker ?d = dam_worker d"
    by (simp_all add: enqueue_stamp_def add_op_def)
  have pend: "pending_refs ?d = length ?es # pending_refs d" and wr: "worker_refs ?d = worker_refs d"
    by (simp_all add: enqueue_stamp_def add_op_def pending_refs_def worker_refs_def)
  have lt: "\<forall>r \<in> set (worker_refs d @ pending_refs d). r < length ?es" and refs: "refs_ok d"
    using inv by (simp_all add: dam_inv_def refs_ok_def)
  have "length ?es \<notin> set (worker_refs d @ pending_refs d)" using lt by blast
  then have "refs_ok ?d" using refs lt unfolding refs_ok_def pend wr
    by (auto simp: enqueue_stamp_def add_op_def less_Suc_eq)
  moreover have "logs_ok ?d"
  proof -
    have "log_ok (legacy_new t)" "fresh_log (legacy_new t)"
      by (simp_all add: legacy_new_def log_ok_def fresh_log_def)
    moreover have "worker_ok (dam_worker d) (?es @ [legacy_new t])"
      using inv lt unfolding dam_inv_def logs_ok_def
      by (cases "dam_worker d") (auto simp: worker_refs_def nth_append)
    ultimately show ?thesis using inv lt unfolding dam_inv_def logs_ok_def pend es w
      by (auto simp: nth_append less_Suc_eq)
  qed
  moreover have "cancel_covered ?d"
  proof -
    have "sp_execution sp < length ?es" if "admitted (dam_worker d) = Some sp" for sp
    proof -
      have "worker_splash (dam_worker d) = Some sp" using that by (cases "dam_worker d") auto
      with lt show ?thesis by (simp add: worker_refs_def)
    qed
    with inv show ?thesis
      unfolding dam_inv_def cancel_covered_def by (auto simp: enqueue_stamp_def add_op_def nth_append)
  qed
  ultimately show ?thesis by (simp add: dam_inv_def)
qed

lemma enqueue_send_inv:
  assumes inv: "dam_inv d" and op: "EnqueueStamped sp \<in> set (dam_ops d)"
  shows "dam_inv (snd (enqueue_send sp (d\<lparr>dam_ops := remove1 (EnqueueStamped sp) (dam_ops d)\<rparr>)))"
proof -
  let ?d = "d\<lparr>dam_ops := remove1 (EnqueueStamped sp) (dam_ops d)\<rparr>"
  let ?q = "?d\<lparr>dam_queue := dam_queue d @ [sp]\<rparr>"
  have "mset (pending_refs ?q) = mset (pending_refs d)"
    using pending_remove [OF op] by (simp add: pending_refs_def)
  note same = refs_mset [OF this]
  have "dam_inv ?q"
    by (rule caller_inv [OF inv]) (use same in auto)
  moreover have "dam_inv ?d" by (rule remove_op_inv [OF inv op]) simp_all
  ultimately show ?thesis by (simp add: enqueue_send_def)
qed

lemma raise_inv:
  assumes inv: "dam_inv d" and op: "op = CancelRaised \<or> op = ReleaseRaised"
  shows "dam_inv (add_op op (d\<lparr>dam_cancel_watermark := m\<rparr>))"
proof -
  let ?d = "add_op op (d\<lparr>dam_cancel_watermark := m\<rparr>)"
  have "pending_refs ?d = pending_refs d" "worker_refs ?d = worker_refs d"
    using op by (auto simp: pending_refs_def worker_refs_def add_op_def)
  then have "refs_ok ?d" "logs_ok ?d" using inv unfolding dam_inv_def refs_ok_def logs_ok_def
    by (simp_all add: add_op_def)
  moreover have "cancel_covered ?d" using op by (auto simp: cancel_covered_def add_op_def)
  ultimately show ?thesis by (simp add: dam_inv_def)
qed

subsection \<open>Cancelling the current execution\<close>

definition same_log :: "legacy_execution \<Rightarrow> legacy_execution \<Rightarrow> bool" where
  "same_log e e' \<longleftrightarrow> le_task e' = le_task e \<and> le_calls e' = le_calls e
     \<and> le_interrupt_notified e' = le_interrupt_notified e"

lemma same_log_ok:
  assumes "same_log e e'"
  shows "log_ok e' = log_ok e" "fresh_log e' = fresh_log e" "recovering_ok e' = recovering_ok e"
    "run_ok pt e' = run_ok pt e"
proof -
  have views: "untold e' = untold e" "told e' = told e" "within_limit e' = within_limit e"
    "\<And>i. retried i e' = retried i e"
    using assms by (auto simp: same_log_def untold_def told_def within_limit_def retried_def)
  show log: "log_ok e' = log_ok e" "fresh_log e' = fresh_log e"
    using assms by (auto simp: same_log_def log_ok_def fresh_log_def)
  have t: "le_task e' = le_task e" using assms by (simp add: same_log_def)
  show "recovering_ok e' = recovering_ok e" by (simp add: recovering_ok_def t views log)
  show "run_ok pt e' = run_ok pt e" by (cases pt) (simp_all add: in_loop_def t views log split: option.splits)
qed

lemma cancel_current_inv:
  assumes refs: "refs_ok d" and logs: "logs_ok d"
  shows "dam_inv (cancel_current d)"
proof (cases "dam_current d")
  case None
  then have "published (dam_worker d) = None" using refs by (simp add: refs_ok_def)
  then have "admitted (dam_worker d) = None" by (cases "dam_worker d") auto
  with None refs logs show ?thesis by (simp add: cancel_current_def dam_inv_def cancel_covered_def)
next
  case (Some r)
  let ?e = "dam_executions d ! r" and ?e' = "fst (legacy_cancel (exec_ctx_of r d))"
  let ?d = "on_execution r legacy_cancel d"
  obtain sp where pub: "published (dam_worker d) = Some sp" and r: "r = sp_execution sp"
    using refs Some by (cases "published (dam_worker d)") (auto simp: refs_ok_def)
  then have spl: "worker_splash (dam_worker d) = Some sp" by (cases "dam_worker d") auto
  have lt: "r < length (dam_executions d)" using refs spl r by (simp add: refs_ok_def worker_refs_def)
  have same: "same_log ?e ?e'" using legacy_cancel_execution [of "exec_ctx_of r d"] by (simp add: same_log_def)
  have nth: "log_ok ((dam_executions d)[r := ?e'] ! q) = log_ok (dam_executions d ! q)"
    "fresh_log ((dam_executions d)[r := ?e'] ! q) = fresh_log (dam_executions d ! q)" for q
    using same_log_ok [OF same] lt by (cases "q = r"; simp)+
  have eq: "?d = d\<lparr>dam_executions := (dam_executions d)[r := ?e'],
      dam_shared_state := snd (legacy_cancel (exec_ctx_of r d))\<rparr>" by (simp add: on_execution_eq)
  have refs': "pending_refs ?d = pending_refs d" "worker_refs ?d = worker_refs d"
    by (simp_all add: eq pending_refs_def worker_refs_def)
  have "refs_ok ?d" using refs unfolding refs_ok_def refs' by (simp add: eq)
  moreover have "logs_ok ?d"
  proof -
    have "worker_ok (dam_worker d) ((dam_executions d)[r := ?e'])"
      using logs pub r lt same_log_ok [OF same] legacy_cancel_execution(1) [of "exec_ctx_of r d"]
      by (cases "dam_worker d") (auto simp: logs_ok_def)
    with logs show ?thesis unfolding logs_ok_def refs' by (simp add: eq nth)
  qed
  moreover have "cancel_covered ?d"
  proof -
    have "q = sp" if "admitted (dam_worker d) = Some q" for q using that spl by (cases "dam_worker d") auto
    then show ?thesis using lt legacy_cancel_execution(4) [of "exec_ctx_of r d"]
      unfolding cancel_covered_def eq by (auto simp: r [symmetric])
  qed
  ultimately show ?thesis using Some by (simp add: cancel_current_def dam_inv_def)
qed

lemma client_step_inv:
  assumes inv: "dam_inv d" and op: "op \<in> set (dam_ops d)"
  shows "dam_inv (client_step op (d\<lparr>dam_ops := remove1 op (dam_ops d)\<rparr>))"
proof -
  let ?d = "d\<lparr>dam_ops := remove1 op (dam_ops d)\<rparr>"
  have pend: "mset (pending_refs d) = mset (stamped_ref op @ pending_refs ?d)" using pending_remove [OF op] by simp
  have "refs_ok ?d" "logs_ok ?d" if "stamped_ref op = []"
    using inv refs_mset [OF pend] that unfolding dam_inv_def refs_ok_def logs_ok_def
    by (auto simp: worker_refs_def)
  note raised = cancel_current_inv [OF this]
  note removed = remove_op_inv [OF inv op]
  show ?thesis
  proof (cases op)
    case (EnqueueChecked t)
    with enqueue_stamp_inv [OF removed] show ?thesis by simp
  next
    case (EnqueueStamped sp)
    with enqueue_send_inv [OF inv] op show ?thesis by simp
  next
    case (CancelLoaded w)
    with raise_inv [OF removed] show ?thesis by (simp add: cancel_all_raise_def)
  next
    case CancelRaised
    with raised show ?thesis by simp
  next
    case ReleaseFlagged
    with raise_inv [OF removed] show ?thesis by (simp add: release_raise_def)
  next
    case ReleaseRaised
    with add_op_inv [OF raised, of ReleaseCancelled] show ?thesis by (simp add: release_cancel_def)
  next
    case ReleaseCancelled
    have "dam_inv (release_close ?d)"
      by (rule caller_inv [OF removed])
         (use ReleaseCancelled in \<open>auto simp: release_close_def pending_refs_def\<close>)
    with ReleaseCancelled show ?thesis by simp
  qed
qed

lemma dam_step_inv:
  assumes "dam_inv d" and "dam_step d d'"
  shows "dam_inv d'"
  using assms(2,1)
proof cases
  case (step_enqueue t)
  with assms(1) add_op_inv [of d] show ?thesis by (auto simp: enqueue_check_def split: if_splits)
next
  case step_cancel_all
  with assms(1) add_op_inv [of d] show ?thesis by (simp add: cancel_all_load_def)
next
  case step_release
  have "dam_inv (d\<lparr>dam_release_flag := True\<rparr>)"
    by (rule caller_inv [OF assms(1)]) (simp_all add: pending_refs_def)
  with step_release add_op_inv show ?thesis by (simp add: release_begin_def)
qed (use assms(1) worker_step_inv client_step_inv in auto)

interpretation dam: invariant_system dam_init dam_step dam_inv
  by unfold_locales (auto intro: dam_inv_init dam_step_inv)

section \<open>Sequence numbers\<close>

text \<open>Stamping and creating an execution happen together, so the stamp is the execution's index.\<close>

fun op_splashes :: "client_op \<Rightarrow> splash list" where
  "op_splashes (EnqueueStamped sp) = [sp]"
| "op_splashes _ = []"

definition splashes :: "dam \<Rightarrow> splash set" where
  "splashes d = set (concat (map op_splashes (dam_ops d))) \<union> set (dam_queue d)
     \<union> set_option (worker_splash (dam_worker d))"

definition seq_ok :: "dam \<Rightarrow> bool" where
  "seq_ok d \<longleftrightarrow> dam_enqueue_seq d = of_nat (length (dam_executions d))
     \<and> (\<forall>sp \<in> splashes d. sp_execution sp < length (dam_executions d) \<and> sp_seq sp = of_nat (sp_execution sp))"

lemma seq_ok_same:
  assumes "seq_ok d" and "dam_enqueue_seq d' = dam_enqueue_seq d"
    and "length (dam_executions d') = length (dam_executions d)" and "splashes d' \<subseteq> splashes d"
  shows "seq_ok d'"
  using assms unfolding seq_ok_def by auto

lemma on_execution_fields [simp]:
  "dam_ops (on_execution r f d) = dam_ops d" "dam_queue (on_execution r f d) = dam_queue d"
  "dam_worker (on_execution r f d) = dam_worker d" "dam_enqueue_seq (on_execution r f d) = dam_enqueue_seq d"
  "dam_cancel_watermark (on_execution r f d) = dam_cancel_watermark d"
  "length (dam_executions (on_execution r f d)) = length (dam_executions d)"
  by (simp_all add: on_execution_eq)

lemma cancel_current_fields [simp]:
  "dam_ops (cancel_current d) = dam_ops d" "dam_queue (cancel_current d) = dam_queue d"
  "dam_worker (cancel_current d) = dam_worker d" "dam_enqueue_seq (cancel_current d) = dam_enqueue_seq d"
  "dam_cancel_watermark (cancel_current d) = dam_cancel_watermark d"
  "length (dam_executions (cancel_current d)) = length (dam_executions d)"
  by (simp_all add: cancel_current_def split: option.splits)

lemma worker_step_fields:
  "dam_ops (worker_step inp d) = dam_ops d" "dam_enqueue_seq (worker_step inp d) = dam_enqueue_seq d"
  "dam_cancel_watermark (worker_step inp d) = dam_cancel_watermark d"
  "length (dam_executions (worker_step inp d)) = length (dam_executions d)"
  by (auto simp: worker_step_def worker_receive_def worker_check_def worker_publish_def worker_recheck_def
      worker_run_def worker_heal_def worker_restart_def worker_clear_def put_ctx_def Let_def
      split: worker_point.splits list.splits run_point.splits option.splits bool.splits prod.splits)

lemma worker_step_splashes: "splashes (worker_step inp d) \<subseteq> splashes d"
  by (auto simp: splashes_def worker_step_def worker_receive_def worker_check_def worker_publish_def
      worker_recheck_def worker_run_def worker_heal_def worker_restart_def worker_clear_def put_ctx_def Let_def
      split: worker_point.splits list.splits run_point.splits option.splits bool.splits prod.splits
        task.splits if_splits)

lemma splashes_remove: "splashes (d\<lparr>dam_ops := remove1 op (dam_ops d)\<rparr>) \<subseteq> splashes d"
  using set_remove1_subset by (fastforce simp: splashes_def)

lemma splashes_add [simp]: "splashes (add_op op d) = set (op_splashes op) \<union> splashes d"
  by (auto simp: splashes_def add_op_def)

lemma seq_ok_client:
  assumes ok: "seq_ok d" and op: "op \<in> set (dam_ops d)"
  shows "seq_ok (client_step op (d\<lparr>dam_ops := remove1 op (dam_ops d)\<rparr>))"
proof -
  let ?d = "d\<lparr>dam_ops := remove1 op (dam_ops d)\<rparr>"
  have removed: "seq_ok ?d" by (rule seq_ok_same [OF ok]) (use splashes_remove in simp_all)
  show ?thesis
  proof (cases op)
    case (EnqueueChecked t)
    with removed show ?thesis by (auto simp: enqueue_stamp_def seq_ok_def splashes_def add_op_def less_Suc_eq)
  next
    case (EnqueueStamped sp)
    then have "sp \<in> splashes d" using op by (force simp: splashes_def)
    with EnqueueStamped ok removed show ?thesis by (auto simp: enqueue_send_def seq_ok_def splashes_def)
  next
    case (CancelLoaded w)
    show ?thesis unfolding CancelLoaded client_step.simps
      by (rule seq_ok_same [OF removed [unfolded CancelLoaded]]) (simp_all add: cancel_all_raise_def add_op_def splashes_def)
  next
    case CancelRaised
    show ?thesis unfolding CancelRaised client_step.simps
      by (rule seq_ok_same [OF removed [unfolded CancelRaised]]) (simp_all add: splashes_def)
  next
    case ReleaseFlagged
    show ?thesis unfolding ReleaseFlagged client_step.simps
      by (rule seq_ok_same [OF removed [unfolded ReleaseFlagged]]) (simp_all add: release_raise_def add_op_def splashes_def)
  next
    case ReleaseRaised
    show ?thesis unfolding ReleaseRaised client_step.simps
      by (rule seq_ok_same [OF removed [unfolded ReleaseRaised]]) (simp_all add: release_cancel_def add_op_def splashes_def)
  next
    case ReleaseCancelled
    show ?thesis unfolding ReleaseCancelled client_step.simps
      by (rule seq_ok_same [OF removed [unfolded ReleaseCancelled]]) (simp_all add: release_close_def splashes_def)
  qed
qed

lemma seq_ok_step:
  assumes ok: "seq_ok d" and "dam_step d d'"
  shows "seq_ok d'"
  using assms(2)
proof cases
  case (step_worker inp)
  show ?thesis unfolding step_worker(1)
    by (rule seq_ok_same [OF ok]) (simp_all add: worker_step_fields worker_step_splashes)
next
  case (step_enqueue t)
  then have "d' = add_op (EnqueueChecked t) d" by (simp add: enqueue_check_def split: if_splits)
  then show ?thesis using seq_ok_same [OF ok, of d'] by (simp add: add_op_def splashes_def)
next
  case step_cancel_all
  then show ?thesis using seq_ok_same [OF ok, of d'] by (simp add: cancel_all_load_def add_op_def splashes_def)
next
  case step_release
  then show ?thesis using seq_ok_same [OF ok, of d'] by (simp add: release_begin_def add_op_def splashes_def)
next
  case (step_client op)
  with seq_ok_client [OF ok] show ?thesis by simp
qed

lemma seq_ok_init: "dam_init d \<Longrightarrow> seq_ok d"
  by (auto simp: dam_init_def dam_new_def seq_ok_def splashes_def)

interpretation dam_seq: invariant_system dam_init dam_step seq_ok
  by unfold_locales (rule seq_ok_init, assumption, rule seq_ok_step)

lemma submitted_below:
  assumes "seq_ok d" and "sp \<in> splashes d" and "length (dam_executions d) < 2 ^ 64"
  shows "sp_seq sp < dam_enqueue_seq d" and "sp_seq sp < - 1"
proof -
  let ?r = "sp_execution sp" and ?n = "length (dam_executions d)"
  have r: "?r < ?n" "sp_seq sp = of_nat ?r" "dam_enqueue_seq d = of_nat ?n" using assms by (auto simp: seq_ok_def)
  then have "unat (sp_seq sp) = ?r" "unat (dam_enqueue_seq d) = ?n"
    using assms(3) by (simp_all add: unat_of_nat)
  with r(1) show lt: "sp_seq sp < dam_enqueue_seq d" by (simp add: word_less_nat_alt)
  from lt show "sp_seq sp < - 1" by (rule order.strict_trans2) simp
qed

text \<open>The watermark never falls.\<close>

lemma client_watermark: "dam_cancel_watermark d \<le> dam_cancel_watermark (client_step op d)"
  by (cases op) (auto simp: enqueue_stamp_def enqueue_send_def cancel_all_raise_def release_raise_def
      release_cancel_def release_close_def add_op_def)

lemma watermark_mono: "dam_step d d' \<Longrightarrow> dam_cancel_watermark d \<le> dam_cancel_watermark d'"
proof (induction rule: dam_step.induct)
  case (step_client op d)
  show ?case using client_watermark [of "d\<lparr>dam_ops := remove1 op (dam_ops d)\<rparr>" op] by simp
qed (auto simp: worker_step_fields enqueue_check_def cancel_all_load_def release_begin_def add_op_def split: if_splits)

section \<open>Starting an attempt\<close>

text \<open>An attempt starts only from a point where the execution was seen not to be cancelled.\<close>

lemma run_starts_attempt:
  assumes "run_task inp pt c = (Working i, c')" and "pt \<noteq> Working i"
  shows "\<not> le_cancelled (fst c)"
proof -
  have sleep: "\<not> le_cancelled (fst c)" if "sleep_then dur here (Working k) inp c = (Working i, c')" "here \<noteq> Working i" for dur here k
    using that by (auto simp: sleep_then_def legacy_sleep_def interrupted_return_def split: if_splits)
  have work: "pt = Working i" if "work_then here next l inp c = (Working i, c')" "next \<noteq> Working i" "here = pt" for here "next" l
    using that by (auto simp: work_then_def interrupted_return_def Let_def split: work_poll.splits if_splits)
  have no_sleep: "False" if "sleep_then dur here (LoopHead k) inp c = (Working i, c')" "here \<noteq> Working i" for dur here k
    using that by (auto simp: sleep_then_def interrupted_return_def split: option.splits bool.splits)
  show ?thesis
    using assms unfolding run_task_def
    by (cases "le_task (fst c)"; cases pt)
       (auto simp: interrupted_return_def split: if_splits option.splits dest: sleep work no_sleep)
qed

lemma worker_starts_attempt:
  assumes "dam_inv d" and "dam_worker (worker_step inp d) = RunningTask sp (Working i)"
    and "dam_worker d \<noteq> RunningTask sp (Working i)"
  shows "admitted (dam_worker d) = Some sp \<and> \<not> le_cancelled (dam_executions d ! sp_execution sp)"
proof (cases "dam_worker d")
  case (RunningTask q pt)
  have q: "q = sp" and pt: "pt \<noteq> Working i" and "\<not> in_dropped inp" "pt \<noteq> Returned" "\<And>p. pt \<noteq> Crashed p"
    using RunningTask assms(2,3)
    by (auto simp: worker_step_def worker_run_def put_ctx_def split: run_point.splits if_splits prod.splits)
  moreover obtain pt' c' where run: "run_task inp pt (exec_ctx_of (sp_execution q) d) = (pt', c')"
    by (cases "run_task inp pt (exec_ctx_of (sp_execution q) d)")
  ultimately have "pt' = Working i"
    using RunningTask assms(2)
    by (auto simp: worker_step_def worker_run_def put_ctx_def split: run_point.splits)
  with run_starts_attempt [of inp pt "exec_ctx_of (sp_execution q) d" i c'] run pt q RunningTask show ?thesis by simp
next
  case (Rechecking q)
  with assms(2) show ?thesis
    by (cases "le_task (dam_executions d ! sp_execution q)")
       (auto simp: worker_step_def worker_recheck_def split: if_splits)
next
  case (Restarting q)
  with assms(2) show ?thesis
    by (cases "le_task (dam_executions d ! sp_execution q)")
       (auto simp: worker_step_def worker_restart_def Let_def split: if_splits option.splits bool.splits)
next
  case (Healing q)
  with assms(2) show ?thesis
    by (auto simp: worker_step_def worker_heal_def Let_def split: task.splits if_splits)
qed (use assms(2) in \<open>auto simp: worker_step_def worker_receive_def worker_check_def worker_publish_def
      worker_clear_def split: list.splits if_splits\<close>)

lemma client_worker [simp]: "dam_worker (client_step op d) = dam_worker d"
  by (cases op) (simp_all add: enqueue_stamp_def enqueue_send_def cancel_all_raise_def release_raise_def
      release_cancel_def release_close_def add_op_def)

lemma attempt_above_watermark:
  assumes inv: "dam_inv d" and step: "dam_step d d'"
    and quiet: "CancelRaised \<notin> set (dam_ops d)" "ReleaseRaised \<notin> set (dam_ops d)"
    and "dam_worker d' = RunningTask sp (Working i)" and "dam_worker d \<noteq> dam_worker d'"
  shows "dam_cancel_watermark d \<le> sp_seq sp"
proof -
  have "\<exists>inp. d' = worker_step inp d"
    using step assms(5,6)
    by cases (auto simp: enqueue_check_def cancel_all_load_def release_begin_def add_op_def split: if_splits)
  with worker_starts_attempt [OF inv] assms(5,6) have "admitted (dam_worker d) = Some sp"
    "\<not> le_cancelled (dam_executions d ! sp_execution sp)" by auto
  with inv quiet show ?thesis unfolding dam_inv_def cancel_covered_def by (meson not_le)
qed

section \<open>Executable runs\<close>

text \<open>One interleaving as a list of actions; a client action names the entry of \<open>dam_ops\<close> that moves.\<close>

datatype (plugins only: size) dam_action = Worker run_input | Submit task | CancelAll | Release | Caller nat

fun dam_act :: "dam_action \<Rightarrow> dam \<Rightarrow> dam" where
  "dam_act (Worker inp) d = worker_step inp d"
| "dam_act (Submit t) d = (case enqueue_check t d of Inl _ \<Rightarrow> d | Inr d' \<Rightarrow> d')"
| "dam_act CancelAll d = cancel_all_load d"
| "dam_act Release d = release_begin d"
| "dam_act (Caller k) d =
     (if k < length (dam_ops d)
      then client_step (dam_ops d ! k) (d\<lparr>dam_ops := remove1 (dam_ops d ! k) (dam_ops d)\<rparr>) else d)"

definition dam_run :: "dam_action list \<Rightarrow> dam \<Rightarrow> dam" where
  "dam_run acts d = fold dam_act acts d"

lemma dam_act_steps: "d = dam_act a d \<or> dam_step d (dam_act a d)"
  by (cases a) (auto intro: dam_step.intros split: sum.splits)

lemma dam_run_steps: "dam_step\<^sup>*\<^sup>* d (dam_run acts d)"
proof (induction acts arbitrary: d)
  case (Cons a acts)
  have "dam_step\<^sup>*\<^sup>* d (dam_act a d)" using dam_act_steps [of d a] by (metis r_into_rtranclp rtranclp.rtrancl_refl)
  with Cons.IH [of "dam_act a d"] show ?case by (simp add: dam_run_def)
qed (simp add: dam_run_def)

lemma dam_run_reach: "0 < capacity \<Longrightarrow> reach dam_init dam_step (dam_run acts (dam_new capacity))"
  by (rule reach_steps [OF reach_init dam_run_steps]) (auto simp: dam_init_def)

end
