(* ===== verification/BB_Dam_Claims.thy ===== *)
theory BB_Dam_Claims
  imports BB_Dam_Props
begin

text \<open>The properties of the dam, and runs that show them at work.\<close>

section \<open>A concrete run\<close>

definition demo_task :: task where
  "demo_task = FixedCount \<lparr>fct_id = 0, fct_work = 0, fct_count = 1, fct_tag = None, fct_progress = None,
                          fct_listener = Some 0\<rparr>"

definition demo_input :: "work_poll \<Rightarrow> run_input" where
  "demo_input w = \<lparr>in_elapsed = True, in_work = w, in_callback = None, in_dropped = False\<rparr>"

definition idle :: dam_action where "idle = Worker (demo_input WorkPending)"

definition demo_prefix :: "dam_action list" where
  "demo_prefix = [Submit demo_task, Caller 0, Caller 0, idle, idle, idle, idle, idle]"

lemmas demo_defs = demo_task_def demo_input_def idle_def demo_prefix_def dam_new_def dam_run_def
  enqueue_check_def enqueue_stamp_def enqueue_send_def add_op_def cancel_all_load_def cancel_all_raise_def
  cancel_current_def worker_step_def worker_receive_def worker_check_def worker_publish_def
  worker_recheck_def worker_run_def worker_clear_def put_ctx_def exec_ctx_of_def run_task_def
  on_execution_def work_then_def log_call_def notify_complete_def notify_listener_def
  isolate_callback_def interrupted_return_def notify_interrupt_def notify_interrupt_listener_def
  legacy_cancel_def set_interrupted_def legacy_new_def

section \<open>Properties\<close>



text \<open>
  C22. A listener is told the end of its execution at most once, and exactly once when the run of a
  task that has attempts returns: completed, interrupted or exhausted (or, for a bounded task,
  failed by a panic), but never two of them, whatever cancellations, panics and callback panics
  happen.
\<close>

theorem listener_told_once:
  assumes "reach dam_init dam_step d" and "r < length (dam_executions d)"
    and "e = dam_executions d ! r"
  shows "length (finals (le_task e) (le_calls e)) \<le> 1
    \<and> (dam_worker d = RunningTask sp Returned \<and> sp_execution sp = r \<and> task_listener (le_task e) \<noteq> None
         \<and> attempt_limit (le_task e) \<noteq> Some 0 \<longrightarrow> length (finals (le_task e) (le_calls e)) = 1)"
proof -
  have logs: "logs_ok d" using dam.reach_inv [OF assms(1)] by (simp add: dam_inv_def)
  with assms(2,3) have "length (finals (le_task e) (le_calls e)) \<le> 1" by (simp add: logs_ok_def log_ok_def)
  with logs assms(3) show ?thesis by (auto simp: logs_ok_def told_def)
qed

lemma listener_told_once_witness:
  "length (finals demo_task (le_calls (dam_executions
     (dam_run (demo_prefix @ [idle, Worker (demo_input (WorkReady (Done ())))]) (dam_new 1)) ! 0))) = 1"
proof -
  let ?acts = "demo_prefix @ [idle, Worker (demo_input (WorkReady (Done ())))]"
  let ?d = "dam_run ?acts (dam_new 1)" and ?sp = "\<lparr>sp_execution = 0, sp_seq = 0\<rparr>"
  have "dam_worker ?d = RunningTask ?sp Returned" "0 < length (dam_executions ?d)"
    "le_task (dam_executions ?d ! 0) = demo_task"
    by (simp_all add: demo_defs)
  with listener_told_once [OF dam_run_reach _ refl, of 1 0 ?acts ?sp] show ?thesis
    by (simp del: One_nat_def add: demo_task_def)
qed

text \<open>
  A bounded task gets at most its number of attempts.  It is reported exhausted only after all
  of them asked for a retry, and completed only when the last attempt was done; the internal error
  for a missing range delay never happens.
\<close>

theorem attempts_stay_bounded:
  assumes "reach dam_init dam_step d" and "r < length (dam_executions d)" and "e = dam_executions d ! r"
    and "attempt_limit (le_task e) = Some n"
  shows "length (attempts (le_calls e)) \<le> n
    \<and> (OnError RetriesExhausted \<in> set (le_calls e) \<longrightarrow> attempts (le_calls e) = need_retries n)
    \<and> (OnComplete \<in> set (le_calls e) \<longrightarrow> last (attempts (le_calls e)) = WorkReturned (Done ()))
    \<and> OnError (InternalInvariantViolation code) \<notin> set (le_calls e)"
proof -
  have "log_ok e" using dam.reach_inv [OF assms(1)] assms(2,3) by (simp add: dam_inv_def logs_ok_def)
  with assms(4) show ?thesis by (auto simp: log_ok_def)
qed

lemma attempts_stay_bounded_witness:
  "attempts (le_calls (dam_executions
     (dam_run (demo_prefix @ [idle, Worker (demo_input (WorkReady NeedRetry)), idle]) (dam_new 1)) ! 0)) = need_retries 1"
proof -
  let ?acts = "demo_prefix @ [idle, Worker (demo_input (WorkReady NeedRetry)), idle]"
  let ?d = "dam_run ?acts (dam_new 1)"
  have "OnError RetriesExhausted \<in> set (le_calls (dam_executions ?d ! 0))" "0 < length (dam_executions ?d)"
    "attempt_limit (le_task (dam_executions ?d ! 0)) = Some 1"
    by (simp_all add: demo_defs notify_error_def)
  with attempts_stay_bounded [OF dam_run_reach _ refl, of 1 0 ?acts 1 "[]"] show ?thesis
    by (simp del: One_nat_def)
qed

end
