(* ===== verification/BB_Retry.thy ===== *)
theory BB_Retry
  imports BB_Types
begin

unbundle bit_operations_syntax

text \<open>
  Typed retries (\<open>retry.rs\<close>): the backoff plan and its replayable jitter, the builder with its
  validation order, and the attempt loop \<open>run_retry\<close> with its deadline, attempt timeout, predicate
  and stop checks.

  Floating point is a parameter: a record \<open>float_ops\<close> of the \<open>f64\<close> operations the code uses; nothing
  is assumed of them.  What an attempt meets at run time (clock readings, stop causes, how the
  spawned future ends, what the predicate answers) is an input, one record per attempt.
\<close>

section \<open>Floating point and jitter\<close>

record 'f float_ops =
  fl_is_finite :: "'f \<Rightarrow> bool"
  fl_le :: "'f \<Rightarrow> 'f \<Rightarrow> bool"
  fl_lt :: "'f \<Rightarrow> 'f \<Rightarrow> bool"
  fl_add :: "'f \<Rightarrow> 'f \<Rightarrow> 'f"
  fl_sub :: "'f \<Rightarrow> 'f \<Rightarrow> 'f"
  fl_mul :: "'f \<Rightarrow> 'f \<Rightarrow> 'f"
  fl_div :: "'f \<Rightarrow> 'f \<Rightarrow> 'f"
  fl_min :: "'f \<Rightarrow> 'f \<Rightarrow> 'f"
  fl_zero :: 'f
  fl_one :: 'f
  fl_two :: 'f
  fl_of_u64 :: "u64 \<Rightarrow> 'f"
  fl_as_secs :: "duration \<Rightarrow> 'f"
  fl_try_duration :: "'f \<Rightarrow> duration option"

record 'f jitter =
  jit_seed :: u64
  jit_ratio :: 'f

definition jitter_is_valid :: "'f float_ops \<Rightarrow> 'f jitter \<Rightarrow> bool" where
  "jitter_is_valid F j \<longleftrightarrow>
     fl_is_finite F (jit_ratio j) \<and> fl_le F (fl_zero F) (jit_ratio j) \<and> fl_le F (jit_ratio j) (fl_one F)"

text \<open>One xorshift step of the replayable generator.\<close>

definition xorshift :: "u64 \<Rightarrow> u64" where
  "xorshift s0 =
     (let s1 = s0 XOR push_bit 13 s0;
          s2 = s1 XOR drop_bit 7 s1
      in s2 XOR push_bit 17 s2)"

definition jitter_factor :: "'f float_ops \<Rightarrow> 'f \<Rightarrow> u64 \<Rightarrow> 'f" where
  "jitter_factor F ratio state =
     (let unit = fl_div F (fl_of_u64 F state) (fl_of_u64 F (- 1))
      in fl_add F (fl_sub F (fl_one F) ratio) (fl_mul F (fl_mul F (fl_two F) ratio) unit))"

definition jittered :: "'f float_ops \<Rightarrow> 'f \<Rightarrow> u64 \<Rightarrow> duration \<Rightarrow> duration option" where
  "jittered F ratio state delay = fl_try_duration F (fl_mul F (fl_as_secs F delay) (jitter_factor F ratio state))"

definition jitter_apply :: "'f float_ops \<Rightarrow> 'f jitter \<Rightarrow> duration \<Rightarrow> u64 \<Rightarrow> duration option" where
  "jitter_apply F j delay stream_index =
     (if \<not> jitter_is_valid F j then None
      else jittered F (jit_ratio j) (xorshift (jit_seed j XOR (stream_index * 0x9E3779B97F4A7C15))) delay)"

section \<open>Delay plans\<close>

datatype (plugins only: size) 'f backoff =
    BackoffNone
  | BackoffFixed duration
  | BackoffExplicit "duration list"
  | BackoffExponential duration 'f duration

datatype (plugins only: size) retry_build_error =
    InvalidAttemptCount
  | AttemptCountTooLarge
  | RetryPolicyRequired
  | DelayCountMismatch nat nat
  | InvalidBackoffMultiplier
  | BackoffCapBelowBase
  | InvalidJitterRatio
  | ZeroAttemptTimeout
  | ConflictingDeadline
  | DurationOverflow

datatype (plugins only: size) 'f delay_source =
    ZeroDelay
  | FixedDelay duration
  | ExplicitDelays "duration list"
  | ExponentialDelay duration 'f duration

record 'f delay_plan =
  dp_source :: "'f delay_source"
  dp_jitter :: "'f jitter option"
  dp_jitter_cap :: "duration option"
  dp_len :: nat

datatype (plugins only: size) 'f base_delay_iter =
    Repeated duration nat
  | ExplicitIter "duration list"
  | ExponentialIter nat 'f 'f 'f

definition base_iter :: "'f float_ops \<Rightarrow> 'f delay_plan \<Rightarrow> 'f base_delay_iter" where
  "base_iter F p =
     (case dp_source p of
        ZeroDelay \<Rightarrow> Repeated 0 (dp_len p)
      | FixedDelay delay \<Rightarrow> Repeated delay (dp_len p)
      | ExplicitDelays delays \<Rightarrow> ExplicitIter delays
      | ExponentialDelay base multiplier cap \<Rightarrow>
          ExponentialIter (dp_len p) (fl_as_secs F base) multiplier (fl_as_secs F cap))"

type_synonym delay_item = "retry_build_error + duration"

text \<open>\<open>Iterator::next\<close>: the item and the advanced iterator.\<close>

fun base_next :: "'f float_ops \<Rightarrow> 'f base_delay_iter \<Rightarrow> (delay_item \<times> 'f base_delay_iter) option" where
  "base_next F (Repeated delay remaining) =
     (if remaining = 0 then None else Some (Inr delay, Repeated delay (remaining - 1)))"
| "base_next F (ExplicitIter []) = None"
| "base_next F (ExplicitIter (delay # delays)) = Some (Inr delay, ExplicitIter delays)"
| "base_next F (ExponentialIter remaining seconds multiplier cap_seconds) =
     (if remaining = 0 then None
      else
        let delay = (case fl_try_duration F (fl_min F seconds cap_seconds) of
                       None \<Rightarrow> Inl DurationOverflow | Some d \<Rightarrow> Inr d);
            seconds' = fl_min F (fl_mul F seconds multiplier) cap_seconds
        in Some (if \<not> fl_is_finite F seconds' then Inl DurationOverflow else delay,
                 ExponentialIter (remaining - 1) seconds' multiplier cap_seconds))"

record 'f delay_iter =
  di_base :: "'f base_delay_iter"
  di_jitter :: "'f jitter option"
  di_cap :: "duration option"

text \<open>The jitter state is kept in the seed field.\<close>

definition plan_iter :: "'f float_ops \<Rightarrow> 'f delay_plan \<Rightarrow> 'f delay_iter" where
  "plan_iter F p = \<lparr>di_base = base_iter F p, di_jitter = dp_jitter p, di_cap = dp_jitter_cap p\<rparr>"

definition cap_delay :: "duration option \<Rightarrow> duration \<Rightarrow> duration" where
  "cap_delay cap d = (case cap of None \<Rightarrow> d | Some c \<Rightarrow> min d c)"

definition delay_next :: "'f float_ops \<Rightarrow> 'f delay_iter \<Rightarrow> (delay_item \<times> 'f delay_iter) option" where
  "delay_next F it =
     (case base_next F (di_base it) of
        None \<Rightarrow> None
      | Some (Inl err, base) \<Rightarrow> Some (Inl err, it\<lparr>di_base := base\<rparr>)
      | Some (Inr delay, base) \<Rightarrow>
          (case di_jitter it of
             None \<Rightarrow> Some (Inr delay, it\<lparr>di_base := base\<rparr>)
           | Some j \<Rightarrow>
               let state = xorshift (jit_seed j);
                   it' = it\<lparr>di_base := base, di_jitter := Some (j\<lparr>jit_seed := state\<rparr>)\<rparr>
               in (case jittered F (jit_ratio j) state delay of
                     None \<Rightarrow> Some (Inl DurationOverflow, it')
                   | Some d \<Rightarrow> Some (Inr (cap_delay (di_cap it) d), it'))))"

text \<open>All items of an iterator.  Every \<open>next\<close> leaves fewer of them.\<close>

primrec base_remaining :: "'f base_delay_iter \<Rightarrow> nat" where
  "base_remaining (Repeated delay remaining) = remaining"
| "base_remaining (ExplicitIter delays) = length delays"
| "base_remaining (ExponentialIter remaining seconds multiplier cap_seconds) = remaining"

lemma base_next_remaining: "base_next F it = Some (x, it') \<Longrightarrow> Suc (base_remaining it') = base_remaining it"
  by (induction F it rule: base_next.induct) (auto simp: Let_def split: if_splits)

lemma base_next_None: "base_next F it = None \<longleftrightarrow> base_remaining it = 0"
  by (induction F it rule: base_next.induct) (auto simp: Let_def)

lemma delay_next_remaining:
  assumes "delay_next F it = Some (x, it')"
  shows "Suc (base_remaining (di_base it')) = base_remaining (di_base it)"
proof -
  obtain y b where b: "base_next F (di_base it) = Some (y, b)" and "di_base it' = b"
    using assms by (auto simp: delay_next_def Let_def split: option.splits sum.splits)
  with base_next_remaining [OF b] show ?thesis by simp
qed

lemma delay_next_None: "delay_next F it = None \<longleftrightarrow> base_remaining (di_base it) = 0"
proof -
  have "delay_next F it = None \<longleftrightarrow> base_next F (di_base it) = None"
    by (auto simp: delay_next_def Let_def split: option.splits sum.splits)
  then show ?thesis by (simp add: base_next_None)
qed

function (sequential) base_items :: "'f float_ops \<Rightarrow> 'f base_delay_iter \<Rightarrow> delay_item list" where
  "base_items F it = (case base_next F it of None \<Rightarrow> [] | Some (x, it') \<Rightarrow> x # base_items F it')"
  by pat_completeness auto
termination
  by (relation "measure (\<lambda>(F, it). base_remaining it)") (auto dest!: base_next_remaining)

function (sequential) delay_items :: "'f float_ops \<Rightarrow> 'f delay_iter \<Rightarrow> delay_item list" where
  "delay_items F it = (case delay_next F it of None \<Rightarrow> [] | Some (x, it') \<Rightarrow> x # delay_items F it')"
  by pat_completeness auto
termination
  by (relation "measure (\<lambda>(F, it). base_remaining (di_base it))") (auto dest!: delay_next_remaining)

declare base_items.simps [simp del] delay_items.simps [simp del]

text \<open>A loop that returns the first error.\<close>

fun first_error :: "delay_item list \<Rightarrow> retry_build_error option" where
  "first_error [] = None"
| "first_error (Inl err # items) = Some err"
| "first_error (Inr d # items) = first_error items"

definition delay_source_of ::
  "'f float_ops \<Rightarrow> 'f backoff \<Rightarrow> nat \<Rightarrow> retry_build_error + ('f delay_source \<times> duration option)" where
  "delay_source_of F backoff retry_count =
     (case backoff of
        BackoffNone \<Rightarrow> Inr (ZeroDelay, None)
      | BackoffFixed delay \<Rightarrow> Inr (FixedDelay delay, None)
      | BackoffExplicit delays \<Rightarrow>
          if length delays \<noteq> retry_count then Inl (DelayCountMismatch retry_count (length delays))
          else Inr (ExplicitDelays delays, None)
      | BackoffExponential base multiplier cap \<Rightarrow>
          if \<not> fl_is_finite F multiplier \<or> fl_lt F multiplier (fl_one F) then Inl InvalidBackoffMultiplier
          else if cap < base then Inl BackoffCapBelowBase
          else Inr (ExponentialDelay base multiplier cap, Some cap))"

definition plan_build ::
  "'f float_ops \<Rightarrow> 'f backoff \<Rightarrow> nat \<Rightarrow> 'f jitter option \<Rightarrow> retry_build_error + 'f delay_plan" where
  "plan_build F backoff retry_count jitter =
     (case delay_source_of F backoff retry_count of
        Inl err \<Rightarrow> Inl err
      | Inr (source, jitter_cap) \<Rightarrow>
          let plan = \<lparr>dp_source = source, dp_jitter = jitter, dp_jitter_cap = jitter_cap, dp_len = retry_count\<rparr> in
          (case first_error (base_items F (base_iter F plan)) of
             Some err \<Rightarrow> Inl err
           | None \<Rightarrow>
               (case jitter of
                  None \<Rightarrow> Inr plan
                | Some j \<Rightarrow>
                    if \<not> jitter_is_valid F j then Inl InvalidJitterRatio
                    else (case first_error (delay_items F (plan_iter F plan)) of
                            Some err \<Rightarrow> Inl err
                          | None \<Rightarrow> Inr plan))))"

section \<open>The dense construction\<close>

text \<open>The reference of the unit tests: all delays up front, then the jitter over the whole vector.\<close>

primrec exponential_loop :: "'f float_ops \<Rightarrow> 'f \<Rightarrow> 'f \<Rightarrow> nat \<Rightarrow> 'f \<Rightarrow> retry_build_error + duration list" where
  "exponential_loop F multiplier cap_seconds 0 seconds = Inr []"
| "exponential_loop F multiplier cap_seconds (Suc n) seconds =
     (case fl_try_duration F (fl_min F seconds cap_seconds) of
        None \<Rightarrow> Inl DurationOverflow
      | Some delay \<Rightarrow>
          let seconds' = fl_min F (fl_mul F seconds multiplier) cap_seconds in
          if \<not> fl_is_finite F seconds' then Inl DurationOverflow
          else map_sum id ((#) delay) (exponential_loop F multiplier cap_seconds n seconds'))"

definition build_delays :: "'f float_ops \<Rightarrow> 'f backoff \<Rightarrow> nat \<Rightarrow> retry_build_error + duration list" where
  "build_delays F backoff retry_count =
     (case backoff of
        BackoffNone \<Rightarrow> Inr (replicate retry_count 0)
      | BackoffFixed delay \<Rightarrow> Inr (replicate retry_count delay)
      | BackoffExplicit delays \<Rightarrow>
          if length delays \<noteq> retry_count then Inl (DelayCountMismatch retry_count (length delays))
          else Inr delays
      | BackoffExponential base multiplier cap \<Rightarrow>
          if \<not> fl_is_finite F multiplier \<or> fl_lt F multiplier (fl_one F) then Inl InvalidBackoffMultiplier
          else if cap < base then Inl BackoffCapBelowBase
          else exponential_loop F multiplier (fl_as_secs F cap) retry_count (fl_as_secs F base))"

primrec jitter_loop ::
  "'f float_ops \<Rightarrow> 'f \<Rightarrow> duration option \<Rightarrow> u64 \<Rightarrow> duration list \<Rightarrow> retry_build_error + duration list" where
  "jitter_loop F ratio cap state [] = Inr []"
| "jitter_loop F ratio cap state (delay # delays) =
     (let state' = xorshift state in
      case jittered F ratio state' delay of
        None \<Rightarrow> Inl DurationOverflow
      | Some d \<Rightarrow> map_sum id ((#) (cap_delay cap d)) (jitter_loop F ratio cap state' delays))"

definition apply_jitter ::
  "'f float_ops \<Rightarrow> duration list \<Rightarrow> 'f jitter \<Rightarrow> duration option \<Rightarrow> retry_build_error + duration list" where
  "apply_jitter F delays j cap =
     (if \<not> jitter_is_valid F j then Inl InvalidJitterRatio
      else jitter_loop F (jit_ratio j) cap (jit_seed j) delays)"

definition backoff_cap :: "'f backoff \<Rightarrow> duration option" where
  "backoff_cap b = (case b of BackoffExponential base m cap \<Rightarrow> Some cap | _ \<Rightarrow> None)"

definition dense_delays ::
  "'f float_ops \<Rightarrow> 'f backoff \<Rightarrow> nat \<Rightarrow> 'f jitter option \<Rightarrow> retry_build_error + duration list" where
  "dense_delays F backoff retry_count jitter =
     (case build_delays F backoff retry_count of
        Inl err \<Rightarrow> Inl err
      | Inr delays \<Rightarrow>
          (case jitter of None \<Rightarrow> Inr delays | Some j \<Rightarrow> apply_jitter F delays j (backoff_cap backoff)))"

section \<open>Specifications\<close>

datatype (plugins only: size) deadline_config = NoDeadline | AbsoluteDeadline instant | OverallTimeout duration

text \<open>The factory and the predicate are user code; of the predicate the specification keeps whether there is one.\<close>

record 'f retry_spec =
  rs_id :: task_spec_id
  rs_has_predicate :: bool
  rs_retry_all_errors :: bool
  rs_max_attempts :: u32
  rs_delays :: "'f delay_plan"
  rs_attempt_timeout :: "duration option"
  rs_retry_timed_out_attempts :: bool
  rs_deadline :: deadline_config
  rs_tag :: "string option"
  rs_abort_policy :: abort_policy

record 'f retry_builder =
  rb_has_predicate :: bool
  rb_retry_all_errors :: bool
  rb_max_attempts :: u32
  rb_backoff :: "'f backoff"
  rb_jitter :: "'f jitter option"
  rb_attempt_timeout :: "duration option"
  rb_retry_timed_out_attempts :: bool
  rb_deadline :: "instant option"
  rb_overall_timeout :: "duration option"
  rb_tag :: "string option"
  rb_abort_policy :: abort_policy

definition retry_builder_new :: "'f retry_builder" where
  "retry_builder_new =
     \<lparr>rb_has_predicate = False, rb_retry_all_errors = False, rb_max_attempts = 1, rb_backoff = BackoffNone,
      rb_jitter = None, rb_attempt_timeout = None, rb_retry_timed_out_attempts = False, rb_deadline = None,
      rb_overall_timeout = None, rb_tag = None, rb_abort_policy = CooperativeOnly\<rparr>"

definition retry_if :: "'f retry_builder \<Rightarrow> 'f retry_builder" where
  "retry_if b = b\<lparr>rb_has_predicate := True, rb_retry_all_errors := False\<rparr>"

definition retry_all_errors :: "'f retry_builder \<Rightarrow> 'f retry_builder" where
  "retry_all_errors b = b\<lparr>rb_has_predicate := False, rb_retry_all_errors := True\<rparr>"

definition max_attempts_limit :: u32 where "max_attempts_limit = 1000000"

definition timeout_overflows :: "instant \<Rightarrow> duration option \<Rightarrow> bool" where
  "timeout_overflows now t = (case t of None \<Rightarrow> False | Some d \<Rightarrow> instant_checked_add now d = None)"

definition retry_build ::
  "'f float_ops \<Rightarrow> instant \<Rightarrow> task_spec_id \<Rightarrow> 'f retry_builder \<Rightarrow> retry_build_error + 'f retry_spec" where
  "retry_build F now fresh b =
     (if rb_max_attempts b = 0 then Inl InvalidAttemptCount
      else if max_attempts_limit < rb_max_attempts b then Inl AttemptCountTooLarge
      else if 1 < rb_max_attempts b \<and> \<not> rb_has_predicate b \<and> \<not> rb_retry_all_errors b then Inl RetryPolicyRequired
      else if rb_deadline b \<noteq> None \<and> rb_overall_timeout b \<noteq> None then Inl ConflictingDeadline
      else if rb_attempt_timeout b = Some 0 then Inl ZeroAttemptTimeout
      else if timeout_overflows now (rb_attempt_timeout b) then Inl DurationOverflow
      else if timeout_overflows now (rb_overall_timeout b) then Inl DurationOverflow
      else
        (case plan_build F (rb_backoff b) (unat (rb_max_attempts b - 1)) (rb_jitter b) of
           Inl err \<Rightarrow> Inl err
         | Inr delays \<Rightarrow>
             Inr \<lparr>rs_id = fresh, rs_has_predicate = rb_has_predicate b,
                  rs_retry_all_errors = rb_retry_all_errors b, rs_max_attempts = rb_max_attempts b,
                  rs_delays = delays, rs_attempt_timeout = rb_attempt_timeout b,
                  rs_retry_timed_out_attempts = rb_retry_timed_out_attempts b,
                  rs_deadline = (case (rb_deadline b, rb_overall_timeout b) of
                     (Some d, _) \<Rightarrow> AbsoluteDeadline d
                   | (None, Some t) \<Rightarrow> OverallTimeout t
                   | (None, None) \<Rightarrow> NoDeadline),
                  rs_tag = rb_tag b, rs_abort_policy = rb_abort_policy b\<rparr>))"

definition deadline_at :: "'f retry_spec \<Rightarrow> instant \<Rightarrow> unit + instant option" where
  "deadline_at spec accepted_at =
     (case rs_deadline spec of
        NoDeadline \<Rightarrow> Inr None
      | AbsoluteDeadline d \<Rightarrow> Inr (Some d)
      | OverallTimeout t \<Rightarrow>
          (case instant_checked_add accepted_at t of None \<Rightarrow> Inl () | Some d \<Rightarrow> Inr (Some d)))"

section \<open>One attempt\<close>

datatype (plugins only: size) ('t, 'e) attempt_outcome =
    OutCompleted 't
  | OutFailed 'e
  | OutTimedOut
  | OutDeadline
  | OutPanicked panic_source string
  | OutExecutorStopped
  | OutTimerUnavailable

text \<open>How the spawned future ends, as far as it has when it is polled at an instant.\<close>

type_synonym ('t, 'e) poll = "instant \<times> ('e + 't) join_result option"

definition joined_outcome :: "('e + 't) join_result \<Rightarrow> ('t, 'e) attempt_outcome" where
  "joined_outcome r =
     (case r of
        JoinOk (Inr value) \<Rightarrow> OutCompleted value
      | JoinOk (Inl err) \<Rightarrow> OutFailed err
      | JoinPanic payload \<Rightarrow>
          let message = panic_message payload in
          if is_timer_unavailable_message message then OutTimerUnavailable
          else OutPanicked WorkFuturePanic message
      | JoinCancelled \<Rightarrow> OutExecutorStopped)"

definition reached :: "instant option \<Rightarrow> instant \<Rightarrow> bool" where
  "reached d now = (case d of None \<Rightarrow> False | Some t \<Rightarrow> t \<le> now)"

text \<open>The biased selection: the deadline first, then the attempt's timeout, then the future.\<close>

primrec wait_polls ::
  "instant option \<Rightarrow> instant option \<Rightarrow> ('t, 'e) poll list \<Rightarrow> ('t, 'e) attempt_outcome option" where
  "wait_polls deadline attempt_deadline [] = None"
| "wait_polls deadline attempt_deadline (p # polls) =
     (if reached deadline (fst p) then Some OutDeadline
      else if reached attempt_deadline (fst p) then Some OutTimedOut
      else case snd p of
        Some r \<Rightarrow> Some (joined_outcome r)
      | None \<Rightarrow> wait_polls deadline attempt_deadline polls)"

definition wait_attempt ::
  "instant option \<Rightarrow> duration option \<Rightarrow> instant \<Rightarrow> ('t, 'e) poll list \<Rightarrow> ('t, 'e) attempt_outcome option" where
  "wait_attempt deadline attempt_timeout now polls =
     (case attempt_timeout of
        None \<Rightarrow> wait_polls deadline None polls
      | Some timeout \<Rightarrow>
          (case instant_checked_add now timeout of
             None \<Rightarrow> Some OutTimedOut
           | Some attempt_deadline \<Rightarrow> wait_polls deadline (Some attempt_deadline) polls))"

record ('t, 'e) attempt_env =
  ae_now :: instant
  ae_stop_start :: "stop_cause option"
  ae_factory_panic :: "panic_payload option"
  ae_wait_start :: instant
  ae_polls :: "('t, 'e) poll list"
  ae_stop_end :: "stop_cause option"
  ae_predicate :: "bool option"
  ae_sleep_cancelled :: bool
  ae_stop_sleep :: "stop_cause option"
  ae_stop_next :: "stop_cause option"

definition attempt_result ::
  "'f retry_spec \<Rightarrow> instant option \<Rightarrow> ('t, 'e) attempt_env \<Rightarrow> ('t, 'e) attempt_outcome option" where
  "attempt_result spec deadline a =
     (case ae_factory_panic a of
        None \<Rightarrow> wait_attempt deadline (rs_attempt_timeout spec) (ae_wait_start a) (ae_polls a)
      | Some payload \<Rightarrow>
          let message = panic_message payload in
          Some (if is_timer_unavailable_message message then OutTimerUnavailable
                else OutPanicked FactoryPanic message))"

definition deadline_exit :: "'e option \<Rightarrow> ('t, 'e) task_exit" where
  "deadline_exit last_error = Failed (DeadlineExceeded last_error)"

definition selected_stop_exit :: "stop_cause option \<Rightarrow> 'e option \<Rightarrow> ('t, 'e) task_exit option" where
  "selected_stop_exit cause last_error =
     (case cause of
        Some (CancelCause reason) \<Rightarrow> Some (Cancelled reason)
      | Some DeadlineCause \<Rightarrow> Some (deadline_exit last_error)
      | None \<Rightarrow> None)"

datatype (plugins only: size) ('t, 'e) verdict = Exit "('t, 'e) task_exit" | RetryWith "'e option"

text \<open>What the outcome of attempt \<open>number\<close> means; \<open>RetryWith\<close> carries the error to remember.\<close>

definition judge_outcome ::
  "'f retry_spec \<Rightarrow> nat \<Rightarrow> bool option \<Rightarrow> 'e option \<Rightarrow> ('t, 'e) attempt_outcome \<Rightarrow> ('t, 'e) verdict" where
  "judge_outcome spec number predicate previous_error outcome =
     (case outcome of
        OutCompleted value \<Rightarrow> Exit (Completed value)
      | OutPanicked source message \<Rightarrow> Exit (Panicked source message)
      | OutExecutorStopped \<Rightarrow> Exit (ExecutorStopped StopRuntimeUnavailable)
      | OutTimerUnavailable \<Rightarrow> Exit (Failed TimerUnavailable)
      | OutDeadline \<Rightarrow> Exit (deadline_exit previous_error)
      | OutTimedOut \<Rightarrow>
          if \<not> rs_retry_timed_out_attempts spec \<or> number = unat (rs_max_attempts spec)
          then Exit (Failed (RetryFailed (AttemptTimedOut (of_nat number) previous_error True)))
          else RetryWith previous_error
      | OutFailed err \<Rightarrow>
          if number = unat (rs_max_attempts spec) then Exit (Failed (RetryFailed (Exhausted err)))
          else if rs_retry_all_errors spec then RetryWith (Some err)
          else if \<not> rs_has_predicate spec then Exit (ExecutorStopped StopInternalInvariantViolation)
          else (case predicate of
                  Some False \<Rightarrow> Exit (Failed (RetryFailed (NonRetryable err)))
                | Some True \<Rightarrow> RetryWith (Some err)
                | None \<Rightarrow> Exit (Failed (PolicyPanicked PredicateStage (Some err)))))"

section \<open>The attempt loop\<close>

text \<open>What the loop does, in order; the calls of user code and the waits matter.\<close>

datatype (plugins only: size) retry_event = AttemptBegan nat | AttemptCalled nat | DeadlineMarked | Waited duration

definition then_events :: "'ev list \<Rightarrow> 'x \<times> 'ev list \<Rightarrow> 'x \<times> 'ev list" where
  "then_events evs r = (fst r, evs @ snd r)"

text \<open>How an iteration of the loop leaves: with an exit, still waiting, or on to the next attempt.\<close>

datatype (plugins only: size) ('t, 'e, 'it) iteration_end =
    Leave "('t, 'e) task_exit"
  | StillWaiting
  | NextAttempt "'e option" 'it

definition leave_or ::
  "('t, 'e) task_exit option \<Rightarrow> ('t, 'e, 'it) iteration_end \<Rightarrow> ('t, 'e, 'it) iteration_end" where
  "leave_or stop otherwise = (case stop of Some exit \<Rightarrow> Leave exit | None \<Rightarrow> otherwise)"

text \<open>From the verdict of an attempt to the next one: the delay and the wait for it.\<close>

definition between_attempts ::
  "'f float_ops \<Rightarrow> ('t, 'e) attempt_env \<Rightarrow> 'e option \<Rightarrow> 'f delay_iter
   \<Rightarrow> ('t, 'e, 'f delay_iter) iteration_end \<times> retry_event list" where
  "between_attempts F a last_error delays =
     (case delay_next F delays of
        None \<Rightarrow> (Leave (ExecutorStopped StopInternalInvariantViolation), [])
      | Some (Inl _, _) \<Rightarrow> (Leave (ExecutorStopped StopInternalInvariantViolation), [])
      | Some (Inr delay, delays') \<Rightarrow>
          if delay \<noteq> 0 \<and> ae_sleep_cancelled a
          then (leave_or (selected_stop_exit (ae_stop_sleep a) last_error)
                  (Leave (Failed (PolicyPanicked BackoffStage last_error))), [])
          else (leave_or (selected_stop_exit (ae_stop_next a) last_error) (NextAttempt last_error delays'),
                [Waited delay]))"

definition retry_iteration ::
  "'f float_ops \<Rightarrow> 'f retry_spec \<Rightarrow> instant option \<Rightarrow> ('t, 'e) attempt_env \<Rightarrow> nat \<Rightarrow> 'e option \<Rightarrow> 'f delay_iter
   \<Rightarrow> ('t, 'e, 'f delay_iter) iteration_end \<times> retry_event list" where
  "retry_iteration F spec deadline a number previous_error delays =
     then_events [AttemptBegan number]
       (if reached deadline (ae_now a) then (Leave (deadline_exit previous_error), [DeadlineMarked])
        else case selected_stop_exit (ae_stop_start a) previous_error of
          Some exit \<Rightarrow> (Leave exit, [])
        | None \<Rightarrow>
            then_events [AttemptCalled number]
              (case attempt_result spec deadline a of
                 None \<Rightarrow> (StillWaiting, [])
               | Some outcome \<Rightarrow>
                   (case selected_stop_exit (ae_stop_end a) previous_error of
                      Some exit \<Rightarrow> (Leave exit, [])
                    | None \<Rightarrow>
                        (case judge_outcome spec number (ae_predicate a) previous_error outcome of
                           Exit exit \<Rightarrow> (Leave exit, [])
                         | RetryWith last_error \<Rightarrow> between_attempts F a last_error delays))))"

text \<open>
  From attempt \<open>number\<close> on; the result is None while an attempt has neither ended nor run into a
  limit.
\<close>

function run_retry_from ::
  "'f float_ops \<Rightarrow> 'f retry_spec \<Rightarrow> instant option \<Rightarrow> (nat \<Rightarrow> ('t, 'e) attempt_env)
   \<Rightarrow> nat \<Rightarrow> 'e option \<Rightarrow> 'f delay_iter \<Rightarrow> ('t, 'e) task_exit option \<times> retry_event list" where
  "run_retry_from F spec deadline env number previous_error delays =
     (if unat (rs_max_attempts spec) < number
      then (Some (ExecutorStopped StopInternalInvariantViolation), [])
      else
        case retry_iteration F spec deadline (env number) number previous_error delays of
          (Leave exit, evs) \<Rightarrow> (Some exit, evs)
        | (StillWaiting, evs) \<Rightarrow> (None, evs)
        | (NextAttempt last_error delays', evs) \<Rightarrow>
            then_events evs (run_retry_from F spec deadline env (Suc number) last_error delays'))"
  by pat_completeness auto
termination
  by (relation "measure (\<lambda>(F, spec, deadline, env, number, previous_error, delays).
        Suc (unat (rs_max_attempts spec)) - number)") auto

declare run_retry_from.simps [simp del]

definition run_retry ::
  "'f float_ops \<Rightarrow> 'f retry_spec \<Rightarrow> instant option \<Rightarrow> (nat \<Rightarrow> ('t, 'e) attempt_env)
   \<Rightarrow> ('t, 'e) task_exit option \<times> retry_event list" where
  "run_retry F spec deadline env = run_retry_from F spec deadline env 1 None (plan_iter F (rs_delays spec))"

end
