(* ===== verification/BB_Retry_Props.thy ===== *)
theory BB_Retry_Props
  imports BB_Retry
begin

text \<open>
  What holds of typed retries: the compact, replayable delay plan equals the dense table it replaces,
  errors included; a specification that was built never runs into the loop's internal errors; and
  the attempts, the waits between them and the exit are the ones the plan and the policy prescribe.
\<close>

section \<open>Items of the iterators\<close>

fun collect_items :: "delay_item list \<Rightarrow> retry_build_error + duration list" where
  "collect_items [] = Inr []"
| "collect_items (Inl err # items) = Inl err"
| "collect_items (Inr d # items) = map_sum id ((#) d) (collect_items items)"

lemma collect_first_error:
  "first_error items = (case collect_items items of Inl err \<Rightarrow> Some err | Inr _ \<Rightarrow> None)"
  by (induction items rule: collect_items.induct) (auto split: sum.splits)

lemma collect_Inr: "collect_items items = Inr ds \<longleftrightarrow> items = map Inr ds"
proof (induction items arbitrary: ds rule: collect_items.induct)
  case (3 d items)
  have "map_sum id ((#) d) x = Inr ds \<longleftrightarrow> (\<exists>ds'. x = Inr ds' \<and> ds = d # ds')"
    for x :: "retry_build_error + duration list"
    by (cases x) auto
  then show ?case by (auto simp: "3.IH")
qed auto

lemma collect_map_Inr [simp]: "collect_items (map Inr ds) = Inr ds"
  by (simp add: collect_Inr)

lemma base_items_Repeated: "base_items F (Repeated d n) = replicate n (Inr d)"
  by (induction n) (simp_all add: base_items.simps)

lemma base_items_Explicit: "base_items F (ExplicitIter ds) = map Inr ds"
  by (induction ds) (simp_all add: base_items.simps)

lemma collect_Exponential:
  "collect_items (base_items F (ExponentialIter n s m c)) = exponential_loop F m c n s"
proof (induction n arbitrary: s)
  case (Suc n)
  show ?case
    by (subst base_items.simps) (auto simp: Let_def Suc.IH split: option.splits)
qed (simp add: base_items.simps)

lemma delay_items_plain:
  assumes "di_jitter it = None"
  shows "delay_items F it = base_items F (di_base it)"
  using assms
proof (induction F it rule: delay_items.induct)
  case (1 F it)
  show ?case
  proof (cases "base_next F (di_base it)")
    case None
    then show ?thesis by (subst delay_items.simps, subst base_items.simps) (simp add: delay_next_def)
  next
    case (Some p)
    obtain x b where p: "p = (x, b)" by (cases p)
    have "delay_next F it = Some (x, it\<lparr>di_base := b\<rparr>)"
      using Some p "1.prems" by (simp add: delay_next_def split: sum.splits)
    with 1 Some p show ?thesis by (subst delay_items.simps, subst base_items.simps) simp
  qed
qed

lemma delay_items_jitter:
  assumes "base_items F (di_base it) = map Inr ds" and "di_jitter it = Some j"
  shows "collect_items (delay_items F it) = jitter_loop F (jit_ratio j) (di_cap it) (jit_seed j) ds"
  using assms
proof (induction ds arbitrary: it j)
  case Nil
  then have "base_next F (di_base it) = None" by (subst (asm) base_items.simps) (auto split: option.splits)
  then show ?case by (subst delay_items.simps) (simp add: delay_next_def)
next
  case (Cons d ds)
  then obtain b where b: "base_next F (di_base it) = Some (Inr d, b)" "base_items F b = map Inr ds"
    by (subst (asm) base_items.simps) (auto split: option.splits)
  let ?state = "xorshift (jit_seed j)"
  let ?it = "it\<lparr>di_base := b, di_jitter := Some (j\<lparr>jit_seed := ?state\<rparr>)\<rparr>"
  have "collect_items (delay_items F ?it) = jitter_loop F (jit_ratio j) (di_cap it) ?state ds"
    using Cons.IH [of ?it "j\<lparr>jit_seed := ?state\<rparr>"] b by simp
  with b Cons.prems(2) show ?case
    by (subst delay_items.simps) (auto simp: delay_next_def Let_def split: option.splits)
qed

section \<open>Plans\<close>

lemma build_delays_plan:
  assumes "delay_source_of F b n = Inr (source, cap)"
  shows "collect_items (base_items F (base_iter F
      \<lparr>dp_source = source, dp_jitter = j, dp_jitter_cap = cap, dp_len = n\<rparr>)) = build_delays F b n"
    and "cap = backoff_cap b"
proof -
  have "collect_items (replicate n (Inr d)) = Inr (replicate n d)" for d
    using collect_map_Inr [of "replicate n d"] by simp
  then show "collect_items (base_items F (base_iter F
      \<lparr>dp_source = source, dp_jitter = j, dp_jitter_cap = cap, dp_len = n\<rparr>)) = build_delays F b n"
    using assms by (cases b)
      (auto simp: delay_source_of_def build_delays_def base_iter_def base_items_Repeated base_items_Explicit
        collect_Exponential split: if_splits)
  show "cap = backoff_cap b" using assms(1)
    by (cases b) (auto simp: delay_source_of_def backoff_cap_def split: if_splits)
qed

lemma build_delays_error: "delay_source_of F b n = Inl err \<Longrightarrow> build_delays F b n = Inl err"
  by (cases b) (auto simp: delay_source_of_def build_delays_def split: if_splits)

text \<open>The plan is accepted when the dense table is built, and replays it.\<close>

lemma plan_dense:
  "map_sum id (\<lambda>p. delay_items F (plan_iter F p)) (plan_build F b n j) = map_sum id (map Inr) (dense_delays F b n j)"
proof (cases "delay_source_of F b n")
  case (Inl err)
  then show ?thesis by (simp add: plan_build_def dense_delays_def build_delays_error)
next
  case (Inr sc)
  obtain source cap where sc: "sc = (source, cap)" by (cases sc)
  let ?p = "\<lparr>dp_source = source, dp_jitter = j, dp_jitter_cap = cap, dp_len = n\<rparr>"
  note dense = build_delays_plan(1) [OF Inr [unfolded sc], of j] build_delays_plan(2) [OF Inr [unfolded sc]]
  show ?thesis
  proof (cases "build_delays F b n")
    case Inl_dense: (Inl err)
    with dense Inr sc show ?thesis by (simp add: plan_build_def dense_delays_def collect_first_error)
  next
    case Inr_dense: (Inr ds)
    then have items: "base_items F (base_iter F ?p) = map Inr ds" using dense(1) by (simp add: collect_Inr)
    have no_error: "first_error (map Inr ds) = None" by (simp add: collect_first_error)
    show ?thesis
    proof (cases j)
      case None
      then have "delay_items F (plan_iter F ?p) = map Inr ds"
        using items delay_items_plain [of "plan_iter F ?p" F] by (simp add: plan_iter_def)
      with None Inr sc Inr_dense items no_error show ?thesis
        by (simp add: plan_build_def dense_delays_def Let_def)
    next
      case (Some jit)
      have "collect_items (delay_items F (plan_iter F ?p)) = jitter_loop F (jit_ratio jit) cap (jit_seed jit) ds"
        using delay_items_jitter [of F "plan_iter F ?p" ds jit] items Some by (simp add: plan_iter_def)
      with Some Inr sc Inr_dense items no_error dense(2) show ?thesis
        by (cases "jitter_loop F (jit_ratio jit) cap (jit_seed jit) ds")
           (auto simp: plan_build_def dense_delays_def apply_jitter_def Let_def collect_first_error collect_Inr)
    qed
  qed
qed

lemma base_items_length: "length (base_items F it) = base_remaining it"
proof (induction F it rule: base_items.induct)
  case (1 F it)
  then show ?case
    by (subst base_items.simps)
       (auto simp: base_next_None split: option.splits dest: base_next_remaining)
qed

lemma delay_items_length: "length (delay_items F it) = base_remaining (di_base it)"
proof (induction F it rule: delay_items.induct)
  case (1 F it)
  then show ?case
    by (subst delay_items.simps)
       (auto simp: delay_next_None split: option.splits dest: delay_next_remaining)
qed

lemma plan_build_delays:
  assumes "plan_build F b n j = Inr p"
  obtains ds where "delay_items F (plan_iter F p) = map Inr ds" "dense_delays F b n j = Inr ds" "length ds = n"
proof -
  obtain ds where ds: "delay_items F (plan_iter F p) = map Inr ds" "dense_delays F b n j = Inr ds"
    using plan_dense [of F b n j] assms by (cases "dense_delays F b n j") auto
  obtain source cap where src: "delay_source_of F b n = Inr (source, cap)" "dp_source p = source" "dp_len p = n"
    using assms by (auto simp: plan_build_def Let_def split: sum.splits option.splits if_splits)
  have "base_remaining (base_iter F p) = n"
    using src by (cases b; cases "dp_source p") (auto simp: delay_source_of_def base_iter_def split: if_splits)
  then have "length (delay_items F (plan_iter F p)) = n" by (simp add: delay_items_length plan_iter_def)
  with ds that show thesis by simp
qed

section \<open>One iteration\<close>

lemma fst_then_events [simp]: "fst (then_events evs r) = fst r"
  and snd_then_events [simp]: "snd (then_events evs r) = evs @ snd r"
  by (simp_all add: then_events_def)

definition calls_of :: "retry_event list \<Rightarrow> nat list" where
  "calls_of evs = concat (map (\<lambda>ev. case ev of AttemptCalled n \<Rightarrow> [n] | _ \<Rightarrow> []) evs)"

definition waits_of :: "retry_event list \<Rightarrow> duration list" where
  "waits_of evs = concat (map (\<lambda>ev. case ev of Waited d \<Rightarrow> [d] | _ \<Rightarrow> []) evs)"

lemma events_simps [simp]:
  "calls_of [] = []" "calls_of (AttemptCalled n # evs) = n # calls_of evs"
  "calls_of (AttemptBegan n # evs) = calls_of evs" "calls_of (DeadlineMarked # evs) = calls_of evs"
  "calls_of (Waited d # evs) = calls_of evs" "calls_of (evs @ evs') = calls_of evs @ calls_of evs'"
  "waits_of [] = []" "waits_of (AttemptCalled n # evs) = waits_of evs"
  "waits_of (AttemptBegan n # evs) = waits_of evs" "waits_of (DeadlineMarked # evs) = waits_of evs"
  "waits_of (Waited d # evs) = d # waits_of evs" "waits_of (evs @ evs') = waits_of evs @ waits_of evs'"
  by (simp_all add: calls_of_def waits_of_def)

lemma delay_next_items:
  assumes "delay_items F it = map Inr ds"
  shows "ds = [] \<Longrightarrow> delay_next F it = None"
    and "ds = d # ds' \<Longrightarrow> \<exists>it'. delay_next F it = Some (Inr d, it') \<and> delay_items F it' = map Inr ds'"
  using assms by (subst (asm) delay_items.simps, auto split: option.splits)+

text \<open>The policy of a specification that was built.\<close>

definition policy_ok :: "'f retry_spec \<Rightarrow> bool" where
  "policy_ok spec \<longleftrightarrow> rs_max_attempts spec = 1 \<or> rs_has_predicate spec \<or> rs_retry_all_errors spec"

text \<open>The outcome of an attempt lets the loop go on.\<close>

definition retried_attempt :: "'f retry_spec \<Rightarrow> instant option \<Rightarrow> ('t, 'e) attempt_env \<Rightarrow> bool" where
  "retried_attempt spec deadline a \<longleftrightarrow>
     (case attempt_result spec deadline a of
        Some (OutFailed _) \<Rightarrow> rs_retry_all_errors spec \<or> ae_predicate a = Some True
      | Some OutTimedOut \<Rightarrow> rs_retry_timed_out_attempts spec
      | _ \<Rightarrow> False)"

lemma judge_RetryWith:
  assumes "judge_outcome spec n predicate prev outcome = RetryWith prev'"
  shows "n \<noteq> unat (rs_max_attempts spec)"
    and "(\<exists>err. outcome = OutFailed err \<and> (rs_retry_all_errors spec \<or> predicate = Some True))
      \<or> outcome = OutTimedOut \<and> rs_retry_timed_out_attempts spec"
  using assms by (auto simp: judge_outcome_def split: attempt_outcome.splits if_splits option.splits bool.splits)

text \<open>The exit that an outcome gives by itself.\<close>

definition exit_explained ::
  "'f retry_spec \<Rightarrow> nat \<Rightarrow> ('t, 'e) attempt_outcome option \<Rightarrow> ('t, 'e) task_exit \<Rightarrow> bool" where
  "exit_explained spec n outcome exit \<longleftrightarrow>
     (case exit of
        Completed v \<Rightarrow> outcome = Some (OutCompleted v)
      | Failed (RetryFailed (Exhausted err)) \<Rightarrow> n = unat (rs_max_attempts spec) \<and> outcome = Some (OutFailed err)
      | Failed (RetryFailed (NonRetryable err)) \<Rightarrow> outcome = Some (OutFailed err)
      | Failed (RetryFailed (AttemptTimedOut k _ _)) \<Rightarrow> k = of_nat n \<and> outcome = Some OutTimedOut
      | Panicked source msg \<Rightarrow> outcome = Some (OutPanicked source msg)
      | ExecutorStopped reason \<Rightarrow> reason = StopRuntimeUnavailable \<and> outcome = Some OutExecutorStopped
      | _ \<Rightarrow> True)"

lemma stop_exit_explained: "selected_stop_exit cause prev = Some exit \<Longrightarrow> exit_explained spec n outcome exit"
  by (auto simp: selected_stop_exit_def deadline_exit_def exit_explained_def
      split: option.splits stop_cause.splits)

lemma judge_Exit:
  assumes "judge_outcome spec n predicate prev outcome = Exit exit" and "policy_ok spec" and "1 \<le> n"
    and "n \<le> unat (rs_max_attempts spec)"
  shows "exit_explained spec n (Some outcome) exit"
proof -
  have one: "n = unat (rs_max_attempts spec)" if "\<not> rs_has_predicate spec" "\<not> rs_retry_all_errors spec"
    using that assms(2-4) by (auto simp: policy_ok_def)
  show ?thesis using assms(1) one
    by (auto simp: judge_outcome_def exit_explained_def deadline_exit_def
        split: attempt_outcome.splits if_splits option.splits bool.splits)
qed

lemma deadline_exit_explained [simp]: "exit_explained spec n outcome (deadline_exit prev)"
  by (simp add: exit_explained_def deadline_exit_def)

text \<open>What an iteration shows: its events, and where it leads.\<close>

lemma retry_iteration_cases:
  fixes a :: "('t, 'e) attempt_env" and prev :: "'e option"
  assumes it: "delay_items F delays = map Inr ds" and len: "length ds = unat (rs_max_attempts spec) - n"
    and n: "1 \<le> n" "n \<le> unat (rs_max_attempts spec)" and policy: "policy_ok spec"
    and step: "retry_iteration F spec deadline a n prev delays = (res, evs)"
  obtains
    (leave) exit where "res = Leave exit" "calls_of evs \<in> {[], [n]}" "waits_of evs = take (length (waits_of evs)) ds"
      "length (waits_of evs) \<le> length (calls_of evs)"
      "calls_of evs = [] \<Longrightarrow> exit_explained spec (n - 1) None exit"
      "calls_of evs = [n] \<Longrightarrow> exit_explained spec n (attempt_result spec deadline a) exit"
      "calls_of evs = [] \<Longrightarrow> (\<exists>prev. exit = deadline_exit prev) \<or> (\<exists>reason. exit = Cancelled reason)"
  | (waiting) "res = StillWaiting" "calls_of evs = [n]" "waits_of evs = []"
  | (again) d ds' prev' delays' where "res = NextAttempt prev' delays'" "ds = d # ds'"
      "delay_items F delays' = map Inr ds'" "calls_of evs = [n]" "waits_of evs = [d]"
      "n < unat (rs_max_attempts spec)" "retried_attempt spec deadline a"
proof -
  have stop: "(\<exists>p. exit = deadline_exit p) \<or> (\<exists>reason. exit = Cancelled reason)"
    if "selected_stop_exit cause prev = Some exit" for cause and exit :: "('t, 'e) task_exit" and prev
    using that by (auto simp: selected_stop_exit_def split: option.splits stop_cause.splits)
  note explained = stop_exit_explained
  show thesis
  proof (cases "reached deadline (ae_now a)")
    case True
    with step show thesis by (intro leave [of "deadline_exit prev"]) (auto simp: retry_iteration_def then_events_def)
  next
    case in_time: False
    show thesis
    proof (cases "selected_stop_exit (ae_stop_start a) prev :: ('t, 'e) task_exit option")
      case (Some exit)
      with in_time step stop [OF Some] explained [OF Some] show thesis
        by (intro leave [of exit]) (auto simp: retry_iteration_def then_events_def)
    next
      case go: None
      show thesis
      proof (cases "attempt_result spec deadline a")
        case None
        with in_time go step show thesis by (intro waiting) (auto simp: retry_iteration_def then_events_def)
      next
        case (Some outcome)
        note res = Some
        show thesis
        proof (cases "selected_stop_exit (ae_stop_end a) prev :: ('t, 'e) task_exit option")
          case (Some exit)
          with in_time go res step explained [OF Some] show thesis
            by (intro leave [of exit]) (auto simp: retry_iteration_def then_events_def)
        next
          case not_stopped: None
          show thesis
          proof (cases "judge_outcome spec n (ae_predicate a) prev outcome")
            case (Exit exit)
            with in_time go res not_stopped step judge_Exit [OF Exit policy n] show thesis
              by (intro leave [of exit]) (auto simp: retry_iteration_def then_events_def)
          next
            case (RetryWith prev')
            note judged = judge_RetryWith [OF RetryWith]
            have "ds \<noteq> []" using judged(1) n len by auto
            then obtain d ds' where ds: "ds = d # ds'" by (cases ds) auto
            from delay_next_items(2) [OF it ds] obtain delays'
              where nxt: "delay_next F delays = Some (Inr d, delays')" "delay_items F delays' = map Inr ds'" by blast
            have iter: "retry_iteration F spec deadline a n prev delays =
                then_events [AttemptBegan n] (then_events [AttemptCalled n] (between_attempts F a prev' delays))"
              by (simp add: retry_iteration_def in_time go res not_stopped RetryWith)
            have retried: "retried_attempt spec deadline a" using judged(2) by (auto simp: retried_attempt_def res)
            let ?backoff = "Failed (PolicyPanicked BackoffStage prev') :: ('t, 'e) task_exit"
            show thesis
            proof (cases "d \<noteq> 0 \<and> ae_sleep_cancelled a")
              case True
              with iter step nxt show thesis
                by (cases "selected_stop_exit (ae_stop_sleep a) prev' :: ('t, 'e) task_exit option")
                   (auto intro!: leave simp: between_attempts_def leave_or_def then_events_def exit_explained_def
                     dest: explained)
            next
              case slept: False
              show thesis
              proof (cases "selected_stop_exit (ae_stop_next a) prev' :: ('t, 'e) task_exit option")
                case None
                with slept iter step nxt ds retried judged(1) n show thesis
                  by (intro again [of prev' delays' d ds'])
                     (auto simp: between_attempts_def leave_or_def then_events_def)
              next
                case (Some exit)
                with slept iter step nxt ds explained [OF Some] show thesis
                  by (intro leave [of exit]) (auto simp: between_attempts_def leave_or_def then_events_def)
              qed
            qed
          qed
        qed
      qed
    qed
  qed
qed

section \<open>The loop\<close>

text \<open>A run from attempt \<open>n\<close> on that called attempts \<open>n..k\<close>.\<close>

definition loop_facts ::
  "'f retry_spec \<Rightarrow> instant option \<Rightarrow> (nat \<Rightarrow> ('t, 'e) attempt_env) \<Rightarrow> nat \<Rightarrow> duration list
   \<Rightarrow> ('t, 'e) task_exit option \<times> retry_event list \<Rightarrow> nat \<Rightarrow> bool" where
  "loop_facts spec deadline env n ds r k \<longleftrightarrow>
     n \<le> Suc k \<and> k \<le> unat (rs_max_attempts spec) \<and> calls_of (snd r) = [n..<Suc k]
     \<and> waits_of (snd r) = take (length (waits_of (snd r))) ds
     \<and> length (waits_of (snd r)) \<le> Suc k - n \<and> k - n \<le> length (waits_of (snd r))
     \<and> (\<forall>i. n \<le> i \<and> i < k \<longrightarrow> retried_attempt spec deadline (env i))
     \<and> (\<forall>exit. fst r = Some exit \<longrightarrow> exit_explained spec k (attempt_result spec deadline (env k)) exit)"

lemma early_exit_explained:
  "exit = deadline_exit prev \<or> exit = Cancelled reason \<Longrightarrow> exit_explained spec n outcome exit"
  by (auto simp: exit_explained_def deadline_exit_def)

lemma run_retry_from_facts:
  fixes env :: "nat \<Rightarrow> ('t, 'e) attempt_env"
  assumes "delay_items F delays = map Inr ds" and "length ds = unat (rs_max_attempts spec) - n"
    and "1 \<le> n" "n \<le> unat (rs_max_attempts spec)" and "policy_ok spec"
  shows "\<exists>k. loop_facts spec deadline env n ds (run_retry_from F spec deadline env n prev delays) k"
  using assms
proof (induction ds arbitrary: n prev delays)
  case Nil
  obtain res evs where step: "retry_iteration F spec deadline (env n) n prev delays = (res, evs)"
    by (cases "retry_iteration F spec deadline (env n) n prev delays")
  note run = run_retry_from.simps [of F spec deadline env n prev delays]
  from Nil.prems(1-5) step show ?case
  proof (cases rule: retry_iteration_cases)
    case (leave exit)
    with Nil.prems step run show ?thesis
      by (intro exI [of _ "n - 1 + length (calls_of evs)"]) (auto simp: loop_facts_def intro: early_exit_explained)
  next
    case waiting
    with Nil.prems step run show ?thesis by (intro exI [of _ n]) (auto simp: loop_facts_def)
  qed simp
next
  case (Cons d ds)
  obtain res evs where step: "retry_iteration F spec deadline (env n) n prev delays = (res, evs)"
    by (cases "retry_iteration F spec deadline (env n) n prev delays")
  note run = run_retry_from.simps [of F spec deadline env n prev delays]
  from Cons.prems(1-5) step show ?case
  proof (cases rule: retry_iteration_cases)
    case (leave exit)
    with Cons.prems step run show ?thesis
      by (intro exI [of _ "n - 1 + length (calls_of evs)"]) (auto simp: loop_facts_def intro: early_exit_explained)
  next
    case waiting
    with Cons.prems step run show ?thesis by (intro exI [of _ n]) (auto simp: loop_facts_def)
  next
    case (again d' ds' prev' delays')
    let ?r = "run_retry_from F spec deadline env (Suc n) prev' delays'"
    have "length ds = unat (rs_max_attempts spec) - Suc n" using Cons.prems(2) by simp
    with Cons.IH [of delays' "Suc n" prev'] again Cons.prems(5)
    obtain k where k: "loop_facts spec deadline env (Suc n) ds ?r k" by auto
    have eq: "run_retry_from F spec deadline env n prev delays = then_events evs ?r"
      using run step again Cons.prems(4) by simp
    have "retried_attempt spec deadline (env i)" if "n \<le> i" "i < k" for i
      using that k again(7) by (cases "i = n") (auto simp: loop_facts_def)
    moreover have "n # [Suc n..<Suc k] = [n..<Suc k]" using k by (simp add: loop_facts_def upt_rec)
    ultimately have "loop_facts spec deadline env n (d # ds) (then_events evs ?r) k"
      using k again(2,4,5) by (auto simp: loop_facts_def)
    with eq show ?thesis by auto
  qed
qed

lemma retry_build_spec:
  assumes "retry_build F now fresh b = Inr spec"
  obtains ds where "delay_items F (plan_iter F (rs_delays spec)) = map Inr ds"
    "dense_delays F (rb_backoff b) (unat (rb_max_attempts b) - 1) (rb_jitter b) = Inr ds"
    "length ds = unat (rs_max_attempts spec) - 1" "policy_ok spec" "rs_max_attempts spec = rb_max_attempts b"
    "1 \<le> unat (rs_max_attempts spec)" "unat (rs_max_attempts spec) \<le> 1000000"
proof -
  have b: "rb_max_attempts b \<noteq> 0" "rb_max_attempts b \<le> max_attempts_limit"
    and policy: "1 < rb_max_attempts b \<Longrightarrow> rb_has_predicate b \<or> rb_retry_all_errors b"
    and plan: "plan_build F (rb_backoff b) (unat (rb_max_attempts b - 1)) (rb_jitter b) = Inr (rs_delays spec)"
    and spec: "rs_max_attempts spec = rb_max_attempts b" "rs_has_predicate spec = rb_has_predicate b"
      "rs_retry_all_errors spec = rb_retry_all_errors b"
    using assms by (auto simp: retry_build_def not_less split: if_splits sum.splits)
  have one: "unat (rb_max_attempts b - 1) = unat (rb_max_attempts b) - 1"
    using b(1) by (simp add: unat_minus_one)
  have pos: "1 \<le> unat (rb_max_attempts b)" using b(1) by (simp add: unat_gt_0 Suc_le_eq)
  have "policy_ok spec"
  proof (cases "1 < rb_max_attempts b")
    case True
    with policy spec show ?thesis by (simp add: policy_ok_def)
  next
    case False
    then have "unat (rb_max_attempts b) \<le> 1" by (simp add: word_less_nat_alt not_less)
    with pos have "unat (rb_max_attempts b) = unat (1 :: u32)" by simp
    then show ?thesis using spec by (simp add: policy_ok_def word_unat_eq_iff)
  qed
  moreover have "unat (rb_max_attempts b) \<le> 1000000"
    using b(2) by (simp add: max_attempts_limit_def word_le_nat_alt)
  ultimately show thesis using plan_build_delays [OF plan] that spec(1) pos one by metis
qed

lemma run_retry_facts:
  assumes "retry_build F now fresh b = Inr spec"
  obtains ds k where "dense_delays F (rb_backoff b) (unat (rb_max_attempts b) - 1) (rb_jitter b) = Inr ds"
    "length ds = unat (rb_max_attempts b) - 1" "rs_max_attempts spec = rb_max_attempts b"
    "loop_facts spec deadline env 1 ds (run_retry F spec deadline env) k"
proof -
  from retry_build_spec [OF assms] obtain ds where ds: "delay_items F (plan_iter F (rs_delays spec)) = map Inr ds"
    "dense_delays F (rb_backoff b) (unat (rb_max_attempts b) - 1) (rb_jitter b) = Inr ds"
    "length ds = unat (rs_max_attempts spec) - 1" "policy_ok spec" "rs_max_attempts spec = rb_max_attempts b"
    "1 \<le> unat (rs_max_attempts spec)" by blast
  from run_retry_from_facts [OF ds(1,3) _ ds(6) ds(4), of deadline env None]
  obtain k where "loop_facts spec deadline env 1 ds (run_retry F spec deadline env) k"
    unfolding run_retry_def by auto
  with ds that show thesis by simp
qed

section \<open>Properties\<close>

text \<open>
  C23. The compact plan is the dense table.  For every backoff, jitter and number of retries, and
  whatever the floating point operations compute, building the replayable plan succeeds exactly
  when the dense construction does, with the same first error otherwise, and iterating the plan
  yields the table, delay by delay, with no error among them.
\<close>

theorem compact_plan_is_dense_table:
  "map_sum id (\<lambda>p. delay_items F (plan_iter F p)) (plan_build F backoff retries jitter)
   = map_sum id (map Inr) (dense_delays F backoff retries jitter)"
  by (rule plan_dense)

text \<open>
  C25. The loop does what the plan and the policy say.  A run of a specification that was built calls
  the attempts 1 to k in order, at most \<open>max_attempts\<close> of them; between two of them it waits the
  planned delays, in order and each once; every attempt but the last had a failure or a timeout that
  the policy lets through; and the exit is explained by the last attempt: completed with its value,
  exhausted with its error and only after \<open>max_attempts\<close>, not retryable with its error, and so on.
  In particular the loop's internal errors (missing predicate, missing or invalid delay, falling
  through) never happen.
\<close>

theorem retry_follows_plan:
  assumes "retry_build F now fresh b = Inr spec" and "run_retry F spec deadline env = (res, evs)"
  shows "\<exists>ds k. dense_delays F (rb_backoff b) (unat (rb_max_attempts b) - 1) (rb_jitter b) = Inr ds
    \<and> k \<le> unat (rb_max_attempts b) \<and> calls_of evs = [1..<Suc k]
    \<and> waits_of evs = take (length (waits_of evs)) ds \<and> length (waits_of evs) \<in> {k - 1, k}
    \<and> (\<forall>i. 1 \<le> i \<and> i < k \<longrightarrow> retried_attempt spec deadline (env i))
    \<and> (\<forall>exit. res = Some exit \<longrightarrow> exit_explained spec k (attempt_result spec deadline (env k)) exit)"
proof -
  from run_retry_facts [OF assms(1)] obtain ds k
    where ds: "dense_delays F (rb_backoff b) (unat (rb_max_attempts b) - 1) (rb_jitter b) = Inr ds"
      "rs_max_attempts spec = rb_max_attempts b" "loop_facts spec deadline env 1 ds (res, evs) k"
    unfolding assms(2) [symmetric] by blast
  then show ?thesis by (intro exI [of _ ds] exI [of _ k]) (auto simp: loop_facts_def)
qed

text \<open>A run of two attempts under an exponential backoff, with whole numbers for floating point.\<close>

definition demo_floats :: "int float_ops" where
  "demo_floats = \<lparr>fl_is_finite = (\<lambda>_. True), fl_le = (\<le>), fl_lt = (<), fl_add = (+), fl_sub = (-), fl_mul = (*),
     fl_div = (div), fl_min = min, fl_zero = 0, fl_one = 1, fl_two = 2, fl_of_u64 = uint, fl_as_secs = int,
     fl_try_duration = (\<lambda>x. if 0 \<le> x then Some (nat x) else None)\<rparr>"

definition demo_builder :: "int retry_builder" where
  "demo_builder = (retry_if retry_builder_new)\<lparr>rb_max_attempts := 3, rb_backoff := BackoffExponential 10 2 15\<rparr>"

definition demo_env :: "nat \<Rightarrow> (string, string) attempt_env" where
  "demo_env n = \<lparr>ae_now = n, ae_stop_start = None, ae_factory_panic = None, ae_wait_start = n,
     ae_polls = [(n, Some (JoinOk (if n = 1 then Inl ''busy'' else Inr ''done'')))], ae_stop_end = None,
     ae_predicate = Some True, ae_sleep_cancelled = False, ae_stop_sleep = None, ae_stop_next = None\<rparr>"

lemma demo_build: "\<exists>spec. retry_build demo_floats 0 0 demo_builder = Inr spec"
proof -
  have "collect_items (base_items demo_floats (ExponentialIter 2 10 2 15)) = Inr [10, 15]"
    unfolding collect_Exponential by (simp add: demo_floats_def numeral_2_eq_2 Let_def)
  then have "first_error (base_items demo_floats (ExponentialIter 2 10 2 15)) = None"
    by (simp add: collect_first_error)
  then show ?thesis
    by (simp add: retry_build_def demo_builder_def retry_if_def retry_builder_new_def max_attempts_limit_def
        timeout_overflows_def plan_build_def delay_source_of_def base_iter_def Let_def demo_floats_def)
qed

lemma retry_follows_plan_witness:
  "\<exists>spec ds k. retry_build demo_floats 0 0 demo_builder = Inr spec
     \<and> dense_delays demo_floats (BackoffExponential 10 2 15) 2 None = Inr ds
     \<and> calls_of (snd (run_retry demo_floats spec (Some 50) demo_env)) = [1..<Suc k]"
proof -
  obtain spec where spec: "retry_build demo_floats 0 0 demo_builder = Inr spec" using demo_build by blast
  obtain res evs where run: "run_retry demo_floats spec (Some 50) demo_env = (res, evs)"
    by (cases "run_retry demo_floats spec (Some 50) demo_env")
  from retry_follows_plan [OF spec run] run spec show ?thesis
    by (auto simp: demo_builder_def retry_if_def retry_builder_new_def)
qed

end
