(* ===== verification/BB_Restart.thy ===== *)
theory BB_Restart
  imports BB_Types
begin

text \<open>
  The restart budget that recurring tasks and services share (\<open>RestartPolicy\<close> of \<open>recurring.rs\<close>): a queue of
  the instants of granted restarts, evicted from the front once they left the window, and a grant
  only while fewer than the budget are left.  The locale states that contract; the theories that
  grant restarts interpret it.
\<close>

record restart_policy =
  rp_max_restarts :: u32
  rp_window :: duration
  rp_backoff :: duration

definition restart_policy_new :: "u32 \<Rightarrow> restart_policy" where
  "restart_policy_new max_restarts =
     \<lparr>rp_max_restarts = max_restarts, rp_window = 60 * nanos_per_sec, rp_backoff = 0\<rparr>"

definition evict_restarts :: "duration \<Rightarrow> instant \<Rightarrow> instant list \<Rightarrow> instant list" where
  "evict_restarts window now restarts = dropWhile (\<lambda>at. window < duration_since now at) restarts"

text \<open>A sequence of grants, each on what the one before left; None when one is refused.\<close>

primrec grant_run :: "(instant \<Rightarrow> instant list \<Rightarrow> instant list option) \<Rightarrow> instant list \<Rightarrow> instant list \<Rightarrow> instant list option" where
  "grant_run grant restarts [] = Some restarts"
| "grant_run grant restarts (now # nows) =
     (case grant now restarts of None \<Rightarrow> None | Some restarts' \<Rightarrow> grant_run grant restarts' nows)"

lemma grant_run_append:
  "grant_run g ts (nows @ nows') = (case grant_run g ts nows of None \<Rightarrow> None | Some ts' \<Rightarrow> grant_run g ts' nows')"
  by (induction nows arbitrary: ts) (simp_all split: option.splits)

locale restart_budget =
  fixes grant :: "instant \<Rightarrow> instant list \<Rightarrow> instant list option"
    and window :: duration and budget :: nat
  assumes granted: "grant now restarts = Some restarts' \<Longrightarrow>
    restarts' = evict_restarts window now restarts @ [now] \<and> length restarts' \<le> budget"
begin

text \<open>The queue is the end of the history of grants, and what is not in it has left the window.\<close>

definition tracks :: "instant list \<Rightarrow> instant list \<Rightarrow> instant \<Rightarrow> bool" where
  "tracks history restarts now \<longleftrightarrow>
     (\<exists>old. history = old @ restarts \<and> (\<forall>t \<in> set old. window < duration_since now t))"

lemma tracks_grant:
  assumes tracks: "tracks history restarts now" and "now \<le> now'" and grant: "grant now' restarts = Some restarts'"
  shows "tracks (history @ [now']) restarts' now'"
proof -
  from tracks obtain old where old: "history = old @ restarts" "\<forall>t \<in> set old. window < duration_since now t"
    by (auto simp: tracks_def)
  let ?P = "\<lambda>at. window < duration_since now' at"
  have "history @ [now'] = (old @ takeWhile ?P restarts) @ (dropWhile ?P restarts @ [now'])"
    using old(1) by simp
  moreover have "\<forall>t \<in> set (old @ takeWhile ?P restarts). ?P t"
    using old(2) assms(2) by (fastforce simp: duration_since_def dest: set_takeWhileD)
  moreover have "restarts' = dropWhile ?P restarts @ [now']" using granted [OF grant] by (simp add: evict_restarts_def)
  ultimately show ?thesis unfolding tracks_def by metis
qed

lemma grant_spaced:
  assumes "tracks history restarts now" and "grant now' restarts = Some restarts'" and "now \<le> now'"
    and "budget \<le> length history"
  shows "window < duration_since now' (history ! (length history - budget))"
proof -
  from tracks_grant [OF assms(1,3,2)] obtain old
    where old: "history @ [now'] = old @ restarts'" "\<forall>t \<in> set old. window < duration_since now' t"
    by (auto simp: tracks_def)
  have len: "length restarts' \<le> budget" "restarts' \<noteq> []" using granted [OF assms(2)] by auto
  have "length history + 1 = length old + length restarts'" using arg_cong [OF old(1), of length] by simp
  then have lt: "length history - budget < length old" using len assms(4) by (cases restarts') auto
  moreover have "0 < budget" using len by (cases budget) auto
  ultimately have "length history - budget < length history" using assms(4) by simp
  then have "history ! (length history - budget) = old ! (length history - budget)"
    using lt old(1) by (metis nth_append)
  with old(2) lt show ?thesis by simp
qed

lemma grant_run_spaced:
  assumes "tracks history restarts now" and "sorted (now # nows)" and "grant_run grant restarts nows = Some final"
    and "\<forall>i. i + budget < length history \<longrightarrow> window < duration_since (history ! (i + budget)) (history ! i)"
  shows "\<forall>i. i + budget < length (history @ nows) \<longrightarrow>
    window < duration_since ((history @ nows) ! (i + budget)) ((history @ nows) ! i)"
  using assms
proof (induction nows arbitrary: history restarts now)
  case (Cons t nows)
  then obtain restarts' where g: "grant t restarts = Some restarts'" "grant_run grant restarts' nows = Some final"
    by (auto split: option.splits)
  have le: "now \<le> t" "sorted (t # nows)" using Cons.prems(2) by auto
  have "window < duration_since ((history @ [t]) ! (i + budget)) ((history @ [t]) ! i)"
    if i: "i + budget < length (history @ [t])" for i
  proof (cases "i + budget < length history")
    case True
    with Cons.prems(4) show ?thesis by (simp add: nth_append)
  next
    case False
    with i have at: "i + budget = length history" by simp
    then have "i = length history - budget" "i < length history" using granted [OF g(1)] by auto
    with at grant_spaced [OF Cons.prems(1) g(1) le(1)] show ?thesis by (simp add: nth_append)
  qed
  from Cons.IH [OF tracks_grant [OF Cons.prems(1) le(1) g(1)] le(2) g(2)] this show ?case by simp
qed simp

lemma never_more_than_budget:
  assumes "sorted nows" and "grant_run grant [] nows = Some final" and "i + budget < length nows"
  shows "window < duration_since (nows ! (i + budget)) (nows ! i)"
proof -
  have "sorted (0 # nows)" using assms(1) by simp
  from grant_run_spaced [OF _ this assms(2), of "[]"] assms(3) show ?thesis by (simp add: tracks_def)
qed

end

text \<open>The plain decision: the window and the budget of a policy.\<close>

definition restart_admit :: "restart_policy \<Rightarrow> instant \<Rightarrow> instant list \<Rightarrow> instant list option" where
  "restart_admit policy now restarts =
     (let kept = evict_restarts (rp_window policy) now restarts in
      if unat (rp_max_restarts policy) \<le> length kept then None else Some (kept @ [now]))"

interpretation restarts: restart_budget "restart_admit policy" "rp_window policy" "unat (rp_max_restarts policy)"
  for policy
  by unfold_locales (auto simp: restart_admit_def Let_def split: if_splits)

end
