(* ===== verification/BB_Recurring.thy ===== *)
theory BB_Recurring
  imports BB_Retry BB_Restart
begin

text \<open>
  Recurring tasks (\<open>recurring.rs\<close>): schedules, the computation of the next target, the builder, and
  the tick loop with its failure budget, its restarts after panics and its resume handling.  A loop
  that may never end is one iteration on a loop state, and runs of any number of iterations of it.
  Clock readings, stop causes, and what the user's tick, schedule function and waits give are
  inputs, one record per iteration.
\<close>

section \<open>Schedules\<close>

datatype (plugins only: size) 't tick_outcome = TickContinue | TickStop 't

datatype (plugins only: size) schedule_mode = FixedDelayMode | FixedRateMode

datatype (plugins only: size) missed_tick_policy = Burst | Skip | Delay

datatype (plugins only: size) resume_policy = ResumeContinue | RunImmediately | SkipMissed

datatype (plugins only: size) schedule_plan =
    FixedPlan duration schedule_mode
  | StepsPlan "duration list" bool
  | DynamicPlan

record 'f schedule =
  sch_initial_delay :: duration
  sch_plan :: schedule_plan
  sch_missed_tick_policy :: missed_tick_policy
  sch_resume_policy :: resume_policy
  sch_jitter :: "'f jitter option"

definition schedule_fixed :: "duration \<Rightarrow> schedule_mode \<Rightarrow> 'f schedule" where
  "schedule_fixed interval mode =
     \<lparr>sch_initial_delay = 0, sch_plan = FixedPlan interval mode, sch_missed_tick_policy = Skip,
      sch_resume_policy = ResumeContinue, sch_jitter = None\<rparr>"

definition schedule_steps :: "duration list \<Rightarrow> 'f schedule" where
  "schedule_steps delays =
     \<lparr>sch_initial_delay = 0, sch_plan = StepsPlan delays False, sch_missed_tick_policy = Skip,
      sch_resume_policy = ResumeContinue, sch_jitter = None\<rparr>"

definition schedule_dynamic :: "'f schedule" where
  "schedule_dynamic =
     \<lparr>sch_initial_delay = 0, sch_plan = DynamicPlan, sch_missed_tick_policy = Skip,
      sch_resume_policy = ResumeContinue, sch_jitter = None\<rparr>"

definition repeat_last :: "'f schedule \<Rightarrow> 'f schedule" where
  "repeat_last s = (case sch_plan s of StepsPlan delays r \<Rightarrow> s\<lparr>sch_plan := StepsPlan delays True\<rparr> | _ \<Rightarrow> s)"

datatype (plugins only: size) tick_failure_policy = StopOnFailure | ContinueOnFailure u32 duration

datatype (plugins only: size) panic_policy = StopOnPanic | RestartOnPanic restart_policy

datatype (plugins only: size) recurring_build_error =
    EmptySchedule
  | ZeroFailureBudget
  | ZeroRestartBudget
  | ZeroRestartWindow
  | RecDurationOverflow
  | RecInvalidJitterRatio

text \<open>The operation: the user's tick factory, or a retry specification.\<close>

datatype (plugins only: size) 'f recurring_operation = TickOperation | RetryOperation "'f retry_spec"

record 'f recurring_spec =
  cs_id :: task_spec_id
  cs_operation :: "'f recurring_operation"
  cs_schedule :: "'f schedule"
  cs_failure_policy :: tick_failure_policy
  cs_panic_policy :: panic_policy
  cs_tag :: "string option"
  cs_abort_policy :: abort_policy

record 'f recurring_builder =
  cb_operation :: "'f recurring_operation"
  cb_schedule :: "'f schedule"
  cb_failure_policy :: tick_failure_policy
  cb_panic_policy :: panic_policy
  cb_tag :: "string option"
  cb_abort_policy :: abort_policy

definition recurring_builder_for :: "'f recurring_operation \<Rightarrow> 'f recurring_builder" where
  "recurring_builder_for operation =
     \<lparr>cb_operation = operation, cb_schedule = schedule_fixed nanos_per_sec FixedDelayMode,
      cb_failure_policy = StopOnFailure, cb_panic_policy = StopOnPanic, cb_tag = None,
      cb_abort_policy = CooperativeOnly\<rparr>"

definition restart_policy_error :: "panic_policy \<Rightarrow> recurring_build_error option" where
  "restart_policy_error p =
     (case p of
        StopOnPanic \<Rightarrow> None
      | RestartOnPanic policy \<Rightarrow>
          if rp_max_restarts policy = 0 then Some ZeroRestartBudget
          else if rp_window policy = 0 then Some ZeroRestartWindow
          else None)"

definition recurring_build ::
  "'f float_ops \<Rightarrow> instant \<Rightarrow> task_spec_id \<Rightarrow> 'f recurring_builder \<Rightarrow> recurring_build_error + 'f recurring_spec" where
  "recurring_build F now fresh b =
     (if (case sch_plan (cb_schedule b) of StepsPlan delays _ \<Rightarrow> delays = [] | _ \<Rightarrow> False) then Inl EmptySchedule
      else if (case cb_failure_policy b of ContinueOnFailure n _ \<Rightarrow> n = 0 | _ \<Rightarrow> False) then Inl ZeroFailureBudget
      else case restart_policy_error (cb_panic_policy b) of
        Some err \<Rightarrow> Inl err
      | None \<Rightarrow>
          if (case sch_jitter (cb_schedule b) of None \<Rightarrow> False | Some j \<Rightarrow> \<not> jitter_is_valid F j)
          then Inl RecInvalidJitterRatio
          else if instant_checked_add now (sch_initial_delay (cb_schedule b)) = None then Inl RecDurationOverflow
          else Inr \<lparr>cs_id = fresh, cs_operation = cb_operation b, cs_schedule = cb_schedule b,
                    cs_failure_policy = cb_failure_policy b, cs_panic_policy = cb_panic_policy b,
                    cs_tag = cb_tag b, cs_abort_policy = cb_abort_policy b\<rparr>)"

section \<open>The next target\<close>

text \<open>\<open>u128\<close> multiplication that may overflow, and the conversion back to a duration.\<close>

definition nanos_checked_mul :: "nat \<Rightarrow> nat \<Rightarrow> nat option" where
  "nanos_checked_mul a b = (if a * b < 2 ^ 128 then Some (a * b) else None)"

definition duration_from_nanos :: "nat \<Rightarrow> duration option" where
  "duration_from_nanos nanos = (if nanos div 1000000000 < 2 ^ 64 then Some nanos else None)"

definition or_code :: "string \<Rightarrow> 'a option \<Rightarrow> string + 'a" where
  "or_code code x = (case x of None \<Rightarrow> Inl code | Some v \<Rightarrow> Inr v)"

definition and_then :: "string + 'a \<Rightarrow> ('a \<Rightarrow> string + 'b) \<Rightarrow> string + 'b" where
  "and_then x f = (case x of Inl code \<Rightarrow> Inl code | Inr v \<Rightarrow> f v)"

text \<open>The target and the number of missed ticks it reports; None ends the schedule.\<close>

type_synonym next_target_result = "string + (instant \<times> u64) option"

definition target_after :: "string \<Rightarrow> instant \<Rightarrow> duration \<Rightarrow> u64 \<Rightarrow> next_target_result" where
  "target_after code at delay missed =
     (case instant_checked_add at delay of None \<Rightarrow> Inl code | Some target \<Rightarrow> Inr (Some (target, missed)))"

definition skip_missed :: "duration \<Rightarrow> instant \<Rightarrow> instant \<Rightarrow> next_target_result" where
  "skip_missed interval now target =
     (let behind = duration_since now target;
          skipped = behind div interval + 1
      in and_then (or_code ''BB-SCHEDULE-MISSED-COUNT-OVERFLOW'' (if skipped < 2 ^ 128 then Some skipped else None)) (\<lambda>skipped.
         and_then (or_code ''BB-SCHEDULE-MISSED-COUNT-OVERFLOW'' (if skipped < 2 ^ 64 then Some skipped else None)) (\<lambda>skipped.
         and_then (or_code ''BB-SCHEDULE-MISSED-ADVANCE-OVERFLOW'' (nanos_checked_mul interval skipped)) (\<lambda>advance_nanos.
         and_then (or_code ''BB-SCHEDULE-MISSED-DURATION-OVERFLOW'' (duration_from_nanos advance_nanos)) (\<lambda>advance.
         target_after ''BB-SCHEDULE-MISSED-INSTANT-OVERFLOW'' target advance (of_nat skipped))))))"

definition fixed_rate_target ::
  "'f schedule \<Rightarrow> duration \<Rightarrow> instant \<Rightarrow> instant \<Rightarrow> u64 \<Rightarrow> instant \<Rightarrow> bool \<Rightarrow> next_target_result" where
  "fixed_rate_target schedule interval now anchor completed_ticks last_finished_at resume_observed =
     and_then (or_code ''BB-SCHEDULE-FIXED-RATE-MULTIPLY-OVERFLOW''
       (nanos_checked_mul interval (unat completed_ticks))) (\<lambda>nanos.
     and_then (or_code ''BB-SCHEDULE-FIXED-RATE-DURATION-OVERFLOW'' (duration_from_nanos nanos)) (\<lambda>elapsed.
     and_then (or_code ''BB-SCHEDULE-FIXED-RATE-INSTANT-OVERFLOW'' (instant_checked_add anchor elapsed)) (\<lambda>target.
       if now < target then Inr (Some (target, 0))
       else if interval = 0 then Inr (Some (now, 0))
       else case (if resume_observed \<and> sch_resume_policy schedule = SkipMissed then Skip
                  else sch_missed_tick_policy schedule) of
         Burst \<Rightarrow> Inr (Some (target, 1))
       | Delay \<Rightarrow> target_after ''BB-SCHEDULE-MISSED-DELAY-OVERFLOW'' last_finished_at interval 1
       | Skip \<Rightarrow> skip_missed interval now target)))"

definition steps_target :: "duration list \<Rightarrow> bool \<Rightarrow> u64 \<Rightarrow> instant \<Rightarrow> next_target_result" where
  "steps_target delays rep completed_ticks last_finished_at =
     and_then (or_code ''BB-SCHEDULE-STEP-COUNTER-UNDERFLOW'' (checked_sub completed_ticks 1)) (\<lambda>step.
       if unat step < length delays
       then target_after ''BB-SCHEDULE-STEP-INSTANT-OVERFLOW'' last_finished_at (delays ! unat step) 0
       else if rep \<and> delays \<noteq> []
       then target_after ''BB-SCHEDULE-STEP-INSTANT-OVERFLOW'' last_finished_at (last delays) 0
       else Inr None)"

text \<open>\<open>dynamic\<close> is what the user's schedule function answers; \<open>now\<close> is the clock.\<close>

definition next_target ::
  "'f schedule \<Rightarrow> instant \<Rightarrow> duration option \<Rightarrow> instant \<Rightarrow> u64 \<Rightarrow> instant \<Rightarrow> bool \<Rightarrow> next_target_result" where
  "next_target schedule now dynamic anchor completed_ticks last_finished_at resume_observed =
     (if resume_observed \<and> sch_resume_policy schedule = RunImmediately then Inr (Some (now, 0))
      else case sch_plan schedule of
        FixedPlan interval mode \<Rightarrow>
          (case mode of
             FixedDelayMode \<Rightarrow> target_after ''BB-SCHEDULE-FIXED-DELAY-OVERFLOW'' last_finished_at interval 0
           | FixedRateMode \<Rightarrow>
               fixed_rate_target schedule interval now anchor completed_ticks last_finished_at resume_observed)
      | StepsPlan delays rep \<Rightarrow> steps_target delays rep completed_ticks last_finished_at
      | DynamicPlan \<Rightarrow>
          (case dynamic of
             Some delay \<Rightarrow> target_after ''BB-SCHEDULE-DYNAMIC-INSTANT-OVERFLOW'' last_finished_at delay 0
           | None \<Rightarrow> Inr None))"

section \<open>One tick\<close>

datatype (plugins only: size) ('t, 'e) tick_run =
    RunOutcome "'t tick_outcome"
  | RunFailure 'e
  | RunExit "('t tick_outcome, 'e) task_exit"
  | RunPanicked panic_source string

text \<open>How the wait for the next tick ends.\<close>

datatype (plugins only: size) wait_end = WaitOver | WaitStopped | WaitResumed u64 instant | ResumeLost

record ('t, 'e) tick_env =
  te_cancelled :: bool
  te_stop_cause :: "stop_cause option"
  te_factory_panic :: "panic_payload option"
  te_joined :: "('e + 't tick_outcome) join_result option"
  te_accepted_at :: instant
  te_attempts :: "nat \<Rightarrow> ('t tick_outcome, 'e) attempt_env"
  te_failure_sleep :: bool
  te_restart_now :: instant
  te_restart_sleep :: bool
  te_finished_at :: instant
  te_resume_epoch :: u64
  te_schedule_now :: instant
  te_schedule_panic :: "panic_payload option"
  te_dynamic :: "duration option"
  te_wait_now :: instant
  te_wait :: wait_end

definition run_tick ::
  "'f float_ops \<Rightarrow> 'f recurring_operation \<Rightarrow> ('t, 'e) tick_env \<Rightarrow> ('t, 'e) tick_run option" where
  "run_tick F operation v =
     (case operation of
        TickOperation \<Rightarrow>
          (case te_factory_panic v of
             Some payload \<Rightarrow> Some (RunPanicked FactoryPanic (panic_message payload))
           | None \<Rightarrow>
               (case te_joined v of
                  None \<Rightarrow> None
                | Some (JoinOk (Inr outcome)) \<Rightarrow> Some (RunOutcome outcome)
                | Some (JoinOk (Inl err)) \<Rightarrow> Some (RunFailure err)
                | Some (JoinPanic payload) \<Rightarrow>
                    let message = panic_message payload in
                    Some (if is_timer_unavailable_message message then RunExit (Failed TimerUnavailable)
                          else RunPanicked WorkFuturePanic message)
                | Some JoinCancelled \<Rightarrow> Some (RunExit (ExecutorStopped StopRuntimeUnavailable))))
      | RetryOperation spec \<Rightarrow>
          (case deadline_at spec (te_accepted_at v) of
             Inl () \<Rightarrow> Some (RunExit (Failed (DeadlineExceeded None)))
           | Inr deadline \<Rightarrow>
               (case fst (run_retry F spec deadline (te_attempts v)) of
                  None \<Rightarrow> None
                | Some (Completed outcome) \<Rightarrow> Some (RunOutcome outcome)
                | Some exit \<Rightarrow> Some (RunExit exit))))"

fun map_tick_exit :: "('t tick_outcome, 'e) task_exit \<Rightarrow> ('t, 'e) task_exit" where
  "map_tick_exit (Completed (TickStop value)) = Completed value"
| "map_tick_exit (Completed TickContinue) = Failed (RecurringFailed ScheduleEnded)"
| "map_tick_exit (Failed failure) = Failed failure"
| "map_tick_exit (Cancelled reason) = Cancelled reason"
| "map_tick_exit (Aborted preceding_stop) = Aborted preceding_stop"
| "map_tick_exit (Panicked source message) = Panicked source message"
| "map_tick_exit (ExecutorStopped reason) = ExecutorStopped reason"

definition cancelled_exit :: "stop_cause option \<Rightarrow> ('t, 'e) task_exit" where
  "cancelled_exit cause =
     (case cause of
        Some (CancelCause reason) \<Rightarrow> Cancelled reason
      | Some DeadlineCause \<Rightarrow> Failed (DeadlineExceeded None)
      | None \<Rightarrow> ExecutorStopped StopRunnerCancelled)"

section \<open>The loop\<close>

record recurring_state =
  cr_scheduled_at :: instant
  cr_tick :: u64
  cr_observed_missed_ticks :: u64
  cr_consecutive_failures :: u32
  cr_restarts :: "instant list"
  cr_resume_epoch :: u64

definition recurring_start :: "instant \<Rightarrow> u64 \<Rightarrow> recurring_state" where
  "recurring_start anchor resume_epoch =
     \<lparr>cr_scheduled_at = anchor, cr_tick = 1, cr_observed_missed_ticks = 0, cr_consecutive_failures = 0,
      cr_restarts = [], cr_resume_epoch = resume_epoch\<rparr>"

datatype (plugins only: size) ('t, 'e) tick_end = TickExit "('t, 'e) task_exit" | TickPending | NextTick recurring_state

datatype (plugins only: size) recurring_event = TickBegan u64 instant u64 | RestartGranted instant

text \<open>The jitter of the wait: the delay until the target, and where it then ends.\<close>

definition jittered_target ::
  "'f float_ops \<Rightarrow> 'f schedule \<Rightarrow> u64 \<Rightarrow> instant \<Rightarrow> instant \<Rightarrow> string + (duration \<times> instant)" where
  "jittered_target F schedule tick now target =
     (let delay = duration_since target now in
      case sch_jitter schedule of
        None \<Rightarrow> Inr (delay, target)
      | Some j \<Rightarrow>
          (case jitter_apply F j delay tick of
             None \<Rightarrow> Inl ''schedule jitter overflow''
           | Some delay' \<Rightarrow>
               (case instant_checked_add now delay' of
                  None \<Rightarrow> Inl ''schedule jitter Instant overflow''
                | Some at \<Rightarrow> Inr (delay', at))))"

text \<open>From a successful or tolerated tick to the start of the next one.\<close>

definition wait_for_next ::
  "'f float_ops \<Rightarrow> 'f recurring_spec \<Rightarrow> ('t, 'e) tick_env \<Rightarrow> recurring_state \<Rightarrow> instant \<Rightarrow> u64
   \<Rightarrow> ('t, 'e) tick_end" where
  "wait_for_next F spec v s target missed =
     (case jittered_target F (cs_schedule spec) (cr_tick s) (te_wait_now v) target of
        Inl message \<Rightarrow> TickExit (Panicked SchedulePanic message)
      | Inr (delay, at) \<Rightarrow>
          let s = s\<lparr>cr_observed_missed_ticks := missed, cr_scheduled_at := at\<rparr>;
              next_tick = (\<lambda>s. case checked_add (cr_tick s) 1 of
                 None \<Rightarrow> TickExit (Failed (RecurringFailed (RecCounterOverflow ''tick'')))
               | Some n \<Rightarrow> NextTick (s\<lparr>cr_tick := n\<rparr>))
          in case te_wait v of
               WaitOver \<Rightarrow> next_tick s
             | WaitStopped \<Rightarrow> TickExit (cancelled_exit (te_stop_cause v))
             | WaitResumed epoch now \<Rightarrow>
                 if sch_resume_policy (cs_schedule spec) = RunImmediately \<and> delay \<noteq> 0
                 then next_tick (s\<lparr>cr_resume_epoch := epoch, cr_scheduled_at := now, cr_observed_missed_ticks := 0\<rparr>)
                 else next_tick s
             | ResumeLost \<Rightarrow>
                 if sch_resume_policy (cs_schedule spec) = RunImmediately \<and> delay \<noteq> 0
                 then TickExit (cancelled_exit (te_stop_cause v)) else next_tick s)"

text \<open>The user's schedule function is called only for a dynamic plan, and not after a resume that runs at once.\<close>

definition calls_schedule_function :: "'f schedule \<Rightarrow> bool \<Rightarrow> bool" where
  "calls_schedule_function schedule resume_observed \<longleftrightarrow>
     sch_plan schedule = DynamicPlan \<and> \<not> (resume_observed \<and> sch_resume_policy schedule = RunImmediately)"

definition after_tick ::
  "'f float_ops \<Rightarrow> 'f recurring_spec \<Rightarrow> instant \<Rightarrow> ('t, 'e) tick_env \<Rightarrow> recurring_state \<Rightarrow> ('t, 'e) tick_end" where
  "after_tick F spec anchor v s =
     (let resume_observed = (te_resume_epoch v \<noteq> cr_resume_epoch s);
          s = s\<lparr>cr_resume_epoch := te_resume_epoch v\<rparr>
      in case (if calls_schedule_function (cs_schedule spec) resume_observed then te_schedule_panic v else None) of
           Some payload \<Rightarrow>
             let message = panic_message payload in
             TickExit (if is_timer_unavailable_message message then Failed TimerUnavailable
                       else Panicked SchedulePanic message)
         | None \<Rightarrow>
             (case next_target (cs_schedule spec) (te_schedule_now v) (te_dynamic v) anchor (cr_tick s)
                     (te_finished_at v) resume_observed of
                Inl code \<Rightarrow> TickExit (Failed (RecurringFailed (ScheduleOverflow code)))
              | Inr None \<Rightarrow> TickExit (Failed (RecurringFailed ScheduleEnded))
              | Inr (Some (target, missed)) \<Rightarrow> wait_for_next F spec v s target missed))"

text \<open>A failed tick under the failure policy: the exit, or the state to go on with.\<close>

definition tick_failed ::
  "'f recurring_spec \<Rightarrow> ('t, 'e) tick_env \<Rightarrow> recurring_state \<Rightarrow> 'e \<Rightarrow> ('t, 'e) task_exit + recurring_state" where
  "tick_failed spec v s err =
     (case cs_failure_policy spec of
        StopOnFailure \<Rightarrow> Inl (Failed (RecurringFailed (TickFailed (cr_tick s) err)))
      | ContinueOnFailure max_consecutive_failures delay \<Rightarrow>
          (case checked_add (cr_consecutive_failures s) 1 of
             None \<Rightarrow> Inl (Failed (RecurringFailed (RecCounterOverflow ''consecutive_failures'')))
           | Some failures \<Rightarrow>
               if max_consecutive_failures < failures
               then Inl (Failed (RecurringFailed (ConsecutiveFailuresExceeded (cr_tick s) err)))
               else if \<not> te_failure_sleep v then Inl (cancelled_exit (te_stop_cause v))
               else Inr (s\<lparr>cr_consecutive_failures := failures\<rparr>)))"

definition tick_panicked ::
  "'f recurring_spec \<Rightarrow> ('t, 'e) tick_env \<Rightarrow> recurring_state \<Rightarrow> panic_source \<Rightarrow> string
   \<Rightarrow> ('t, 'e) tick_end \<times> recurring_event list" where
  "tick_panicked spec v s source message =
     (case cs_panic_policy spec of
        StopOnPanic \<Rightarrow> (TickExit (Panicked source message), [])
      | RestartOnPanic policy \<Rightarrow>
          (case restart_admit policy (te_restart_now v) (cr_restarts s) of
             None \<Rightarrow> (TickExit (Failed (RecurringFailed RecRestartLimitExceeded)), [])
           | Some restarts \<Rightarrow>
               (if te_restart_sleep v then NextTick (s\<lparr>cr_restarts := restarts\<rparr>)
                else TickExit (cancelled_exit (te_stop_cause v)),
                [RestartGranted (te_restart_now v)])))"

definition recurring_iteration ::
  "'f float_ops \<Rightarrow> 'f recurring_spec \<Rightarrow> instant \<Rightarrow> ('t, 'e) tick_env \<Rightarrow> recurring_state
   \<Rightarrow> ('t, 'e) tick_end \<times> recurring_event list" where
  "recurring_iteration F spec anchor v s =
     (if te_cancelled v then (TickExit (cancelled_exit (te_stop_cause v)), [])
      else then_events [TickBegan (cr_tick s) (cr_scheduled_at s) (cr_observed_missed_ticks s)]
        (case run_tick F (cs_operation spec) v of
           None \<Rightarrow> (TickPending, [])
         | Some (RunOutcome (TickStop value)) \<Rightarrow> (TickExit (Completed value), [])
         | Some (RunOutcome TickContinue) \<Rightarrow>
             (after_tick F spec anchor v (s\<lparr>cr_consecutive_failures := 0\<rparr>), [])
         | Some (RunFailure err) \<Rightarrow>
             (case tick_failed spec v s err of
                Inl exit \<Rightarrow> (TickExit exit, [])
              | Inr s' \<Rightarrow> (after_tick F spec anchor v s', []))
         | Some (RunExit exit) \<Rightarrow> (TickExit (map_tick_exit exit), [])
         | Some (RunPanicked source message) \<Rightarrow> tick_panicked spec v s source message))"

text \<open>At most \<open>n\<close> iterations: the exit or the state reached, and the events.\<close>

primrec recurring_run ::
  "'f float_ops \<Rightarrow> 'f recurring_spec \<Rightarrow> instant \<Rightarrow> (nat \<Rightarrow> ('t, 'e) tick_env) \<Rightarrow> nat
   \<Rightarrow> recurring_state \<Rightarrow> ('t, 'e) tick_end \<times> recurring_event list" where
  "recurring_run F spec anchor env 0 s = (NextTick s, [])"
| "recurring_run F spec anchor env (Suc n) s =
     (case recurring_run F spec anchor env n s of
        (NextTick s', evs) \<Rightarrow> then_events evs (recurring_iteration F spec anchor (env n) s')
      | r \<Rightarrow> r)"

text \<open>The whole task: the initial delay, then the loop.\<close>

definition run_recurring ::
  "'f float_ops \<Rightarrow> 'f recurring_spec \<Rightarrow> bool \<Rightarrow> stop_cause option \<Rightarrow> instant \<Rightarrow> u64
   \<Rightarrow> (nat \<Rightarrow> ('t, 'e) tick_env) \<Rightarrow> nat \<Rightarrow> ('t, 'e) tick_end \<times> recurring_event list" where
  "run_recurring F spec initial_sleep stop anchor resume_epoch env n =
     (if sch_initial_delay (cs_schedule spec) \<noteq> 0 \<and> \<not> initial_sleep
      then (TickExit (cancelled_exit stop), [])
      else recurring_run F spec anchor env n (recurring_start anchor resume_epoch))"

end
