(* ===== verification/BB_Recurring_Props.thy ===== *)
theory BB_Recurring_Props
  imports BB_Recurring BB_Retry_Props
begin

text \<open>
  What holds of recurring tasks: restarts after panics stay within the budget in every window, a
  fixed-rate schedule that skips stays on its grid, and what it reports of missed ticks.
\<close>

section \<open>Restarts\<close>

definition granted_of :: "recurring_event list \<Rightarrow> instant list" where
  "granted_of evs = concat (map (\<lambda>ev. case ev of RestartGranted t \<Rightarrow> [t] | _ \<Rightarrow> []) evs)"

lemma granted_of_simps [simp]:
  "granted_of [] = []" "granted_of (RestartGranted t # evs) = t # granted_of evs"
  "granted_of (TickBegan n at m # evs) = granted_of evs" "granted_of (evs @ evs') = granted_of evs @ granted_of evs'"
  by (simp_all add: granted_of_def)

lemma wait_for_next_restarts:
  "wait_for_next F spec v s target missed = NextTick s' \<Longrightarrow> cr_restarts s' = cr_restarts s"
  by (auto simp: wait_for_next_def Let_def split: sum.splits prod.splits wait_end.splits option.splits if_splits)

lemma after_tick_restarts: "after_tick F spec anchor v s = NextTick s' \<Longrightarrow> cr_restarts s' = cr_restarts s"
  by (auto simp: after_tick_def Let_def split: option.splits sum.splits prod.splits dest: wait_for_next_restarts)

lemma tick_failed_restarts: "tick_failed spec v s err = Inr s' \<Longrightarrow> cr_restarts s' = cr_restarts s"
  by (auto simp: tick_failed_def split: tick_failure_policy.splits option.splits if_splits)

text \<open>What an iteration does with the restarts.\<close>

lemma recurring_iteration_restarts:
  assumes "recurring_iteration F spec anchor v s = (r, evs)" and "cs_panic_policy spec = RestartOnPanic policy"
  shows "\<exists>ts. grant_run (restart_admit policy) (cr_restarts s) (granted_of evs) = Some ts
    \<and> (\<forall>s'. r = NextTick s' \<longrightarrow> cr_restarts s' = ts)"
proof (cases "\<exists>source message. \<not> te_cancelled v \<and> run_tick F (cs_operation spec) v = Some (RunPanicked source message)")
  case True
  with assms show ?thesis
    by (auto simp: recurring_iteration_def then_events_def tick_panicked_def split: option.splits)
next
  case False
  then have "granted_of evs = [] \<and> (\<forall>s'. r = NextTick s' \<longrightarrow> cr_restarts s' = cr_restarts s)"
    using assms(1)
    by (auto simp: recurring_iteration_def then_events_def
        split: if_splits option.splits tick_run.splits tick_outcome.splits sum.splits
        dest!: after_tick_restarts dest: tick_failed_restarts)
  then show ?thesis by simp
qed

lemma recurring_run_restarts:
  assumes "recurring_run F spec anchor env n s = (r, evs)" and "cs_panic_policy spec = RestartOnPanic policy"
  shows "\<exists>ts. grant_run (restart_admit policy) (cr_restarts s) (granted_of evs) = Some ts
    \<and> (\<forall>s'. r = NextTick s' \<longrightarrow> cr_restarts s' = ts)"
  using assms(1)
proof (induction n arbitrary: r evs)
  case (Suc n)
  obtain r0 evs0 where run: "recurring_run F spec anchor env n s = (r0, evs0)"
    by (cases "recurring_run F spec anchor env n s")
  from Suc.IH [OF run] obtain ts where ts: "grant_run (restart_admit policy) (cr_restarts s) (granted_of evs0) = Some ts"
    "\<And>s'. r0 = NextTick s' \<Longrightarrow> cr_restarts s' = ts" by blast
  show ?case
  proof (cases r0)
    case (NextTick s0)
    obtain r1 evs1 where it: "recurring_iteration F spec anchor (env n) s0 = (r1, evs1)"
      by (cases "recurring_iteration F spec anchor (env n) s0")
    have r: "r = r1" "evs = evs0 @ evs1" using Suc.prems run NextTick it by (simp_all add: then_events_def)
    from recurring_iteration_restarts [OF it assms(2)] ts NextTick r show ?thesis
      by (simp add: grant_run_append)
  qed (use Suc.prems run ts in auto)
qed simp

section \<open>The grid of a fixed rate\<close>

lemma and_then_Inr: "and_then x f = Inr r \<longleftrightarrow> (\<exists>v. x = Inr v \<and> f v = Inr r)"
  by (cases x) (simp_all add: and_then_def)

lemma or_code_Inr: "or_code code x = Inr v \<longleftrightarrow> x = Some v"
  by (cases x) (auto simp: or_code_def)

lemma target_after_Inr: "target_after code at d m = Inr r \<longleftrightarrow> r = Some (at + d, m) \<and> instant_checked_add at d \<noteq> None"
  by (auto simp: target_after_def instant_checked_add_def split: option.splits if_splits)

lemma skip_missed_Inr:
  assumes "skip_missed interval now target = Inr (Some (target', missed))" and "target \<le> now" and "0 < interval"
  shows "target' = target + unat missed * interval" and "now < target'" and "target' \<le> now + interval"
    and "unat missed = (now - target) div interval + 1"
proof -
  let ?k = "(now - target) div interval + 1"
  have k: "?k < 2 ^ 64" and t: "target' = target + interval * ?k" "missed = of_nat ?k"
    using assms(1) unfolding skip_missed_def
    by (auto simp: and_then_Inr or_code_Inr target_after_Inr nanos_checked_mul_def duration_from_nanos_def
        duration_since_def Let_def simp del: of_nat_Suc of_nat_add split: if_splits)
  have m: "unat missed = ?k" unfolding t(2) using k by (simp add: unat_of_nat del: of_nat_Suc of_nat_add)
  then show "target' = target + unat missed * interval" "unat missed = ?k" using t(1) by (simp_all add: mult.commute)
  define q r where "q = (now - target) div interval" and "r = (now - target) mod interval"
  have "interval * q + r = now - target" "r < interval" using assms(3) by (simp_all add: q_def r_def)
  with assms(2) have "now = target + interval * q + r" "r < interval" by simp_all
  moreover have "target' = target + interval * q + interval" using t(1) by (simp add: q_def algebra_simps)
  ultimately show "now < target'" "target' \<le> now + interval" by simp_all
qed

lemma fixed_rate_target_Skip:
  assumes "fixed_rate_target schedule interval now anchor n finished False = Inr (Some (target, missed))"
    and "sch_missed_tick_policy schedule = Skip" and "0 < interval"
  shows "target = anchor + (unat n + unat missed) * interval" and "now < target"
    and "missed \<noteq> 0 \<Longrightarrow> target \<le> now + interval"
    and "missed = 0 \<longleftrightarrow> now < anchor + unat n * interval"
proof -
  let ?t = "anchor + unat n * interval"
  have cases: "(now < ?t \<and> target = ?t \<and> missed = 0)
      \<or> (\<not> now < ?t \<and> skip_missed interval now ?t = Inr (Some (target, missed)))"
    using assms by (auto simp: fixed_rate_target_def and_then_Inr or_code_Inr nanos_checked_mul_def
        duration_from_nanos_def instant_checked_add_def algebra_simps split: if_splits)
  then have "target = anchor + (unat n + unat missed) * interval \<and> now < target
      \<and> (missed \<noteq> 0 \<longrightarrow> target \<le> now + interval) \<and> (missed = 0 \<longleftrightarrow> now < ?t)"
  proof
    assume "\<not> now < ?t \<and> skip_missed interval now ?t = Inr (Some (target, missed))"
    then have le: "?t \<le> now" and skip: "skip_missed interval now ?t = Inr (Some (target, missed))" by simp_all
    note S = skip_missed_Inr [OF skip le assms(3)]
    have "missed \<noteq> 0" using S(4) by auto
    with S le show ?thesis by (simp add: algebra_simps)
  qed auto
  then show "target = anchor + (unat n + unat missed) * interval" and "now < target"
    and "missed \<noteq> 0 \<Longrightarrow> target \<le> now + interval"
    and "missed = 0 \<longleftrightarrow> now < anchor + unat n * interval"
    by auto
qed

lemma next_target_grid:
  assumes "next_target schedule now dynamic anchor n finished False = Inr (Some (target, missed))"
    and "sch_plan schedule = FixedPlan interval FixedRateMode" and "sch_missed_tick_policy schedule = Skip"
    and "0 < interval"
  shows "target = anchor + (unat n + unat missed) * interval \<and> now < target
    \<and> (missed \<noteq> 0 \<longrightarrow> target \<le> now + interval) \<and> (missed = 0 \<longleftrightarrow> now < anchor + unat n * interval)"
  using assms(1,2) fixed_rate_target_Skip [OF _ assms(3,4), of now anchor n finished target missed]
  by (auto simp: next_target_def)

section \<open>Properties\<close>

text \<open>
  C26. A recurring task is restarted after panics at most \<open>max_restarts\<close> times in any window: with a
  clock that does not run backwards, the restart that is \<open>max_restarts\<close> further on comes more than
  the window later.  This holds after every number of iterations and for everything the ticks do.
\<close>

theorem restarts_stay_within_budget:
  assumes "run_recurring F spec initial_sleep stop anchor epoch env n = (r, evs)"
    and "cs_panic_policy spec = RestartOnPanic policy" and "sorted (granted_of evs)"
    and "i + unat (rp_max_restarts policy) < length (granted_of evs)"
  shows "rp_window policy < duration_since (granted_of evs ! (i + unat (rp_max_restarts policy))) (granted_of evs ! i)"
proof -
  have "\<exists>ts. grant_run (restart_admit policy) [] (granted_of evs) = Some ts"
  proof (cases "sch_initial_delay (cs_schedule spec) \<noteq> 0 \<and> \<not> initial_sleep")
    case False
    with assms(1) have "recurring_run F spec anchor env n (recurring_start anchor epoch) = (r, evs)"
      by (auto simp: run_recurring_def)
    from recurring_run_restarts [OF this assms(2)] show ?thesis by (auto simp: recurring_start_def)
  qed (use assms(1) in \<open>simp add: run_recurring_def\<close>)
  with restarts.never_more_than_budget [OF assms(3) _ assms(4)] show ?thesis by blast
qed

definition panicking_spec :: "int recurring_spec" where
  "panicking_spec = \<lparr>cs_id = 0, cs_operation = TickOperation, cs_schedule = schedule_fixed 1 FixedDelayMode,
     cs_failure_policy = StopOnFailure,
     cs_panic_policy = RestartOnPanic \<lparr>rp_max_restarts = 1, rp_window = 10, rp_backoff = 0\<rparr>,
     cs_tag = None, cs_abort_policy = CooperativeOnly\<rparr>"

definition idle_attempt :: "nat \<Rightarrow> (unit tick_outcome, unit) attempt_env" where
  "idle_attempt n = \<lparr>ae_now = 0, ae_stop_start = None, ae_factory_panic = None, ae_wait_start = 0, ae_polls = [],
     ae_stop_end = None, ae_predicate = None, ae_sleep_cancelled = False, ae_stop_sleep = None, ae_stop_next = None\<rparr>"

definition panicking_env :: "nat \<Rightarrow> (unit, unit) tick_env" where
  "panicking_env n = \<lparr>te_cancelled = False, te_stop_cause = None, te_factory_panic = Some OtherPayload,
     te_joined = None, te_accepted_at = 0, te_attempts = idle_attempt, te_failure_sleep = True,
     te_restart_now = n * 11, te_restart_sleep = True, te_finished_at = 0, te_resume_epoch = 0,
     te_schedule_now = 0, te_schedule_panic = None, te_dynamic = None, te_wait_now = 0, te_wait = WaitOver\<rparr>"

lemma panicking_run:
  "granted_of (snd (run_recurring F panicking_spec True None 0 0 panicking_env 2)) = [0, 11]"
  by (simp add: run_recurring_def recurring_iteration_def panicking_env_def panicking_spec_def schedule_fixed_def
      run_tick_def tick_panicked_def restart_admit_def evict_restarts_def duration_since_def recurring_start_def
      then_events_def numeral_2_eq_2 granted_of_def)

lemma restarts_stay_within_budget_witness:
  "10 < duration_since ([0, 11] ! 1) ([0, 11 :: nat] ! 0)"
proof -
  obtain r evs where run: "run_recurring demo_floats panicking_spec True None 0 0 panicking_env 2 = (r, evs)"
    by (cases "run_recurring demo_floats panicking_spec True None 0 0 panicking_env 2")
  have evs: "granted_of evs = [0, 11]" using panicking_run [of demo_floats] run by simp
  have "cs_panic_policy panicking_spec = RestartOnPanic \<lparr>rp_max_restarts = 1, rp_window = 10, rp_backoff = 0\<rparr>"
    by (simp add: panicking_spec_def)
  from restarts_stay_within_budget [OF run this, of 0] show ?thesis by (simp add: evs)
qed



text \<open>
  Ticks that were skipped are reported as missed again and again.  When a tick after a skip is
  on time (the clock has reached its target and not yet the grid point after it), the next target
  still reports as many missed ticks as the skip did, although none was missed since: the count of
  completed ticks never catches up with the grid.
\<close>

theorem skipped_ticks_are_reported_again:
  assumes "next_target schedule now dynamic anchor n finished False = Inr (Some (target, missed))"
    and "sch_plan schedule = FixedPlan interval FixedRateMode" and "sch_missed_tick_policy schedule = Skip"
    and "0 < interval" and "missed \<noteq> 0" and "unat n + 1 < 2 ^ 64"
    and "target \<le> now'" and "now' < target + interval"
    and "next_target schedule now' dynamic' anchor (n + 1) finished' False = Inr (Some (target', missed'))"
  shows "missed' = missed \<and> target' = target + interval"
proof -
  note grid = next_target_grid [OF assms(1-4)] next_target_grid [OF assms(9,2-4)]
  have n: "unat (n + 1) = unat n + 1" using assms(6) unat_succ_word [of n] by simp
  have pos: "1 \<le> unat missed" using assms(5) by (simp add: unat_gt_0 Suc_le_eq)
  let ?k = "unat n + 1 + unat missed'"
  have target: "target = anchor + (unat n + unat missed) * interval" using grid(1) by blast
  have target': "target' = anchor + ?k * interval" "now' < target'" using grid(2) n by simp_all
  have "anchor + unat (n + 1) * interval \<le> now'"
  proof -
    have "unat (n + 1) * interval \<le> (unat n + unat missed) * interval" using n pos by (intro mult_le_mono1) simp
    with target assms(7) show ?thesis by linarith
  qed
  then have "missed' \<noteq> 0" using grid(2) by auto
  then have le: "target' \<le> now' + interval" using grid(2) by blast
  have "(unat n + unat missed) * interval < ?k * interval" using target target' assms(7) by simp
  then have lower: "unat n + unat missed < ?k" by (simp only: mult_less_cancel2)
  have "?k * interval < (unat n + unat missed + 2) * interval"
    using le target target' assms(8) by (simp add: algebra_simps)
  then have upper: "?k < unat n + unat missed + 2" by (simp only: mult_less_cancel2)
  from lower upper have k: "?k = unat n + unat missed + 1" by simp
  then have "unat missed' = unat missed" by simp
  then have "missed' = missed" by (simp add: word_unat_eq_iff)
  with target target' k show ?thesis by (simp add: algebra_simps)
qed

lemma skipped_ticks_are_reported_again_witness:
  "\<exists>target' missed'. next_target (schedule_fixed 10 FixedRateMode) 41 None 0 2 41 False = Inr (Some (target', missed'))
     \<and> missed' = 3"
proof -
  have first: "next_target (schedule_fixed 10 FixedRateMode) 35 None 0 1 35 False = Inr (Some (40, 3))"
    and second: "next_target (schedule_fixed 10 FixedRateMode) 41 None 0 (1 + 1) 41 False = Inr (Some (50, 3))"
    by (simp_all add: next_target_def schedule_fixed_def fixed_rate_target_def nanos_checked_mul_def or_code_def
        and_then_def duration_from_nanos_def instant_checked_add_def instant_limit_def skip_missed_def
        duration_since_def target_after_def nanos_per_sec_def)
  from skipped_ticks_are_reported_again [OF first _ _ _ _ _ _ _ second, of 10] second show ?thesis
    by (auto simp: schedule_fixed_def)
qed

end
