(* ===== verification/BB_Service.thy ===== *)
theory BB_Service
  imports BB_Recurring
begin

text \<open>
  Services (\<open>service.rs\<close>): the status a service publishes, the operations of its context, the builder,
  the restart admission, the shutdown hook and the generation loop of \<open>run_service\<close>.  One generation is
  one iteration; its inputs are what the user's factory, body and hook do, the clock and the stop
  cause.  What the loop does to the shared state is a list of events, in order.
\<close>

section \<open>Status\<close>

datatype (plugins only: size) health_status = Healthy | Degraded string | Unhealthy string

datatype (plugins only: size) hook_outcome =
    HookNotRequired
  | HookCompleted
  | HookFailed string
  | HookPanicked
  | HookTimedOut

datatype (plugins only: size) service_status =
    Starting u64
  | Ready u64 health_status
  | StoppingService u64
  | Restarting u64 u32
  | Stopped u64 hook_outcome

record service_state =
  ss_status :: service_status
  ss_generation :: u64

definition service_state_new :: service_state where
  "service_state_new = \<lparr>ss_status = Starting 1, ss_generation = 1\<rparr>"

definition set_status :: "service_status \<Rightarrow> service_state \<Rightarrow> service_state" where
  "set_status status s = s\<lparr>ss_status := status\<rparr>"

text \<open>
  \<open>ServiceContext::set_health\<close>, and \<open>ready\<close> with the health \<open>Healthy\<close>, of a context of generation
  \<open>generation\<close>.  The check and the publication are separate: the lock is released in between.
\<close>

definition health_allowed :: "u64 \<Rightarrow> bool \<Rightarrow> service_state \<Rightarrow> bool" where
  "health_allowed generation cancelled s \<longleftrightarrow> \<not> (ss_generation s \<noteq> generation \<or> cancelled)"

definition set_health :: "u64 \<Rightarrow> bool \<Rightarrow> health_status \<Rightarrow> service_state \<Rightarrow> bool \<times> service_state" where
  "set_health generation cancelled health s =
     (if health_allowed generation cancelled s then (True, set_status (Ready generation health) s) else (False, s))"

definition service_ready :: "u64 \<Rightarrow> bool \<Rightarrow> service_state \<Rightarrow> bool \<times> service_state" where
  "service_ready generation cancelled s = set_health generation cancelled Healthy s"

datatype (plugins only: size) service_wait_error = StoppedBeforeReady | SupervisorUnavailable

text \<open>One look at the status in \<open>wait_ready\<close>; None waits for the next change.\<close>

fun wait_ready_poll :: "service_status \<Rightarrow> (service_wait_error + u64) option" where
  "wait_ready_poll (Ready generation health) = Some (Inr generation)"
| "wait_ready_poll (Stopped generation hook) = Some (Inl StoppedBeforeReady)"
| "wait_ready_poll status = None"

section \<open>Specifications\<close>

datatype (plugins only: size) restart_trigger = Never | OnFailure | OnPanic | OnFailureOrPanic

fun trigger_failure :: "restart_trigger \<Rightarrow> bool" where
  "trigger_failure OnFailure = True"
| "trigger_failure OnFailureOrPanic = True"
| "trigger_failure _ = False"

fun trigger_panic :: "restart_trigger \<Rightarrow> bool" where
  "trigger_panic OnPanic = True"
| "trigger_panic OnFailureOrPanic = True"
| "trigger_panic _ = False"

datatype (plugins only: size) service_build_error =
    SvcRestartPolicyRequired
  | SvcZeroRestartBudget
  | SvcZeroRestartWindow
  | SvcZeroHookTimeout

record service_spec =
  sv_id :: task_spec_id
  sv_has_hook :: bool
  sv_hook_timeout :: duration
  sv_restart_trigger :: restart_trigger
  sv_restart_policy :: "restart_policy option"
  sv_abort_policy :: abort_policy
  sv_tag :: "string option"

text \<open>The builder holds the same fields; the identity is drawn when it builds.\<close>

definition service_builder_new :: service_spec where
  "service_builder_new =
     \<lparr>sv_id = 0, sv_has_hook = False, sv_hook_timeout = 5 * nanos_per_sec, sv_restart_trigger = Never,
      sv_restart_policy = None, sv_abort_policy = CooperativeOnly, sv_tag = None\<rparr>"

definition service_restart :: "restart_trigger \<Rightarrow> restart_policy \<Rightarrow> service_spec \<Rightarrow> service_spec" where
  "service_restart trigger policy b = b\<lparr>sv_restart_trigger := trigger, sv_restart_policy := Some policy\<rparr>"

definition service_policy_error :: "restart_policy option \<Rightarrow> service_build_error option" where
  "service_policy_error p =
     (case p of
        None \<Rightarrow> None
      | Some policy \<Rightarrow>
          if rp_max_restarts policy = 0 then Some SvcZeroRestartBudget
          else if rp_window policy = 0 then Some SvcZeroRestartWindow
          else None)"

definition service_build :: "task_spec_id \<Rightarrow> service_spec \<Rightarrow> service_build_error + service_spec" where
  "service_build fresh b =
     (if sv_restart_trigger b \<noteq> Never \<and> sv_restart_policy b = None then Inl SvcRestartPolicyRequired
      else case service_policy_error (sv_restart_policy b) of
        Some err \<Rightarrow> Inl err
      | None \<Rightarrow> if sv_hook_timeout b = 0 then Inl SvcZeroHookTimeout else Inr (b\<lparr>sv_id := fresh\<rparr>))"

section \<open>Events\<close>

datatype (plugins only: size) service_event =
    GenerationSet u64
  | StatusSet service_status
  | HealthReport u64 bool health_status
  | ServiceAttempt u64
  | HookCleanupPending
  | HookCleanupFinished cleanup_outcome
  | ServiceRestart instant

primrec apply_event :: "service_event \<Rightarrow> service_state \<Rightarrow> service_state" where
  "apply_event (GenerationSet g) s = s\<lparr>ss_generation := g\<rparr>"
| "apply_event (StatusSet status) s = set_status status s"
| "apply_event (HealthReport g cancelled health) s = snd (set_health g cancelled health s)"
| "apply_event (ServiceAttempt g) s = s"
| "apply_event HookCleanupPending s = s"
| "apply_event (HookCleanupFinished outcome) s = s"
| "apply_event (ServiceRestart t) s = s"

definition apply_events :: "service_event list \<Rightarrow> service_state \<Rightarrow> service_state" where
  "apply_events evs s = fold apply_event evs s"

section \<open>The shutdown hook\<close>

text \<open>What the hook does: its factory panics, its future ends, or the timeout is first.\<close>

datatype (plugins only: size) hook_run = HookFactoryPanic | HookJoined "(string + unit) join_result" | HookElapsed

fun run_shutdown_hook :: "service_spec \<Rightarrow> hook_run \<Rightarrow> hook_outcome" where
  "run_shutdown_hook spec run =
     (if \<not> sv_has_hook spec then HookNotRequired
      else case run of
        HookFactoryPanic \<Rightarrow> HookPanicked
      | HookJoined (JoinOk (Inr ())) \<Rightarrow> HookCompleted
      | HookJoined (JoinOk (Inl err)) \<Rightarrow> HookFailed err
      | HookJoined (JoinPanic payload) \<Rightarrow> HookPanicked
      | HookJoined JoinCancelled \<Rightarrow> HookFailed ''hook runtime unavailable''
      | HookElapsed \<Rightarrow> HookTimedOut)"

primrec hook_cleanup_outcome :: "hook_outcome \<Rightarrow> cleanup_outcome" where
  "hook_cleanup_outcome HookNotRequired = CleanupNotRequired"
| "hook_cleanup_outcome HookCompleted = CleanupCompleted"
| "hook_cleanup_outcome (HookFailed message) = CleanupFailed message"
| "hook_cleanup_outcome HookPanicked = CleanupFailed ''shutdown hook panicked''"
| "hook_cleanup_outcome HookTimedOut = CleanupFailed ''shutdown hook timed out''"

section \<open>One generation\<close>

record ('t, 'e) service_env =
  se_factory_panic :: "panic_payload option"
  se_reports :: "(bool \<times> health_status) list"
  se_cancelled_first :: bool
  se_hook :: hook_run
  se_body :: "('e + 't) join_result option"
  se_stop_cause :: "stop_cause option"
  se_cancelled_after :: bool
  se_restart_now :: instant
  se_restart_cancelled :: bool
  se_restart_sleep :: bool

record service_loop =
  sl_generation :: u64
  sl_restart_times :: "instant list"
  sl_restart_count :: u32

definition service_loop_start :: service_loop where
  "service_loop_start = \<lparr>sl_generation = 1, sl_restart_times = [], sl_restart_count = 0\<rparr>"

definition restart_count_overflow :: string where
  "restart_count_overflow = ''BB-SERVICE-RESTART-COUNT-OVERFLOW''"

definition next_restart_count :: "u32 \<Rightarrow> string + u32" where
  "next_restart_count current = or_code restart_count_overflow (checked_add current 1)"

datatype (plugins only: size) restart_admission = RestartAdmitted | RestartRejected | RestartCounterOverflow string

text \<open>The window of \<open>admit_restart\<close>: the restart times after a grant.\<close>

definition service_grant :: "restart_policy \<Rightarrow> instant \<Rightarrow> instant list \<Rightarrow> instant list option" where
  "service_grant policy now restart_times =
     (let kept = evict_restarts (rp_window policy) now restart_times in
      if unat (rp_max_restarts policy) \<le> length kept then None else Some (kept @ [now]))"

definition admit_restart ::
  "service_spec \<Rightarrow> ('t, 'e) service_env \<Rightarrow> service_loop \<Rightarrow> restart_admission \<times> service_loop \<times> service_event list" where
  "admit_restart spec v l =
     (case sv_restart_policy spec of
        None \<Rightarrow> (RestartRejected, l, [])
      | Some policy \<Rightarrow>
          (case (if se_restart_cancelled v then None
                 else service_grant policy (se_restart_now v) (sl_restart_times l)) of
             None \<Rightarrow> (RestartRejected, l, [])
           | Some restart_times \<Rightarrow>
               (case next_restart_count (sl_restart_count l) of
                  Inl code \<Rightarrow> (RestartCounterOverflow code, l, [])
                | Inr count \<Rightarrow>
                    (if se_restart_sleep v then RestartAdmitted else RestartRejected,
                     l\<lparr>sl_restart_times := restart_times, sl_restart_count := count\<rparr>,
                     [ServiceRestart (se_restart_now v), StatusSet (Restarting (sl_generation l) count)]))))"

datatype (plugins only: size) ('t, 'e) service_end =
    ServiceExit "('t, 'e) task_exit"
  | ServicePending
  | NextGeneration service_loop

definition cancel_reason_of :: "stop_cause option \<Rightarrow> cancel_reason" where
  "cancel_reason_of cause = (case cause of Some (CancelCause reason) \<Rightarrow> reason | _ \<Rightarrow> ExecutorShutdown)"

text \<open>The exit of a body that was joined after a cancellation.\<close>

definition cancelled_body_exit :: "u64 \<Rightarrow> stop_cause option \<Rightarrow> ('e + 't) join_result \<Rightarrow> ('t, 'e) task_exit" where
  "cancelled_body_exit generation cause body =
     (case body of
        JoinOk (Inr value) \<Rightarrow> Completed value
      | JoinOk (Inl err) \<Rightarrow> Failed (ServiceFailed (BodyFailed generation err))
      | JoinPanic payload \<Rightarrow>
          let message = panic_message payload in
          if is_timer_unavailable_message message then Failed TimerUnavailable
          else Panicked ServiceBodyPanic message
      | JoinCancelled \<Rightarrow> Cancelled (cancel_reason_of cause))"

text \<open>\<open>Stopped\<close> without a hook, and the exit.\<close>

definition stop_with :: "u64 \<Rightarrow> ('t, 'e) task_exit \<Rightarrow> ('t, 'e) service_end \<times> service_event list" where
  "stop_with generation exit = (ServiceExit exit, [StatusSet (Stopped generation HookNotRequired)])"

definition advance_generation :: "service_loop \<Rightarrow> ('t, 'e) service_end" where
  "advance_generation l =
     (case checked_add (sl_generation l) 1 of
        None \<Rightarrow> ServiceExit (Failed (ServiceFailed GenerationOverflow))
      | Some next_generation \<Rightarrow> NextGeneration (l\<lparr>sl_generation := next_generation\<rparr>))"

text \<open>What the context of a generation reports while it runs; the flag is \<open>is_cancelled\<close> at the call.\<close>

definition health_reports :: "u64 \<Rightarrow> ('t, 'e) service_env \<Rightarrow> service_event list" where
  "health_reports generation v = map (\<lambda>(cancelled, health). HealthReport generation cancelled health) (se_reports v)"

text \<open>
  A restart is tried; \<open>refused\<close> says how a refusal leaves (a panic of the factory does not publish
  \<open>Stopped\<close> then, the other callers do).
\<close>

definition try_restart ::
  "service_spec \<Rightarrow> ('t, 'e) service_env \<Rightarrow> service_loop \<Rightarrow> 'e option
   \<Rightarrow> (('t, 'e) task_exit \<Rightarrow> ('t, 'e) service_end \<times> service_event list)
   \<Rightarrow> ('t, 'e) service_end \<times> service_event list" where
  "try_restart spec v l last_error refused =
     (case admit_restart spec v l of
        (RestartAdmitted, l', evs) \<Rightarrow> (advance_generation l', evs)
      | (RestartRejected, l', evs) \<Rightarrow>
          then_events evs (refused (Failed (ServiceFailed (RestartLimitExceeded (sl_generation l) last_error))))
      | (RestartCounterOverflow code, l', evs) \<Rightarrow>
          then_events evs (refused (Failed (ServiceFailed (CounterOverflow code last_error)))))"

definition leave_silently :: "('t, 'e) task_exit \<Rightarrow> ('t, 'e) service_end \<times> service_event list" where
  "leave_silently exit = (ServiceExit exit, [])"

definition factory_panicked ::
  "service_spec \<Rightarrow> ('t, 'e) service_env \<Rightarrow> service_loop \<Rightarrow> panic_payload \<Rightarrow> ('t, 'e) service_end \<times> service_event list" where
  "factory_panicked spec v l payload =
     (let message = panic_message payload in
      if is_timer_unavailable_message message then stop_with (sl_generation l) (Failed TimerUnavailable)
      else if \<not> trigger_panic (sv_restart_trigger spec)
      then stop_with (sl_generation l) (Panicked FactoryPanic message)
      else try_restart spec v l None leave_silently)"

definition shut_down ::
  "service_spec \<Rightarrow> ('t, 'e) service_env \<Rightarrow> service_loop \<Rightarrow> ('t, 'e) service_end \<times> service_event list" where
  "shut_down spec v l =
     (let g = sl_generation l; hook = run_shutdown_hook spec (se_hook v) in
      then_events [StatusSet (StoppingService g), HookCleanupPending, HookCleanupFinished (hook_cleanup_outcome hook)]
        (case se_body v of
           None \<Rightarrow> (ServicePending, [])
         | Some body \<Rightarrow> (ServiceExit (cancelled_body_exit g (se_stop_cause v) body), [StatusSet (Stopped g hook)])))"

definition body_ended ::
  "service_spec \<Rightarrow> ('t, 'e) service_env \<Rightarrow> service_loop \<Rightarrow> ('e + 't) join_result \<Rightarrow> ('t, 'e) service_end \<times> service_event list" where
  "body_ended spec v l body =
     (let g = sl_generation l in
      if se_cancelled_after v then stop_with g (Cancelled (cancel_reason_of (se_stop_cause v)))
      else case body of
        JoinOk (Inr value) \<Rightarrow> stop_with g (Completed value)
      | JoinOk (Inl err) \<Rightarrow>
          if \<not> trigger_failure (sv_restart_trigger spec)
          then stop_with g (Failed (ServiceFailed (BodyFailed g err)))
          else try_restart spec v l (Some err) (stop_with g)
      | JoinPanic payload \<Rightarrow>
          let message = panic_message payload in
          if is_timer_unavailable_message message then stop_with g (Failed TimerUnavailable)
          else if \<not> trigger_panic (sv_restart_trigger spec) then stop_with g (Panicked ServiceBodyPanic message)
          else try_restart spec v l None (stop_with g)
      | JoinCancelled \<Rightarrow> leave_silently (ExecutorStopped StopRuntimeUnavailable))"

definition service_iteration ::
  "service_spec \<Rightarrow> ('t, 'e) service_env \<Rightarrow> service_loop \<Rightarrow> ('t, 'e) service_end \<times> service_event list" where
  "service_iteration spec v l =
     then_events ([GenerationSet (sl_generation l), StatusSet (Starting (sl_generation l)), ServiceAttempt (sl_generation l)]
         @ health_reports (sl_generation l) v)
       (case se_factory_panic v of
          Some payload \<Rightarrow> factory_panicked spec v l payload
        | None \<Rightarrow>
            if se_cancelled_first v then shut_down spec v l
            else case se_body v of
              None \<Rightarrow> (ServicePending, [])
            | Some body \<Rightarrow> body_ended spec v l body)"

primrec service_run ::
  "service_spec \<Rightarrow> (nat \<Rightarrow> ('t, 'e) service_env) \<Rightarrow> nat \<Rightarrow> service_loop \<Rightarrow> ('t, 'e) service_end \<times> service_event list" where
  "service_run spec env 0 l = (NextGeneration l, [])"
| "service_run spec env (Suc n) l =
     (case service_run spec env n l of
        (NextGeneration l', evs) \<Rightarrow> then_events evs (service_iteration spec (env n) l')
      | r \<Rightarrow> r)"

definition run_service ::
  "service_spec \<Rightarrow> (nat \<Rightarrow> ('t, 'e) service_env) \<Rightarrow> nat \<Rightarrow> ('t, 'e) service_end \<times> service_event list" where
  "run_service spec env n = service_run spec env n service_loop_start"

end
