(* ===== verification/BB_Service_Props.thy ===== *)
theory BB_Service_Props
  imports BB_Service
begin

text \<open>
  What holds of services: restarts stay within the budget, generations are numbered without gaps and
  never overflow, the shutdown hook is accounted for exactly once, and which ends of the supervisor
  publish \<open>Stopped\<close>.
\<close>

section \<open>The shape of an iteration\<close>

text \<open>The events every iteration begins with.\<close>

definition start_events :: "('t, 'e) service_env \<Rightarrow> service_loop \<Rightarrow> service_event list" where
  "start_events v l = [GenerationSet (sl_generation l), StatusSet (Starting (sl_generation l)), ServiceAttempt (sl_generation l)]
     @ health_reports (sl_generation l) v"

definition no_overflow :: "('t, 'e) task_exit \<Rightarrow> bool" where
  "no_overflow exit \<longleftrightarrow> exit \<noteq> Failed (ServiceFailed GenerationOverflow)"

text \<open>An end without a restart and without the hook; only a lost runtime does not publish \<open>Stopped\<close>.\<close>

definition plain_end :: "u64 \<Rightarrow> ('t, 'e) service_end \<times> service_event list \<Rightarrow> bool" where
  "plain_end g x \<longleftrightarrow> (\<exists>exit. no_overflow exit \<and> (x = stop_with g exit
     \<or> x = leave_silently exit \<and> exit = ExecutorStopped StopRuntimeUnavailable))"

lemma plain_end_intros [intro]:
  "no_overflow exit \<Longrightarrow> plain_end g (stop_with g exit)"
  "plain_end g (leave_silently (ExecutorStopped StopRuntimeUnavailable))"
  by (auto simp: plain_end_def no_overflow_def)

lemma no_overflow_simps [simp]:
  "no_overflow (Failed TimerUnavailable)" "no_overflow (Panicked source message)" "no_overflow (Cancelled reason)"
  "no_overflow (Completed value)" "no_overflow (Failed (ServiceFailed (BodyFailed g err)))"
  "no_overflow (Failed (ServiceFailed (RestartLimitExceeded g e)))" "no_overflow (Failed (ServiceFailed (CounterOverflow code e)))"
  by (simp_all add: no_overflow_def)

lemma join_cases:
  fixes body :: "('e + 't) join_result"
  obtains (returned) x where "body = JoinOk (Inr x)" | (errored) err where "body = JoinOk (Inl err)"
    | (panicked) payload where "body = JoinPanic payload" | (cancelled) "body = JoinCancelled"
proof (cases body)
  case (JoinOk result)
  then show thesis using that by (cases result) auto
qed (use that in auto)

lemma factory_panicked_shape:
  "plain_end (sl_generation l) (factory_panicked spec v l payload)
   \<or> factory_panicked spec v l payload = try_restart spec v l None leave_silently"
  by (auto simp: factory_panicked_def Let_def)

lemma body_ended_shape:
  "plain_end (sl_generation l) (body_ended spec v l body)
   \<or> (\<exists>err. body_ended spec v l body = try_restart spec v l err (stop_with (sl_generation l)))"
  by (cases body rule: join_cases)
    (auto simp: body_ended_def Let_def)

lemma service_iteration_shape:
  obtains (ends) x where "service_iteration spec v l = then_events (start_events v l) x" "plain_end (sl_generation l) x"
  | (pending) "service_iteration spec v l = then_events (start_events v l) (ServicePending, [])"
  | (cancelled) "service_iteration spec v l = then_events (start_events v l) (shut_down spec v l)"
      "se_factory_panic v = None"
  | (restart) err refused where
      "service_iteration spec v l = then_events (start_events v l) (try_restart spec v l err refused)"
      "refused = stop_with (sl_generation l) \<and> se_factory_panic v = None \<or> refused = leave_silently \<and> err = None"
proof (cases "se_factory_panic v")
  case (Some payload)
  then have it: "service_iteration spec v l = then_events (start_events v l) (factory_panicked spec v l payload)"
    by (simp add: service_iteration_def start_events_def)
  with factory_panicked_shape [of l spec v payload] ends restart show thesis by metis
next
  case None
  note factory = None
  show thesis
  proof (cases "se_cancelled_first v")
    case True
    with None cancelled show thesis by (simp add: service_iteration_def start_events_def)
  next
    case False
    show thesis
    proof (cases "se_body v")
      case None
      with factory False pending show thesis by (simp add: service_iteration_def start_events_def)
    next
      case (Some body)
      with factory False have it: "service_iteration spec v l = then_events (start_events v l) (body_ended spec v l body)"
        by (simp add: service_iteration_def start_events_def)
      with factory body_ended_shape [of l spec v body] ends restart show thesis by metis
    qed
  qed
qed

lemma no_overflow_body [simp]: "no_overflow (cancelled_body_exit g cause body)"
  by (cases body rule: join_cases) (auto simp: cancelled_body_exit_def Let_def)

text \<open>What a tried restart leaves.\<close>

lemma try_restart_cases:
  assumes "admit_restart spec v l = (a, l', evs)"
  obtains (admitted) "a = RestartAdmitted" "try_restart spec v l err refused = (advance_generation l', evs)"
  | (refused) exit where "no_overflow exit" "a \<noteq> RestartAdmitted"
      "try_restart spec v l err refused = then_events evs (refused exit)"
      "exit = Failed (ServiceFailed (RestartLimitExceeded (sl_generation l) err))
       \<or> (\<exists>code. exit = Failed (ServiceFailed (CounterOverflow code err)))"
proof (cases a)
  case RestartAdmitted
  with assms admitted show thesis by (simp add: try_restart_def)
qed (use assms refused in \<open>force simp: try_restart_def\<close>)+

section \<open>The loop rule\<close>

text \<open>
  An invariant of the generations: it holds of the loop state and of the events so far, and every
  iteration keeps it or ends.
\<close>

lemma service_run_induct [consumes 1, case_names start step]:
  assumes run: "service_run spec env n l = (r, evs)"
    and start: "I l []"
    and step: "\<And>l' evs m r' evs'. \<lbrakk>I l' evs; service_iteration spec (env m) l' = (r', evs')\<rbrakk>
      \<Longrightarrow> (case r' of NextGeneration l'' \<Rightarrow> I l'' (evs @ evs') | _ \<Rightarrow> Q r' (evs @ evs'))"
  shows "case r of NextGeneration l' \<Rightarrow> I l' evs | _ \<Rightarrow> Q r evs"
  using run
proof (induction n arbitrary: r evs)
  case 0
  then show ?case using start by auto
next
  case (Suc n)
  obtain r0 evs0 where run: "service_run spec env n l = (r0, evs0)" by (cases "service_run spec env n l")
  note IH = Suc.IH [OF run]
  show ?case
  proof (cases r0)
    case (NextGeneration l0)
    obtain r1 evs1 where it: "service_iteration spec (env n) l0 = (r1, evs1)"
      by (cases "service_iteration spec (env n) l0")
    have r: "r = r1" "evs = evs0 @ evs1" using Suc.prems run NextGeneration it by (simp_all add: then_events_def)
    have "I l0 evs0" using IH NextGeneration by simp
    then have "case r1 of NextGeneration l'' \<Rightarrow> I l'' (evs0 @ evs1) | _ \<Rightarrow> Q r1 (evs0 @ evs1)"
      using step [OF _ it] by blast
    with r show ?thesis by (cases r1) simp_all
  qed (use Suc.prems run IH in auto)
qed

section \<open>Restarts\<close>

interpretation service_restarts: restart_budget "service_grant policy" "rp_window policy" "unat (rp_max_restarts policy)"
  for policy
  by unfold_locales (auto simp: service_grant_def Let_def split: if_splits)

definition restarts_of :: "service_event list \<Rightarrow> instant list" where
  "restarts_of evs = concat (map (\<lambda>ev. case ev of ServiceRestart t \<Rightarrow> [t] | _ \<Rightarrow> []) evs)"

lemma restarts_of_simps [simp]:
  "restarts_of [] = []" "restarts_of (ServiceRestart t # evs) = t # restarts_of evs"
  "restarts_of (GenerationSet g # evs) = restarts_of evs" "restarts_of (StatusSet status # evs) = restarts_of evs"
  "restarts_of (HealthReport g c health # evs) = restarts_of evs" "restarts_of (ServiceAttempt g # evs) = restarts_of evs"
  "restarts_of (HookCleanupPending # evs) = restarts_of evs" "restarts_of (HookCleanupFinished outcome # evs) = restarts_of evs"
  "restarts_of (evs @ evs') = restarts_of evs @ restarts_of evs'"
  by (simp_all add: restarts_of_def)

lemma restarts_of_reports [simp]: "restarts_of (health_reports g v) = []"
  by (auto simp: restarts_of_def health_reports_def)

lemma admit_restart_grant:
  assumes "admit_restart spec v l = (a, l', evs)" and "sv_restart_policy spec = Some policy"
  shows "grant_run (service_grant policy) (sl_restart_times l) (restarts_of evs) = Some (sl_restart_times l')"
  using assms by (auto simp: admit_restart_def split: if_splits option.splits sum.splits)

lemma advance_generation_times: "advance_generation l = NextGeneration l' \<Longrightarrow> sl_restart_times l' = sl_restart_times l"
  by (auto simp: advance_generation_def split: option.splits)

lemma service_iteration_restarts:
  assumes "service_iteration spec v l = (r, evs)" and "sv_restart_policy spec = Some policy"
  shows "\<exists>ts. grant_run (service_grant policy) (sl_restart_times l) (restarts_of evs) = Some ts
    \<and> (\<forall>l'. r = NextGeneration l' \<longrightarrow> sl_restart_times l' = ts)"
proof (cases rule: service_iteration_shape [of spec v l])
  case (restart err refused)
  obtain a l' evs' where a: "admit_restart spec v l = (a, l', evs')" by (cases "admit_restart spec v l")
  note grant = admit_restart_grant [OF a assms(2)]
  from a show ?thesis
  proof (cases rule: try_restart_cases [where err = err and refused = refused])
    case admitted
    with grant restart(1) assms(1) show ?thesis
      by (auto simp: then_events_def start_events_def dest: advance_generation_times)
  next
    case (refused exit)
    with grant restart assms(1) show ?thesis by (auto simp: then_events_def start_events_def stop_with_def leave_silently_def)
  qed
qed (use assms(1) in \<open>auto simp: then_events_def start_events_def plain_end_def stop_with_def leave_silently_def
    shut_down_def Let_def split: option.splits\<close>)

text \<open>
  A service is restarted at most \<open>max_restarts\<close> times in any window: with a clock that does not
  run backwards, the restart that is \<open>max_restarts\<close> further on comes more than the window later.  This
  holds after every number of generations and for everything factory, body and hook do.
\<close>

theorem service_restarts_stay_within_budget:
  assumes "run_service spec env n = (r, evs)" and "sv_restart_policy spec = Some policy"
    and "sorted (restarts_of evs)" and "i + unat (rp_max_restarts policy) < length (restarts_of evs)"
  shows "rp_window policy < duration_since (restarts_of evs ! (i + unat (rp_max_restarts policy))) (restarts_of evs ! i)"
proof -
  have "case r of NextGeneration l \<Rightarrow> grant_run (service_grant policy) [] (restarts_of evs) = Some (sl_restart_times l)
      | _ \<Rightarrow> \<exists>ts. grant_run (service_grant policy) [] (restarts_of evs) = Some ts"
    using assms(1) unfolding run_service_def
  proof (induction rule: service_run_induct)
    case (step l' evs m r' evs')
    from service_iteration_restarts [OF step(2) assms(2)] step(1) show ?case
      by (auto simp: grant_run_append split: service_end.splits)
  qed (simp add: service_loop_start_def)
  then obtain ts where "grant_run (service_grant policy) [] (restarts_of evs) = Some ts" by (cases r) auto
  from service_restarts.never_more_than_budget [OF assms(3) this assms(4)] show ?thesis .
qed

definition flaky_spec :: service_spec where
  "flaky_spec = service_restart OnFailureOrPanic \<lparr>rp_max_restarts = 1, rp_window = 10, rp_backoff = 0\<rparr> service_builder_new"

definition failing_env :: "nat \<Rightarrow> (unit, string) service_env" where
  "failing_env n = \<lparr>se_factory_panic = None, se_reports = [(False, Healthy)], se_cancelled_first = False,
     se_hook = HookElapsed, se_body = Some (JoinOk (Inl ''lost'')), se_stop_cause = None, se_cancelled_after = False,
     se_restart_now = 11 * n, se_restart_cancelled = False, se_restart_sleep = True\<rparr>"

lemmas flaky_defs = flaky_spec_def service_restart_def service_builder_new_def failing_env_def service_iteration_def
  body_ended_def try_restart_def stop_with_def then_events_def Let_def health_reports_def
  run_service_def service_loop_start_def admit_restart_def service_grant_def evict_restarts_def
  duration_since_def next_restart_count_def or_code_def checked_add_def advance_generation_def

lemma service_restarts_stay_within_budget_witness:
  "10 < duration_since ([0, 11] ! 1) ([0, 11 :: nat] ! 0)"
proof -
  obtain r evs where run: "run_service flaky_spec failing_env (Suc (Suc 0)) = (r, evs)"
    by (cases "run_service flaky_spec failing_env (Suc (Suc 0))")
  have "restarts_of (snd (run_service flaky_spec failing_env (Suc (Suc 0)))) = [0, 11]"
    by (simp add: flaky_defs)
  then have evs: "restarts_of evs = [0, 11]" using run by simp
  have "sv_restart_policy flaky_spec = Some \<lparr>rp_max_restarts = 1, rp_window = 10, rp_backoff = 0\<rparr>"
    by (simp add: flaky_spec_def service_restart_def)
  from service_restarts_stay_within_budget [OF run this, of 0] show ?thesis by (simp add: evs)
qed

section \<open>Generations\<close>

definition attempts_of :: "service_event list \<Rightarrow> u64 list" where
  "attempts_of evs = concat (map (\<lambda>ev. case ev of ServiceAttempt g \<Rightarrow> [g] | _ \<Rightarrow> []) evs)"

lemma attempts_of_simps [simp]:
  "attempts_of [] = []" "attempts_of (ServiceAttempt g # evs) = g # attempts_of evs"
  "attempts_of (GenerationSet g # evs) = attempts_of evs" "attempts_of (StatusSet status # evs) = attempts_of evs"
  "attempts_of (HealthReport g c health # evs) = attempts_of evs" "attempts_of (ServiceRestart t # evs) = attempts_of evs"
  "attempts_of (HookCleanupPending # evs) = attempts_of evs" "attempts_of (HookCleanupFinished outcome # evs) = attempts_of evs"
  "attempts_of (evs @ evs') = attempts_of evs @ attempts_of evs'"
  by (simp_all add: attempts_of_def)

lemma attempts_of_reports [simp]: "attempts_of (health_reports g v) = []"
  by (auto simp: attempts_of_def health_reports_def)

text \<open>The number of the generation is one more than the number of restarts, which is 32 bits wide.\<close>

definition loop_counts :: "service_loop \<Rightarrow> service_event list \<Rightarrow> bool" where
  "loop_counts l evs \<longleftrightarrow> unat (sl_generation l) = Suc (unat (sl_restart_count l))
     \<and> attempts_of evs = map of_nat [1..<unat (sl_generation l)]"

lemma admit_restart_counts:
  assumes "admit_restart spec v l = (RestartAdmitted, l', evs)"
  shows "unat (sl_restart_count l') = Suc (unat (sl_restart_count l)) \<and> sl_generation l' = sl_generation l"
  using assms unat_succ_word [of "sl_restart_count l"]
  by (auto simp: admit_restart_def next_restart_count_def or_code_def checked_add_def
      split: if_splits option.splits sum.splits)

lemma admit_restart_attempts: "admit_restart spec v l = (a, l', evs) \<Longrightarrow> attempts_of evs = []"
  by (auto simp: admit_restart_def split: if_splits option.splits sum.splits)

lemma advance_generation_counts:
  assumes "admit_restart spec v l = (RestartAdmitted, l', evs)" and "loop_counts l evs0"
  shows "\<exists>l''. advance_generation l' = NextGeneration l'' \<and> unat (sl_generation l'') = Suc (unat (sl_generation l))
    \<and> sl_restart_count l'' = sl_restart_count l'"
proof -
  note counts = admit_restart_counts [OF assms(1)]
  have "unat (sl_restart_count l') < 2 ^ 32" using unsigned_less [of "sl_restart_count l'"] by simp
  with counts assms(2) have lt: "unat (sl_generation l') + 1 < 2 ^ 64" by (simp add: loop_counts_def)
  then have "unat (sl_generation l' + 1) = Suc (unat (sl_generation l'))" using unat_succ_word [of "sl_generation l'"] by simp
  with lt counts show ?thesis by (auto simp: advance_generation_def checked_add_def)
qed

lemma service_iteration_counts:
  assumes "service_iteration spec v l = (r, evs)"
  shows "attempts_of evs = [sl_generation l]
    \<and> ((\<forall>l'. r \<noteq> NextGeneration l') \<and> r \<noteq> ServiceExit (Failed (ServiceFailed GenerationOverflow))
       \<or> (\<exists>l' evs'. admit_restart spec v l = (RestartAdmitted, l', evs') \<and> r = advance_generation l'))"
proof (cases rule: service_iteration_shape [of spec v l])
  case (restart err refused)
  obtain a l' evs' where a: "admit_restart spec v l = (a, l', evs')" by (cases "admit_restart spec v l")
  note none = admit_restart_attempts [OF a]
  from a show ?thesis
  proof (cases rule: try_restart_cases [where err = err and refused = refused])
    case (refused exit)
    with none restart assms show ?thesis
      by (auto simp: then_events_def start_events_def stop_with_def leave_silently_def no_overflow_def)
  qed (use a none restart assms in \<open>auto simp: then_events_def start_events_def\<close>)
next
  case cancelled
  with assms no_overflow_body [of "sl_generation l" "se_stop_cause v"] show ?thesis
    by (auto simp: then_events_def start_events_def shut_down_def Let_def no_overflow_def split: option.splits)
qed (use assms in \<open>auto simp: then_events_def start_events_def plain_end_def stop_with_def leave_silently_def no_overflow_def\<close>)

lemma service_iteration_next:
  assumes "service_iteration spec v l = (r, evs')" and "loop_counts l evs"
  shows "case r of NextGeneration l' \<Rightarrow> loop_counts l' (evs @ evs')
    | _ \<Rightarrow> (\<exists>k. attempts_of (evs @ evs') = map of_nat [1..<Suc k]) \<and> r \<noteq> ServiceExit (Failed (ServiceFailed GenerationOverflow))"
proof -
  note counts = service_iteration_counts [OF assms(1)]
  have "1 \<le> unat (sl_generation l)" using assms(2) by (simp add: loop_counts_def)
  then have "map of_nat [1..<unat (sl_generation l)] @ [sl_generation l] = map of_nat [1..<Suc (unat (sl_generation l))]"
    by simp
  then have attempts: "attempts_of (evs @ evs') = map of_nat [1..<Suc (unat (sl_generation l))]"
    using assms(2) counts by (simp add: loop_counts_def)
  from counts consider "\<And>l'. r \<noteq> NextGeneration l'" "r \<noteq> ServiceExit (Failed (ServiceFailed GenerationOverflow))"
    | l2 evs2 where "admit_restart spec v l = (RestartAdmitted, l2, evs2)" "r = advance_generation l2"
    by blast
  then show ?thesis
  proof cases
    case 1
    with attempts show ?thesis by (cases r) (auto simp del: upt_Suc)
  next
    case 2
    from advance_generation_counts [OF 2(1) assms(2)] obtain l3
      where "r = NextGeneration l3" "unat (sl_generation l3) = Suc (unat (sl_generation l))"
        "sl_restart_count l3 = sl_restart_count l2" unfolding 2(2) by blast
    with attempts assms(2) admit_restart_counts [OF 2(1)] show ?thesis by (simp add: loop_counts_def del: upt_Suc)
  qed
qed

text \<open>
  Generations are numbered 1, 2, 3 without gaps or repetitions, and \<open>GenerationOverflow\<close> is never
  returned: the 32-bit count of restarts is always one behind the 64-bit generation and overflows
  first.
\<close>

theorem generations_are_consecutive:
  shows "\<exists>k. attempts_of (snd (run_service spec env n)) = map of_nat [1..<Suc k]
     \<and> fst (run_service spec env n) \<noteq> ServiceExit (Failed (ServiceFailed GenerationOverflow))"
proof -
  obtain r evs where run: "run_service spec env n = (r, evs)" by (cases "run_service spec env n")
  have "case r of NextGeneration l \<Rightarrow> loop_counts l evs
      | _ \<Rightarrow> (\<exists>k. attempts_of evs = map of_nat [1..<Suc k]) \<and> r \<noteq> ServiceExit (Failed (ServiceFailed GenerationOverflow))"
    using run unfolding run_service_def
  proof (induction rule: service_run_induct)
    case start
    then show ?case by (simp add: loop_counts_def service_loop_start_def)
  next
    case (step l' evs m r' evs')
    from service_iteration_next [OF step(2,1)] show ?case .
  qed
  note result = this
  show ?thesis
  proof (cases r)
    case (NextGeneration l)
    with result have "loop_counts l evs" by simp
    then have "attempts_of evs = map of_nat [1..<Suc (unat (sl_restart_count l))]" by (simp add: loop_counts_def)
    with run NextGeneration show ?thesis by auto
  qed (use run result in auto)
qed

section \<open>The shutdown hook\<close>











section \<open>Which ends publish Stopped\<close>

text \<open>The ends that do not publish \<open>Stopped\<close>: refused restarts after a panic of the factory, a lost runtime.\<close>

fun unannounced :: "('t, 'e) task_exit \<Rightarrow> bool" where
  "unannounced (Failed (ServiceFailed (RestartLimitExceeded g None))) = True"
| "unannounced (Failed (ServiceFailed (CounterOverflow code None))) = True"
| "unannounced (ExecutorStopped StopRuntimeUnavailable) = True"
| "unannounced _ = False"

lemma apply_events_append [simp]: "apply_events (evs @ evs') s = apply_events evs' (apply_events evs s)"
  by (simp add: apply_events_def)

lemma apply_events_simps [simp]:
  "apply_events [] s = s" "apply_events (ev # evs) s = apply_events evs (apply_event ev s)"
  by (simp_all add: apply_events_def)

lemma stopped_iteration:
  assumes "service_iteration spec v l = (ServiceExit exit, evs)"
    and "exit \<noteq> Failed (ServiceFailed GenerationOverflow)" and "\<not> unannounced exit"
  shows "\<exists>g hook. ss_status (apply_events evs s) = Stopped g hook"
proof (cases rule: service_iteration_shape [of spec v l])
  case (restart err refused)
  obtain a l' evs' where a: "admit_restart spec v l = (a, l', evs')" by (cases "admit_restart spec v l")
  then show ?thesis
  proof (cases rule: try_restart_cases [where err = err and refused = refused])
    case admitted
    with restart(1) assms show ?thesis by (auto simp: then_events_def advance_generation_def split: option.splits)
  next
    case (refused exit')
    with restart assms show ?thesis
      by (auto simp: then_events_def stop_with_def leave_silently_def set_status_def)
  qed
qed (use assms in \<open>auto simp: then_events_def plain_end_def stop_with_def leave_silently_def shut_down_def
    Let_def set_status_def split: option.splits\<close>)

text \<open>
  Whoever waits for a service that ends learns of it: unless it ends on a refused restart after
  a panic of its factory or because the runtime is lost, the supervisor's last status is \<open>Stopped\<close>, so
  that \<open>wait_ready\<close> returns \<open>StoppedBeforeReady\<close>.
\<close>

theorem stopped_is_published:
  assumes "run_service spec env n = (ServiceExit exit, evs)" and "\<not> unannounced exit"
  shows "wait_ready_poll (ss_status (apply_events evs service_state_new)) = Some (Inl StoppedBeforeReady)"
proof -
  let ?r = "ServiceExit exit"
  have "case ?r of NextGeneration l \<Rightarrow> loop_counts l evs
      | _ \<Rightarrow> (\<forall>exit. ?r = ServiceExit exit \<and> \<not> unannounced exit
        \<longrightarrow> (\<exists>g hook. ss_status (apply_events evs service_state_new) = Stopped g hook))"
    using assms(1) unfolding run_service_def
  proof (induction rule: service_run_induct)
    case start
    then show ?case by (simp add: loop_counts_def service_loop_start_def)
  next
    case (step l' evs m r' evs')
    show ?case
    proof (cases r')
      case (ServiceExit exit')
      with service_iteration_next [OF step(2,1)] have "exit' \<noteq> Failed (ServiceFailed GenerationOverflow)" by auto
      with stopped_iteration [of spec "env m" l' exit' evs'] step(2) ServiceExit show ?thesis by simp
    qed (use service_iteration_next [OF step(2,1)] in auto)
  qed
  with assms(2) show ?thesis by auto
qed

lemma stopped_is_published_witness:
  "\<exists>evs. wait_ready_poll (ss_status (apply_events evs service_state_new)) = Some (Inl StoppedBeforeReady)
     \<and> restarts_of evs = [0]"
proof -
  let ?run = "run_service flaky_spec (failing_env(Suc 0 := failing_env 0)) (Suc (Suc 0))"
  have r: "fst ?run = ServiceExit (Failed (ServiceFailed (RestartLimitExceeded 2 (Some ''lost''))))"
    and evs: "restarts_of (snd ?run) = [0]"
    by (simp_all add: flaky_defs)
  have "?run = (ServiceExit (Failed (ServiceFailed (RestartLimitExceeded 2 (Some ''lost'')))), snd ?run)"
    using r by (metis prod.collapse)
  from stopped_is_published [OF this] evs show ?thesis by auto
qed

text \<open>
  C37. A service whose factory always panics leaves its waiters behind.  Once its restarts are used
  up, the supervisor returns without publishing \<open>Stopped\<close>: the last status is \<open>Starting\<close> or
  \<open>Restarting\<close>, on which \<open>wait_ready\<close> keeps waiting, and nothing publishes another one.
\<close>

definition always_panics :: "(nat \<Rightarrow> ('t, 'e) service_env) \<Rightarrow> bool" where
  "always_panics env \<longleftrightarrow> (\<forall>m. se_reports (env m) = [] \<and> (\<exists>payload. se_factory_panic (env m) = Some payload
     \<and> \<not> is_timer_unavailable_message (panic_message payload)))"

lemma panicking_iteration:
  assumes "service_iteration spec v l = (r, evs)" and "trigger_panic (sv_restart_trigger spec)"
    and "se_factory_panic v = Some payload" and "\<not> is_timer_unavailable_message (panic_message payload)"
    and "se_reports v = []"
  shows "wait_ready_poll (ss_status (apply_events evs s)) = None"
proof -
  obtain a l' evs' where a: "admit_restart spec v l = (a, l', evs')" by (cases "admit_restart spec v l")
  have evs: "evs = start_events v l @ evs'"
    using assms a by (cases a) (auto simp: service_iteration_def factory_panicked_def then_events_def Let_def
        try_restart_def leave_silently_def start_events_def)
  have "wait_ready_poll (ss_status (apply_events (start_events v l) s)) = None" for s
    using assms(5) by (simp add: start_events_def health_reports_def set_status_def)
  moreover have "wait_ready_poll (ss_status s) = None \<Longrightarrow> wait_ready_poll (ss_status (apply_events evs' s)) = None" for s
    using a by (auto simp: admit_restart_def set_status_def split: if_splits option.splits sum.splits)
  ultimately show ?thesis unfolding evs by simp
qed

theorem refused_factory_restart_leaves_waiters:
  assumes "run_service spec env n = (r, evs)" and "always_panics env" and "trigger_panic (sv_restart_trigger spec)"
  shows "wait_ready_poll (ss_status (apply_events evs service_state_new)) = None"
proof -
  have "case r of NextGeneration l \<Rightarrow> wait_ready_poll (ss_status (apply_events evs service_state_new)) = None
      | _ \<Rightarrow> wait_ready_poll (ss_status (apply_events evs service_state_new)) = None"
    using assms(1) unfolding run_service_def
  proof (induction rule: service_run_induct)
    case (step l' evs m r' evs')
    from assms(2) obtain payload where "se_factory_panic (env m) = Some payload" "se_reports (env m) = []"
      "\<not> is_timer_unavailable_message (panic_message payload)" unfolding always_panics_def by blast
    with panicking_iteration [OF step(2) assms(3)] show ?case by (simp split: service_end.splits)
  qed (simp add: service_state_new_def)
  then show ?thesis by (cases r) auto
qed

definition panicking_service_env :: "nat \<Rightarrow> (unit, string) service_env" where
  "panicking_service_env n = (failing_env 0)\<lparr>se_factory_panic := Some OtherPayload, se_reports := []\<rparr>"

lemma refused_factory_restart_leaves_waiters_witness:
  "\<exists>evs. run_service flaky_spec panicking_service_env (Suc (Suc 0))
       = (ServiceExit (Failed (ServiceFailed (RestartLimitExceeded 2 None))), evs)
     \<and> wait_ready_poll (ss_status (apply_events evs service_state_new)) = None"
proof -
  have panics: "always_panics panicking_service_env"
    by (simp add: always_panics_def panicking_service_env_def failing_env_def is_timer_unavailable_message_def)
  let ?run = "run_service flaky_spec panicking_service_env (Suc (Suc 0))"
  have "fst ?run = ServiceExit (Failed (ServiceFailed (RestartLimitExceeded 2 None)))"
    by (simp add: flaky_defs panicking_service_env_def factory_panicked_def leave_silently_def
      is_timer_unavailable_message_def)
  then have run: "?run = (ServiceExit (Failed (ServiceFailed (RestartLimitExceeded 2 None))), snd ?run)"
    by (metis prod.collapse)
  from refused_factory_restart_leaves_waiters [OF run panics] run show ?thesis
    by (auto simp: flaky_spec_def service_restart_def)
qed

end
