(* ===== verification/BB_Slot.thy ===== *)
theory BB_Slot
  imports BB_Execution BB_Lane
begin

text \<open>
  Task slots (\<open>slot.rs\<close>): the slot's state, the decision of \<open>replace\<close> under its lock, and the supervisor
  of an accepted replacement cut at its lock regions and waits, together with the monitor that
  clears the current execution.  What the lane answers to a submission and when executions end is an
  input of the steps.
\<close>

section \<open>Keys, policies, outcomes\<close>

definition slot_key_max :: nat where "slot_key_max = 256"

definition slot_key_new :: "string \<Rightarrow> (nat \<times> nat) + string" where
  "slot_key_new name = (if slot_key_max < length name then Inl (length name, slot_key_max) else Inr name)"

datatype (plugins only: size) replace_policy = StrictSingleInstance | AvailabilityFirst

datatype (plugins only: size) replace_error =
    SlotIsClosed
  | StaleRevision u64 u64
  | RevisionConflict u64
  | RevisionInProgress u64
  | ReplaceWouldJoin execution_id
  | ReplaceSequenceExhausted
  | ReplaceLockPoisoned

text \<open>A handle or a control stands as the identity of its execution.\<close>

datatype (plugins only: size) replace_outcome =
    Replaced u64 execution_id
  | Existing u64 execution_id
  | Superseded u64
  | AdmissionFailed u64 spawn_error

section \<open>State\<close>

record slot_state =
  slot_revision :: "u64 option"
  slot_spec :: "task_spec_id option"
  slot_transaction :: u64
  slot_current :: "execution_id option"
  slot_last :: "execution_id option"
  slot_closed :: bool

definition slot_new :: slot_state where
  "slot_new = \<lparr>slot_revision = None, slot_spec = None, slot_transaction = 0, slot_current = None,
     slot_last = None, slot_closed = False\<rparr>"

record slot_snapshot =
  sn_revision :: "u64 option"
  sn_current :: "execution_id option"
  sn_transaction :: u64
  sn_closed :: bool

definition slot_snapshot_of :: "slot_state \<Rightarrow> slot_snapshot" where
  "slot_snapshot_of s = \<lparr>sn_revision = slot_revision s, sn_current = slot_current s,
     sn_transaction = slot_transaction s, sn_closed = slot_closed s\<rparr>"

section \<open>Operations under the slot's lock\<close>

text \<open>\<open>KeepExisting\<close> answers at once; \<open>Accepted\<close> starts a supervisor with its transaction and the previous execution.\<close>

datatype (plugins only: size) replace_decision =
    KeepExisting execution_id
  | Accepted u64 "execution_id option"

text \<open>\<open>joins\<close> says whether waiting for an execution would wait for the caller itself.\<close>

definition joining_current :: "replace_policy \<Rightarrow> (execution_id \<Rightarrow> bool) \<Rightarrow> slot_state \<Rightarrow> execution_id option" where
  "joining_current policy joins s =
     (case slot_current s of
        Some i \<Rightarrow> if policy = StrictSingleInstance \<and> joins i then Some i else None
      | None \<Rightarrow> None)"

definition slot_accept :: "u64 \<Rightarrow> task_spec_id \<Rightarrow> slot_state \<Rightarrow> (replace_error + replace_decision) \<times> slot_state" where
  "slot_accept revision spec s =
     (case checked_add (slot_transaction s) 1 of
        None \<Rightarrow> (Inl ReplaceSequenceExhausted, s)
      | Some transaction \<Rightarrow>
          (Inr (Accepted transaction (slot_current s)),
           s\<lparr>slot_transaction := transaction, slot_revision := Some revision, slot_spec := Some spec\<rparr>))"

definition slot_replace ::
  "(execution_id \<Rightarrow> bool) \<Rightarrow> u64 \<Rightarrow> task_spec_id \<Rightarrow> replace_policy \<Rightarrow> slot_state
   \<Rightarrow> (replace_error + replace_decision) \<times> slot_state" where
  "slot_replace joins revision spec policy s =
     (if slot_closed s then (Inl SlotIsClosed, s)
      else case joining_current policy joins s of
        Some i \<Rightarrow> (Inl (ReplaceWouldJoin i), s)
      | None \<Rightarrow>
          (case slot_revision s of
             Some current \<Rightarrow>
               if revision < current then (Inl (StaleRevision current revision), s)
               else if revision = current then
                 (if slot_spec s \<noteq> Some spec then (Inl (RevisionConflict revision), s)
                  else case (case slot_current s of Some i \<Rightarrow> Some i | None \<Rightarrow> slot_last s) of
                    None \<Rightarrow> (Inl (RevisionInProgress revision), s)
                  | Some control \<Rightarrow> (Inr (KeepExisting control), s))
               else slot_accept revision spec s
           | None \<Rightarrow> slot_accept revision spec s))"

text \<open>The executions to cancel afterwards are returned.\<close>

definition slot_cancel_current :: "slot_state \<Rightarrow> execution_id list" where
  "slot_cancel_current s = (case slot_current s of None \<Rightarrow> [] | Some i \<Rightarrow> [i])"

definition slot_close :: "slot_state \<Rightarrow> execution_id list \<times> slot_state" where
  "slot_close s =
     (slot_cancel_current s,
      s\<lparr>slot_closed := True,
        slot_transaction := (case checked_add (slot_transaction s) 1 of Some t \<Rightarrow> t | None \<Rightarrow> slot_transaction s),
        slot_current := None, slot_last := None\<rparr>)"

definition slot_superseded :: "u64 \<Rightarrow> u64 \<Rightarrow> slot_state \<Rightarrow> bool" where
  "slot_superseded transaction revision s \<longleftrightarrow>
     slot_closed s \<or> slot_transaction s \<noteq> transaction \<or> slot_revision s \<noteq> Some revision"

text \<open>The monitor's update once its execution is terminal.\<close>

definition slot_monitor :: "u64 \<Rightarrow> execution_id \<Rightarrow> slot_state \<Rightarrow> slot_state" where
  "slot_monitor transaction i s =
     (if slot_transaction s = transaction \<and> slot_current s = Some i then s\<lparr>slot_current := None\<rparr> else s)"

section \<open>The supervisor\<close>

datatype (plugins only: size) replace_pc =
    ReplaceStart
  | ReplaceWaiting execution_id
  | ReplaceTrying
  | ReplaceAdmitted execution_id
  | ReplaceInstalled execution_id
  | ReplaceDone replace_outcome

record replacement =
  re_transaction :: u64
  re_revision :: u64
  re_policy :: replace_policy
  re_previous :: "execution_id option"
  re_pc :: replace_pc

text \<open>
  The slot with its supervisors and monitors.  \<open>sy_spawned\<close>, \<open>sy_installed\<close> and \<open>sy_cancelled\<close> record
  which executions the lane admitted, which became current and which were cancelled; \<open>sy_ended\<close>
  are those that are terminal.
\<close>

record slot_sys =
  sy_slot :: slot_state
  sy_replacements :: "replacement list"
  sy_monitors :: "(u64 \<times> execution_id) list"
  sy_spawned :: "execution_id list"
  sy_installed :: "execution_id list"
  sy_cancelled :: "execution_id list"
  sy_ended :: "execution_id list"

definition slot_sys_new :: slot_sys where
  "slot_sys_new = \<lparr>sy_slot = slot_new, sy_replacements = [], sy_monitors = [], sy_spawned = [],
     sy_installed = [], sy_cancelled = [], sy_ended = []\<rparr>"

definition set_pc :: "nat \<Rightarrow> replace_pc \<Rightarrow> slot_sys \<Rightarrow> slot_sys" where
  "set_pc n pc s = s\<lparr>sy_replacements := (sy_replacements s)[n := (sy_replacements s ! n)\<lparr>re_pc := pc\<rparr>]\<rparr>"

definition cancel_execs :: "execution_id list \<Rightarrow> slot_sys \<Rightarrow> slot_sys" where
  "cancel_execs is s = s\<lparr>sy_cancelled := is @ sy_cancelled s\<rparr>"

text \<open>Before the loop: a strict replacement cancels the previous execution and waits for it.\<close>

definition replace_begin :: "nat \<Rightarrow> slot_sys \<Rightarrow> slot_sys" where
  "replace_begin n s =
     (let r = sy_replacements s ! n in
      case (if re_policy r = StrictSingleInstance then re_previous r else None) of
        Some p \<Rightarrow> set_pc n (ReplaceWaiting p) (cancel_execs [p] s)
      | None \<Rightarrow> set_pc n ReplaceTrying s)"

text \<open>One round of the admission loop under the slot's lock; a full queue waits for capacity and tries again.\<close>

definition replace_try :: "nat \<Rightarrow> (spawn_error + execution_id) \<Rightarrow> slot_sys \<Rightarrow> slot_sys" where
  "replace_try n answer s =
     (let r = sy_replacements s ! n in
      if slot_superseded (re_transaction r) (re_revision r) (sy_slot s)
      then set_pc n (ReplaceDone (Superseded (re_revision r))) s
      else case answer of
        Inr i \<Rightarrow> set_pc n (ReplaceAdmitted i) (s\<lparr>sy_spawned := i # sy_spawned s\<rparr>)
      | Inl SpQueueFull \<Rightarrow> s
      | Inl error \<Rightarrow> set_pc n (ReplaceDone (AdmissionFailed (re_revision r) error)) s)"

definition replace_install :: "nat \<Rightarrow> execution_id \<Rightarrow> slot_sys \<Rightarrow> slot_sys" where
  "replace_install n i s =
     (let r = sy_replacements s ! n in
      if slot_superseded (re_transaction r) (re_revision r) (sy_slot s)
      then set_pc n (ReplaceDone (Superseded (re_revision r))) (cancel_execs [i] s)
      else set_pc n (ReplaceInstalled i)
        (s\<lparr>sy_slot := (sy_slot s)\<lparr>slot_current := Some i, slot_last := Some i\<rparr>, sy_installed := i # sy_installed s\<rparr>))"

text \<open>After the installation: the previous execution is cancelled now, and the monitor starts.\<close>

definition replace_finish :: "nat \<Rightarrow> execution_id \<Rightarrow> slot_sys \<Rightarrow> slot_sys" where
  "replace_finish n i s =
     (let r = sy_replacements s ! n;
          s' = (case (if re_policy r = AvailabilityFirst then re_previous r else None) of
                  Some p \<Rightarrow> cancel_execs [p] s | None \<Rightarrow> s) in
      set_pc n (ReplaceDone (Replaced (re_revision r) i)) (s'\<lparr>sy_monitors := (re_transaction r, i) # sy_monitors s\<rparr>))"

definition supervise :: "nat \<Rightarrow> (spawn_error + execution_id) \<Rightarrow> slot_sys \<Rightarrow> slot_sys option" where
  "supervise n answer s =
     (if n < length (sy_replacements s) then
        case re_pc (sy_replacements s ! n) of
          ReplaceStart \<Rightarrow> Some (replace_begin n s)
        | ReplaceWaiting p \<Rightarrow> if p \<in> set (sy_ended s) then Some (set_pc n ReplaceTrying s) else None
        | ReplaceTrying \<Rightarrow>
            (case answer of
               Inr i \<Rightarrow> if i \<in> set (sy_spawned s) then None else Some (replace_try n answer s)
             | Inl error \<Rightarrow> Some (replace_try n answer s))
        | ReplaceAdmitted i \<Rightarrow> Some (replace_install n i s)
        | ReplaceInstalled i \<Rightarrow> Some (replace_finish n i s)
        | ReplaceDone outcome \<Rightarrow> None
      else None)"

section \<open>Steps\<close>

text \<open>
  What can happen next: a call of the slot's operations, a step of the n-th supervisor (with what
  the lane answers if it asks), a step of a monitor whose execution ended, the end of an execution.
  A fresh execution has an identity of its own.
\<close>

datatype (plugins only: size) slot_op =
    OpReplace "execution_id list option" u64 task_spec_id replace_policy
  | OpCancelCurrent
  | OpClose
  | OpSupervise nat "spawn_error + execution_id"
  | OpMonitor u64 execution_id
  | OpEnd execution_id

definition start_replacement ::
  "(execution_id \<Rightarrow> bool) \<Rightarrow> u64 \<Rightarrow> task_spec_id \<Rightarrow> replace_policy \<Rightarrow> slot_sys \<Rightarrow> slot_sys" where
  "start_replacement joins revision spec policy s =
     (case slot_replace joins revision spec policy (sy_slot s) of
        (Inr (Accepted transaction previous), st) \<Rightarrow>
          s\<lparr>sy_slot := st, sy_replacements := sy_replacements s @
             [\<lparr>re_transaction = transaction, re_revision = revision, re_policy = policy,
               re_previous = previous, re_pc = ReplaceStart\<rparr>]\<rparr>
      | (_, st) \<Rightarrow> s)"

fun slot_exec :: "slot_op \<Rightarrow> slot_sys \<Rightarrow> slot_sys option" where
  "slot_exec (OpReplace path revision spec policy) s =
     Some (start_replacement (would_join path) revision spec policy s)"
| "slot_exec OpCancelCurrent s = Some (cancel_execs (slot_cancel_current (sy_slot s)) s)"
| "slot_exec OpClose s =
     (case slot_close (sy_slot s) of (is, st) \<Rightarrow> Some (cancel_execs is (s\<lparr>sy_slot := st\<rparr>)))"
| "slot_exec (OpSupervise n answer) s = supervise n answer s"
| "slot_exec (OpMonitor transaction i) s =
     (if (transaction, i) \<in> set (sy_monitors s) \<and> i \<in> set (sy_ended s)
      then Some (s\<lparr>sy_slot := slot_monitor transaction i (sy_slot s),
                   sy_monitors := removeAll (transaction, i) (sy_monitors s)\<rparr>)
      else None)"
| "slot_exec (OpEnd i) s =
     (if i \<in> set (sy_spawned s) then Some (s\<lparr>sy_ended := i # sy_ended s\<rparr>) else None)"

definition slot_init :: "slot_sys \<Rightarrow> bool" where "slot_init s \<longleftrightarrow> s = slot_sys_new"

definition slot_step :: "slot_sys \<Rightarrow> slot_sys \<Rightarrow> bool" where
  "slot_step s t \<longleftrightarrow> (\<exists>op. slot_exec op s = Some t)"

text \<open>A run of operations, for concrete histories.\<close>

fun slot_run :: "slot_op list \<Rightarrow> slot_sys \<Rightarrow> slot_sys option" where
  "slot_run [] s = Some s"
| "slot_run (op # ops) s = (case slot_exec op s of None \<Rightarrow> None | Some t \<Rightarrow> slot_run ops t)"

end
