(* ===== verification/BB_Slot_Props.thy ===== *)
theory BB_Slot_Props
  imports BB_Slot
begin

text \<open>
  What holds of task slots in every interleaving of callers, supervisors, monitors and executions:
  only the newest accepted replacement is installed, strict replacements are installed alone, nothing
  that the slot started is forgotten; and two histories in which the slot does not do what it
  promises.
\<close>

section \<open>The steps\<close>

abbreviation nth_re :: "slot_sys \<Rightarrow> nat \<Rightarrow> replacement" where
  "nth_re s n \<equiv> sy_replacements s ! n"

abbreviation re_count :: "slot_sys \<Rightarrow> nat" where
  "re_count s \<equiv> length (sy_replacements s)"

definition stale :: "slot_sys \<Rightarrow> nat \<Rightarrow> bool" where
  "stale s n \<longleftrightarrow> slot_superseded (re_transaction (nth_re s n)) (re_revision (nth_re s n)) (sy_slot s)"

lemma set_pc_simps [simp]:
  "sy_slot (set_pc n pc s) = sy_slot s" "sy_monitors (set_pc n pc s) = sy_monitors s"
  "sy_spawned (set_pc n pc s) = sy_spawned s" "sy_installed (set_pc n pc s) = sy_installed s"
  "sy_cancelled (set_pc n pc s) = sy_cancelled s" "sy_ended (set_pc n pc s) = sy_ended s"
  "re_count (set_pc n pc s) = re_count s"
  by (simp_all add: set_pc_def)

lemma nth_set_pc [simp]:
  "n < re_count s \<Longrightarrow> m < re_count s \<Longrightarrow>
     nth_re (set_pc n pc s) m = (if m = n then (nth_re s n)\<lparr>re_pc := pc\<rparr> else nth_re s m)"
  by (simp add: set_pc_def nth_list_update)

lemma cancel_execs_simps [simp]:
  "sy_slot (cancel_execs is s) = sy_slot s" "sy_monitors (cancel_execs is s) = sy_monitors s"
  "sy_spawned (cancel_execs is s) = sy_spawned s" "sy_installed (cancel_execs is s) = sy_installed s"
  "sy_cancelled (cancel_execs is s) = is @ sy_cancelled s" "sy_ended (cancel_execs is s) = sy_ended s"
  "sy_replacements (cancel_execs is s) = sy_replacements s"
  by (simp_all add: cancel_execs_def)

lemma replace_accepted:
  assumes "slot_replace joins revision spec policy st = (Inr (Accepted transaction previous), st')"
  shows "\<not> slot_closed st \<and> checked_add (slot_transaction st) 1 = Some transaction \<and> previous = slot_current st
    \<and> (\<forall>current. slot_revision st = Some current \<longrightarrow> current < revision)
    \<and> st' = st\<lparr>slot_transaction := transaction, slot_revision := Some revision, slot_spec := Some spec\<rparr>"
  using assms by (auto simp: slot_replace_def slot_accept_def split: if_splits option.splits)

lemma slot_exec_cases:
  assumes "slot_exec op s = Some t"
  obtains (same) "t = s"
  | (accept) transaction revision spec policy where "\<not> slot_closed (sy_slot s)"
      "checked_add (slot_transaction (sy_slot s)) 1 = Some transaction"
      "\<forall>current. slot_revision (sy_slot s) = Some current \<longrightarrow> current < revision"
      "t = s\<lparr>sy_slot := (sy_slot s)\<lparr>slot_transaction := transaction, slot_revision := Some revision, slot_spec := Some spec\<rparr>,
             sy_replacements := sy_replacements s @ [\<lparr>re_transaction = transaction, re_revision = revision,
               re_policy = policy, re_previous = slot_current (sy_slot s), re_pc = ReplaceStart\<rparr>]\<rparr>"
  | (cancelled) "t = cancel_execs (slot_cancel_current (sy_slot s)) s"
  | (close) "t = cancel_execs (slot_cancel_current (sy_slot s)) (s\<lparr>sy_slot := snd (slot_close (sy_slot s))\<rparr>)"
  | (wait_begin) n p where "n < re_count s" "re_pc (nth_re s n) = ReplaceStart"
      "re_policy (nth_re s n) = StrictSingleInstance" "re_previous (nth_re s n) = Some p"
      "t = set_pc n (ReplaceWaiting p) (cancel_execs [p] s)"
  | (no_wait) n where "n < re_count s" "re_pc (nth_re s n) = ReplaceStart"
      "re_policy (nth_re s n) = StrictSingleInstance \<longrightarrow> re_previous (nth_re s n) = None" "t = set_pc n ReplaceTrying s"
  | (waited) n p where "n < re_count s" "re_pc (nth_re s n) = ReplaceWaiting p" "p \<in> set (sy_ended s)"
      "t = set_pc n ReplaceTrying s"
  | (refused) n outcome where "n < re_count s" "re_pc (nth_re s n) = ReplaceTrying" "\<And>r i. outcome \<noteq> Replaced r i" "t = set_pc n (ReplaceDone outcome) s"
  | (admitted) n i where "n < re_count s" "re_pc (nth_re s n) = ReplaceTrying" "\<not> stale s n" "i \<notin> set (sy_spawned s)"
      "t = set_pc n (ReplaceAdmitted i) (s\<lparr>sy_spawned := i # sy_spawned s\<rparr>)"
  | (dropped) n i where "n < re_count s" "re_pc (nth_re s n) = ReplaceAdmitted i" "stale s n"
      "t = set_pc n (ReplaceDone (Superseded (re_revision (nth_re s n)))) (cancel_execs [i] s)"
  | (installed) n i where "n < re_count s" "re_pc (nth_re s n) = ReplaceAdmitted i" "\<not> stale s n"
      "t = set_pc n (ReplaceInstalled i)
        (s\<lparr>sy_slot := (sy_slot s)\<lparr>slot_current := Some i, slot_last := Some i\<rparr>, sy_installed := i # sy_installed s\<rparr>)"
  | (finished) n i "is" where "n < re_count s" "re_pc (nth_re s n) = ReplaceInstalled i"
      "is = (case (if re_policy (nth_re s n) = AvailabilityFirst then re_previous (nth_re s n) else None) of
         Some p \<Rightarrow> [p] | None \<Rightarrow> [])"
      "t = set_pc n (ReplaceDone (Replaced (re_revision (nth_re s n)) i))
        ((cancel_execs is s)\<lparr>sy_monitors := (re_transaction (nth_re s n), i) # sy_monitors s\<rparr>)"
  | (monitored) transaction i where "(transaction, i) \<in> set (sy_monitors s)" "i \<in> set (sy_ended s)"
      "t = s\<lparr>sy_slot := slot_monitor transaction i (sy_slot s), sy_monitors := removeAll (transaction, i) (sy_monitors s)\<rparr>"
  | (ended) i where "i \<in> set (sy_spawned s)" "t = s\<lparr>sy_ended := i # sy_ended s\<rparr>"
proof (cases op)
  case (OpReplace path revision spec policy)
  obtain d st where d: "slot_replace (would_join path) revision spec policy (sy_slot s) = (d, st)"
    by (cases "slot_replace (would_join path) revision spec policy (sy_slot s)")
  show thesis
  proof (cases "\<exists>transaction previous. d = Inr (Accepted transaction previous)")
    case True
    then obtain transaction previous where acc: "d = Inr (Accepted transaction previous)" by blast
    from replace_accepted [OF d [unfolded acc]] show thesis
      using assms d acc by (intro accept [where transaction = transaction and revision = revision and spec = spec and policy = policy]) (auto simp: OpReplace start_replacement_def)
  next
    case False
    then show thesis using assms d same
      by (auto simp: OpReplace start_replacement_def split: sum.splits replace_decision.splits)
  qed
next
  case (OpSupervise n answer)
  let ?r = "nth_re s n"
  have n: "n < re_count s" using assms by (auto simp: OpSupervise supervise_def split: if_splits)
  show thesis
  proof (cases "re_pc ?r")
    case ReplaceStart
    show thesis
    proof (cases "if re_policy ?r = StrictSingleInstance then re_previous ?r else None")
      case None
      with ReplaceStart n assms show thesis
        by (intro no_wait [of n]) (auto simp: OpSupervise supervise_def replace_begin_def Let_def split: if_splits)
    next
      case (Some p)
      with ReplaceStart n assms show thesis
        by (intro wait_begin [of n p]) (auto simp: OpSupervise supervise_def replace_begin_def Let_def split: if_splits)
    qed
  next
    case (ReplaceWaiting p)
    with n assms show thesis by (intro waited [of n p]) (auto simp: OpSupervise supervise_def split: if_splits)
  next
    case ReplaceTrying
    then have t: "t = replace_try n answer s" "answer = Inr i \<Longrightarrow> i \<notin> set (sy_spawned s)" for i
      using n assms by (auto simp: OpSupervise supervise_def split: sum.splits if_splits)
    show thesis
    proof (cases "stale s n")
      case True
      with t n ReplaceTrying show thesis by (intro refused [of n]) (auto simp: replace_try_def stale_def Let_def)
    next
      case fresh: False
      show thesis
      proof (cases answer)
        case (Inr i)
        with fresh t n ReplaceTrying show thesis
          by (intro admitted [of n i]) (auto simp: replace_try_def stale_def Let_def)
      next
        case (Inl error)
        show thesis
        proof (cases "error = SpQueueFull")
          case True
          with Inl fresh t show thesis by (intro same) (auto simp: replace_try_def stale_def Let_def)
        next
          case False
          with Inl fresh t n ReplaceTrying show thesis
            by (intro refused [where n = n and outcome = "AdmissionFailed (re_revision ?r) error"])
              (cases error; auto simp: replace_try_def stale_def Let_def)+
        qed
      qed
    qed
  next
    case (ReplaceAdmitted i)
    with n assms have t: "t = replace_install n i s" by (simp add: OpSupervise supervise_def)
    show thesis
    proof (cases "stale s n")
      case True
      with t n ReplaceAdmitted show thesis by (intro dropped [of n i]) (auto simp: replace_install_def stale_def Let_def)
    next
      case False
      with t n ReplaceAdmitted show thesis by (intro installed [of n i]) (auto simp: replace_install_def stale_def Let_def)
    qed
  next
    case (ReplaceInstalled i)
    with n assms have t: "t = replace_finish n i s" by (simp add: OpSupervise supervise_def)
    with n ReplaceInstalled show thesis
      by (intro finished [where n = n and i = i])
        (auto simp: replace_finish_def Let_def cancel_execs_def split: option.splits if_splits)
  next
    case (ReplaceDone outcome)
    with n assms show thesis by (simp add: OpSupervise supervise_def)
  qed
next
  case OpClose
  with assms show thesis by (intro close) (auto simp: slot_close_def)
next
  case (OpMonitor transaction i)
  with assms show thesis by (intro monitored [of transaction i]) (auto split: if_splits)
next
  case (OpEnd i)
  with assms show thesis by (intro ended [of i]) (auto split: if_splits)
qed (use assms cancelled in auto)

section \<open>The order of transactions\<close>

definition ordered_inv :: "slot_sys \<Rightarrow> bool" where
  "ordered_inv s \<longleftrightarrow>
     (\<forall>m n. m < n \<and> n < re_count s \<longrightarrow> re_transaction (nth_re s m) < re_transaction (nth_re s n)
        \<and> re_revision (nth_re s m) < re_revision (nth_re s n))
   \<and> (\<forall>n < re_count s. re_transaction (nth_re s n) \<le> slot_transaction (sy_slot s)
        \<and> (\<exists>current. slot_revision (sy_slot s) = Some current \<and> re_revision (nth_re s n) \<le> current))"

lemma checked_succ_less: "checked_add (a :: u64) 1 = Some b \<Longrightarrow> a < b"
  using unat_succ_word [of a] by (auto simp: checked_add_def word_less_nat_alt split: if_splits)

lemma ordered_cong:
  assumes "ordered_inv s" and "re_count t = re_count s"
    and "\<And>n. n < re_count s \<Longrightarrow> re_transaction (nth_re t n) = re_transaction (nth_re s n)
      \<and> re_revision (nth_re t n) = re_revision (nth_re s n)"
    and "slot_transaction (sy_slot s) \<le> slot_transaction (sy_slot t)" and "slot_revision (sy_slot t) = slot_revision (sy_slot s)"
  shows "ordered_inv t"
  unfolding ordered_inv_def
proof (intro conjI allI impI; (elim conjE)?)
  fix m n assume "m < n" "n < re_count t"
  with assms(1-3) show "re_transaction (nth_re t m) < re_transaction (nth_re t n)"
    "re_revision (nth_re t m) < re_revision (nth_re t n)" by (simp_all add: ordered_inv_def)
next
  fix n assume n: "n < re_count t"
  with assms(1,2) have "re_transaction (nth_re s n) \<le> slot_transaction (sy_slot s)" by (simp add: ordered_inv_def)
  with assms(2-4) n show "re_transaction (nth_re t n) \<le> slot_transaction (sy_slot t)" by (metis order_trans)
  show "\<exists>current. slot_revision (sy_slot t) = Some current \<and> re_revision (nth_re t n) \<le> current"
    using assms(1-3,5) n by (simp add: ordered_inv_def)
qed

lemma ordered_step:
  assumes "ordered_inv s" and "slot_exec op s = Some t"
  shows "ordered_inv t"
  using assms(2)
proof (cases rule: slot_exec_cases)
  case (accept transaction revision spec policy)
  note less = checked_succ_less [OF accept(2)]
  have t: "re_count t = Suc (re_count s)" "slot_transaction (sy_slot t) = transaction" "slot_revision (sy_slot t) = Some revision"
    "\<And>n. n < re_count s \<Longrightarrow> nth_re t n = nth_re s n" "re_transaction (nth_re t (re_count s)) = transaction"
    "re_revision (nth_re t (re_count s)) = revision"
    by (simp_all add: accept(4) nth_append)
  have old: "re_transaction (nth_re s n) < transaction" "re_revision (nth_re s n) < revision" if "n < re_count s" for n
    using assms(1) that less accept(3) unfolding ordered_inv_def by (meson le_less_trans, meson le_less_trans)
  show ?thesis unfolding ordered_inv_def
  proof (intro conjI allI impI; (elim conjE)?)
    fix m n assume mn: "m < n" "n < re_count t"
    then have "m < re_count s" by (simp add: t)
    with mn assms(1) old t show "re_transaction (nth_re t m) < re_transaction (nth_re t n)"
      "re_revision (nth_re t m) < re_revision (nth_re t n)"
      by (cases "n = re_count s"; simp add: ordered_inv_def)+
  next
    fix n assume "n < re_count t"
    with old t show "re_transaction (nth_re t n) \<le> slot_transaction (sy_slot t)"
      "\<exists>current. slot_revision (sy_slot t) = Some current \<and> re_revision (nth_re t n) \<le> current"
      by (cases "n = re_count s"; auto simp: less_imp_le)+
  qed
next
  case close
  have "slot_transaction (sy_slot s) \<le> slot_transaction (snd (slot_close (sy_slot s)))"
    by (auto simp: slot_close_def less_imp_le checked_succ_less split: option.splits)
  then show ?thesis by (intro ordered_cong [OF assms(1)]) (simp_all add: close, simp add: slot_close_def)
qed (rule ordered_cong [OF assms(1)]; simp add: slot_monitor_def)+

lemma ordered_distinct:
  assumes "ordered_inv s" and "m < re_count s" and "n < re_count s" and "re_transaction (nth_re s m) = re_transaction (nth_re s n)"
  shows "m = n"
  using assms unfolding ordered_inv_def by (metis less_irrefl linorder_neqE_nat)

section \<open>The previous execution\<close>

text \<open>
  A supervisor that is still the newest finds the execution it was given as the current one; a
  strict one that is past its wait has seen it end.
\<close>

definition before_install :: "replace_pc \<Rightarrow> bool" where
  "before_install pc = (case pc of ReplaceInstalled i \<Rightarrow> False
     | ReplaceDone outcome \<Rightarrow> (case outcome of AdmissionFailed r error \<Rightarrow> True | _ \<Rightarrow> False) | _ \<Rightarrow> True)"

definition past_wait :: "replace_pc \<Rightarrow> bool" where
  "past_wait pc = (case pc of ReplaceStart \<Rightarrow> False | ReplaceWaiting p \<Rightarrow> False | _ \<Rightarrow> True)"

definition is_replaced :: "replace_pc \<Rightarrow> bool" where
  "is_replaced pc = (case pc of ReplaceDone (Replaced r i) \<Rightarrow> True | _ \<Rightarrow> False)"

definition is_done :: "replace_pc \<Rightarrow> bool" where
  "is_done pc = (case pc of ReplaceDone outcome \<Rightarrow> True | _ \<Rightarrow> False)"

lemma pc_simps [simp]:
  "before_install ReplaceStart" "before_install (ReplaceWaiting p)" "before_install ReplaceTrying"
  "before_install (ReplaceAdmitted i)" "\<not> before_install (ReplaceInstalled i)" "\<not> before_install (ReplaceDone (Superseded r))"
  "\<not> before_install (ReplaceDone (Replaced r i))" "before_install (ReplaceDone (AdmissionFailed r error))"
  "is_replaced (ReplaceDone (Replaced r i))"
  "\<not> past_wait ReplaceStart" "\<not> past_wait (ReplaceWaiting p)" "past_wait ReplaceTrying" "past_wait (ReplaceAdmitted i)"
  "past_wait (ReplaceInstalled i)" "past_wait (ReplaceDone outcome)"
  "is_done (ReplaceDone outcome)" "\<not> is_done ReplaceStart" "\<not> is_done (ReplaceWaiting p)" "\<not> is_done ReplaceTrying"
  "\<not> is_done (ReplaceAdmitted i)" "\<not> is_done (ReplaceInstalled i)"
  by (simp_all add: before_install_def past_wait_def is_replaced_def is_done_def)

lemma replaced_done: "is_replaced pc \<Longrightarrow> is_done pc \<and> \<not> before_install pc"
  by (auto simp: is_replaced_def is_done_def before_install_def split: replace_pc.splits replace_outcome.splits)

definition waiting_inv :: "slot_sys \<Rightarrow> bool" where
  "waiting_inv s \<longleftrightarrow> (\<forall>n < re_count s. \<forall>p. re_pc (nth_re s n) = ReplaceWaiting p \<longrightarrow> re_previous (nth_re s n) = Some p)"

definition waited_inv :: "slot_sys \<Rightarrow> bool" where
  "waited_inv s \<longleftrightarrow> (\<forall>n < re_count s. \<forall>p. past_wait (re_pc (nth_re s n)) \<and> re_policy (nth_re s n) = StrictSingleInstance
     \<and> re_previous (nth_re s n) = Some p \<longrightarrow> p \<in> set (sy_ended s))"

definition monitor_inv :: "slot_sys \<Rightarrow> bool" where
  "monitor_inv s \<longleftrightarrow> (\<forall>transaction i. (transaction, i) \<in> set (sy_monitors s) \<longrightarrow>
     (\<exists>n < re_count s. re_transaction (nth_re s n) = transaction \<and> is_replaced (re_pc (nth_re s n))))"

definition current_inv :: "slot_sys \<Rightarrow> bool" where
  "current_inv s \<longleftrightarrow> (\<forall>n < re_count s. before_install (re_pc (nth_re s n)) \<and> \<not> stale s n
     \<longrightarrow> slot_current (sy_slot s) = re_previous (nth_re s n))"

lemma stale_set_pc [simp]: "n < re_count s \<Longrightarrow> m < re_count s \<Longrightarrow> stale (set_pc n pc s) m = stale s m"
  by (simp add: stale_def)

lemma stale_cong: "sy_replacements t = sy_replacements s \<Longrightarrow> sy_slot t = sy_slot s \<Longrightarrow> stale t = stale s"
  by (simp add: stale_def fun_eq_iff)

lemma nth_append_re: "n < Suc (length xs) \<Longrightarrow> (xs @ [x]) ! n = (if n < length xs then xs ! n else x)"
  by (auto simp: nth_append less_Suc_eq)

lemma waiting_step:
  assumes "waiting_inv s" and "slot_exec op s = Some t"
  shows "waiting_inv t"
  using assms(2)
  by (cases rule: slot_exec_cases) (use assms(1) in \<open>simp_all add: waiting_inv_def nth_append_re\<close>)

lemma waited_step:
  assumes "waited_inv s" and "waiting_inv s" and "slot_exec op s = Some t"
  shows "waited_inv t"
proof -
  have old: "\<And>n p. \<lbrakk>n < re_count s; past_wait (re_pc (nth_re s n)); re_policy (nth_re s n) = StrictSingleInstance;
      re_previous (nth_re s n) = Some p\<rbrakk> \<Longrightarrow> p \<in> set (sy_ended s)"
    and waiting: "\<And>n p. \<lbrakk>n < re_count s; re_pc (nth_re s n) = ReplaceWaiting p\<rbrakk> \<Longrightarrow> re_previous (nth_re s n) = Some p"
    using assms(1,2) by (auto simp: waited_inv_def waiting_inv_def)
  from assms(3) show ?thesis
    by (cases rule: slot_exec_cases)
      (auto simp: waited_inv_def nth_append_re slot_monitor_def dest: old waiting split: if_splits)
qed

text \<open>A supervisor keeps its transaction and stays done.\<close>

lemma step_keeps:
  assumes "slot_exec op s = Some t" and "n < re_count s"
  shows "n < re_count t \<and> re_transaction (nth_re t n) = re_transaction (nth_re s n)
    \<and> re_revision (nth_re t n) = re_revision (nth_re s n) \<and> re_policy (nth_re t n) = re_policy (nth_re s n)
    \<and> re_previous (nth_re t n) = re_previous (nth_re s n)
    \<and> (is_done (re_pc (nth_re s n)) \<longrightarrow> re_pc (nth_re t n) = re_pc (nth_re s n))"
  using assms(1) by (cases rule: slot_exec_cases) (use assms(2) in \<open>auto simp: nth_append\<close>)

lemma monitor_step:
  assumes "monitor_inv s" and "slot_exec op s = Some t"
  shows "monitor_inv t"
  unfolding monitor_inv_def
proof (intro allI impI)
  fix transaction i assume mem: "(transaction, i) \<in> set (sy_monitors t)"
  have "(transaction, i) \<in> set (sy_monitors s)
      \<or> (\<exists>n < re_count t. re_transaction (nth_re t n) = transaction \<and> is_replaced (re_pc (nth_re t n)))"
    using assms(2) by (cases rule: slot_exec_cases) (use mem in auto)
  then show "\<exists>n < re_count t. re_transaction (nth_re t n) = transaction \<and> is_replaced (re_pc (nth_re t n))"
    using assms(1) step_keeps [OF assms(2)] replaced_done unfolding monitor_inv_def by metis
qed

lemma current_step:
  assumes "current_inv s" and "ordered_inv s" and "monitor_inv s" and "slot_exec op s = Some t"
  shows "current_inv t"
proof -
  have old: "slot_current (sy_slot s) = re_previous (nth_re s n)"
    if "n < re_count s" "before_install (re_pc (nth_re s n))" "\<not> stale s n" for n
    using assms(1) that by (simp add: current_inv_def)
  have newest: "m = n" if "m < re_count s" "n < re_count s" "\<not> stale s m" "\<not> stale s n" for m n
    using ordered_distinct [OF assms(2), of m n] that by (simp add: stale_def slot_superseded_def)
  show ?thesis unfolding current_inv_def
  proof (intro allI impI, elim conjE)
    fix m assume m: "m < re_count t" "before_install (re_pc (nth_re t m))" "\<not> stale t m"
    have unchanged: "slot_current (sy_slot t) = re_previous (nth_re t m)"
      if "sy_slot t = sy_slot s" "re_count t = re_count s" "before_install (re_pc (nth_re s m))"
      using that m old [of m] step_keeps [OF assms(4), of m] by (simp add: stale_def)
    from assms(4) show "slot_current (sy_slot t) = re_previous (nth_re t m)"
    proof (cases rule: slot_exec_cases)
      case (accept transaction revision spec policy)
      have "m = re_count s"
      proof (rule ccontr)
        assume "m \<noteq> re_count s"
        with m have m: "m < re_count s" "nth_re t m = nth_re s m" by (simp_all add: accept(4) nth_append)
        with assms(2) checked_succ_less [OF accept(2)] have "re_transaction (nth_re s m) < transaction"
          unfolding ordered_inv_def by (meson le_less_trans)
        with m \<open>\<not> stale t m\<close> show False by (simp add: stale_def slot_superseded_def accept(4))
      qed
      then show ?thesis by (simp add: accept(4))
    next
      case close
      with m show ?thesis by (simp add: stale_def slot_superseded_def slot_close_def)
    next
      case (installed n i)
      have lt: "m < re_count s" using m(1) by (simp add: installed(4))
      have "stale t m = stale s m" using step_keeps [OF assms(4) lt]
        by (simp add: stale_def slot_superseded_def installed(4))
      with m(3) newest [OF lt installed(1)] installed(3) have "m = n" by simp
      with m(2) installed(1) show ?thesis by (simp add: installed(4))
    next
      case (monitored transaction i)
      from assms(3) monitored(1) obtain n where n: "n < re_count s" "re_transaction (nth_re s n) = transaction"
        "is_replaced (re_pc (nth_re s n))" unfolding monitor_inv_def by blast
      have st: "stale t m = stale s m" by (simp add: stale_def slot_superseded_def monitored(3) slot_monitor_def)
      have "slot_transaction (sy_slot s) \<noteq> transaction"
      proof
        assume "slot_transaction (sy_slot s) = transaction"
        with m st n(2) have "re_transaction (nth_re s m) = re_transaction (nth_re s n)"
          by (simp add: stale_def slot_superseded_def)
        with ordered_distinct [OF assms(2)] m n(1) monitored(3) have "m = n" by simp
        with m(2) n(3) monitored(3) replaced_done show False by simp
      qed
      with old [of m] m st show ?thesis by (simp add: monitored(3) slot_monitor_def)
    qed (rule unchanged; use m in \<open>simp split: if_splits\<close>)+
  qed
qed

section \<open>Nothing is forgotten\<close>

text \<open>An execution that runs on without having been cancelled.\<close>

definition running_on :: "slot_sys \<Rightarrow> execution_id \<Rightarrow> bool" where
  "running_on s i \<longleftrightarrow> i \<in> set (sy_spawned s) \<and> i \<notin> set (sy_ended s) \<and> i \<notin> set (sy_cancelled s)"

text \<open>A supervisor has it in hand: it will install or cancel it, or is about to cancel it as the previous one.\<close>

definition in_hand :: "slot_sys \<Rightarrow> nat \<Rightarrow> execution_id \<Rightarrow> bool" where
  "in_hand s n i \<longleftrightarrow> re_pc (nth_re s n) = ReplaceAdmitted i
     \<or> (\<exists>j. re_pc (nth_re s n) = ReplaceInstalled j) \<and> re_policy (nth_re s n) = AvailabilityFirst
       \<and> re_previous (nth_re s n) = Some i"

definition cover_inv :: "slot_sys \<Rightarrow> bool" where
  "cover_inv s \<longleftrightarrow> (\<forall>i. running_on s i \<longrightarrow> slot_current (sy_slot s) = Some i \<or> (\<exists>n < re_count s. in_hand s n i))"

text \<open>What a step may take out of a supervisor's hand is cancelled or becomes current.\<close>

lemma in_hand_step:
  assumes "slot_exec op s = Some t" and "n < re_count s" and "in_hand s n i" and "running_on t i"
  shows "in_hand t n i \<or> slot_current (sy_slot t) = Some i"
  using assms(1)
proof (cases rule: slot_exec_cases)
  case accept
  with assms(2,3) show ?thesis by (simp add: in_hand_def nth_append)
qed (use assms(2-4) in \<open>auto simp: in_hand_def running_on_def split: if_splits\<close>)

lemma cover_step:
  assumes "cover_inv s" and "current_inv s" and "waited_inv s" and "slot_exec op s = Some t"
  shows "cover_inv t"
  unfolding cover_inv_def
proof (intro allI impI)
  fix i assume on: "running_on t i"
  have fresh: "running_on s i \<or> (\<exists>n < re_count t. in_hand t n i)"
    using assms(4) by (cases rule: slot_exec_cases) (use on in \<open>auto simp: running_on_def in_hand_def slot_cancel_current_def\<close>)
  have kept: "slot_current (sy_slot t) = Some i \<or> (\<exists>n < re_count t. in_hand t n i)"
    if current: "slot_current (sy_slot s) = Some i"
    using assms(4)
  proof (cases rule: slot_exec_cases)
    case (installed n j)
    have prev: "re_previous (nth_re s n) = Some i"
      using assms(2) installed(1-3) current by (simp add: current_inv_def)
    have "re_policy (nth_re s n) = AvailabilityFirst"
    proof (cases "re_policy (nth_re s n)")
      case StrictSingleInstance
      with assms(3) installed(1,2) prev have "i \<in> set (sy_ended s)" by (simp add: waited_inv_def)
      with on show ?thesis by (simp add: running_on_def installed(4))
    qed
    with prev installed(1) have "in_hand t n i" by (simp add: in_hand_def installed(4))
    with installed show ?thesis by auto
  qed (use on current in \<open>auto simp: running_on_def slot_close_def slot_cancel_current_def slot_monitor_def\<close>)
  show "slot_current (sy_slot t) = Some i \<or> (\<exists>n < re_count t. in_hand t n i)"
  proof (cases "running_on s i")
    case True
    with assms(1) consider "slot_current (sy_slot s) = Some i" | n where "n < re_count s" "in_hand s n i"
      unfolding cover_inv_def by blast
    then show ?thesis
    proof cases
      case (2 n)
      with in_hand_step [OF assms(4) 2 on] step_keeps [OF assms(4) 2(1)] show ?thesis by blast
    qed (rule kept)
  qed (use fresh in blast)
qed

section \<open>Strict replacements\<close>

definition all_strict :: "slot_sys \<Rightarrow> bool" where
  "all_strict s \<longleftrightarrow> (\<forall>n < re_count s. re_policy (nth_re s n) = StrictSingleInstance)"

text \<open>Before a strict slot is closed every installed execution other than the current one has ended.\<close>

definition strict_inv :: "slot_sys \<Rightarrow> bool" where
  "strict_inv s \<longleftrightarrow> (all_strict s \<longrightarrow>
     (\<forall>i \<in> set (sy_installed s). \<forall>j \<in> set (sy_installed s). i \<in> set (sy_ended s) \<or> j \<in> set (sy_ended s) \<or> i = j)
   \<and> (\<not> slot_closed (sy_slot s) \<longrightarrow>
        (\<forall>i \<in> set (sy_installed s). slot_current (sy_slot s) = Some i \<or> i \<in> set (sy_ended s))))"

lemma all_strict_step: "slot_exec op s = Some t \<Longrightarrow> all_strict t \<Longrightarrow> all_strict s"
  unfolding all_strict_def using step_keeps by metis

lemma strict_step:
  assumes "strict_inv s" and "current_inv s" and "waited_inv s" and "slot_exec op s = Some t"
  shows "strict_inv t"
  unfolding strict_inv_def
proof (rule impI)
  assume "all_strict t"
  from all_strict_step [OF assms(4) this] have strict: "all_strict s" .
  with assms(1) have pairs: "\<And>i j. \<lbrakk>i \<in> set (sy_installed s); j \<in> set (sy_installed s)\<rbrakk>
      \<Longrightarrow> i \<in> set (sy_ended s) \<or> j \<in> set (sy_ended s) \<or> i = j"
    and open_slot: "\<And>i. \<lbrakk>\<not> slot_closed (sy_slot s); i \<in> set (sy_installed s)\<rbrakk>
      \<Longrightarrow> slot_current (sy_slot s) = Some i \<or> i \<in> set (sy_ended s)"
    unfolding strict_inv_def by blast+
  from assms(4) show "(\<forall>i \<in> set (sy_installed t). \<forall>j \<in> set (sy_installed t). i \<in> set (sy_ended t) \<or> j \<in> set (sy_ended t) \<or> i = j)
   \<and> (\<not> slot_closed (sy_slot t) \<longrightarrow>
        (\<forall>i \<in> set (sy_installed t). slot_current (sy_slot t) = Some i \<or> i \<in> set (sy_ended t)))"
  proof (cases rule: slot_exec_cases)
    case (installed n j)
    have not_closed: "\<not> slot_closed (sy_slot s)" using installed(3) by (simp add: stale_def slot_superseded_def)
    have others: "i \<in> set (sy_ended s)" if "i \<in> set (sy_installed s)" for i
    proof (cases "slot_current (sy_slot s) = Some i")
      case True
      with assms(2) installed(1-3) have "re_previous (nth_re s n) = Some i" by (simp add: current_inv_def)
      with assms(3) installed(1,2) strict show ?thesis by (simp add: waited_inv_def all_strict_def)
    qed (use open_slot [OF not_closed that] in simp)
    then show ?thesis by (auto simp: installed(4))
  next
    case close
    with pairs show ?thesis by (simp add: slot_close_def)
  next
    case (ended i)
    with pairs open_slot show ?thesis by auto
  next
    case (monitored transaction i)
    with pairs open_slot show ?thesis by (fastforce simp: slot_monitor_def)
  next
    case finished
    with pairs open_slot show ?thesis by simp
  qed (use pairs open_slot in simp_all)
qed

section \<open>The invariant\<close>

definition slot_inv :: "slot_sys \<Rightarrow> bool" where
  "slot_inv s \<longleftrightarrow> ordered_inv s \<and> waiting_inv s \<and> waited_inv s \<and> monitor_inv s \<and> current_inv s \<and> cover_inv s \<and> strict_inv s"

lemmas slot_inv_defs = ordered_inv_def waiting_inv_def waited_inv_def monitor_inv_def current_inv_def cover_inv_def
  strict_inv_def running_on_def

lemmas slot_inv_steps = ordered_step waiting_step waited_step monitor_step current_step cover_step strict_step

interpretation slots: invariant_system slot_init slot_step slot_inv
proof
  show "slot_inv s" if "slot_init s" for s
    using that by (simp add: slot_init_def slot_sys_new_def slot_inv_def slot_inv_defs)
  show "slot_inv t" if "slot_inv s" "slot_step s t" for s t
    using that slot_inv_steps unfolding slot_inv_def slot_step_def by metis
qed

lemma slot_run_reach: "slot_run ops s = Some t \<Longrightarrow> reach slot_init slot_step s \<Longrightarrow> reach slot_init slot_step t"
proof (induction ops arbitrary: s)
  case (Cons op ops)
  then obtain s' where s': "slot_exec op s = Some s'" "slot_run ops s' = Some t" by (auto split: option.splits)
  from Cons.IH [OF s'(2)] reach_step [OF Cons.prems(2)] s'(1) show ?case unfolding slot_step_def by blast
qed simp

lemma slot_run_reachable: "slot_run ops slot_sys_new = Some t \<Longrightarrow> reach slot_init slot_step t"
  by (erule slot_run_reach) (simp add: reach_init slot_init_def)

section \<open>Properties\<close>

text \<open>
  C29. Only the newest replacement is installed.  When an execution becomes the current one, it is
  the one the lane admitted for the replacement with the last accepted transaction and the current
  revision; every other accepted replacement has a smaller transaction and a smaller revision.
\<close>

theorem newest_replacement_wins:
  assumes "reach slot_init slot_step s" and "slot_step s t"
    and "slot_current (sy_slot t) = Some i" and "slot_current (sy_slot s) \<noteq> Some i"
  shows "\<exists>n < re_count s. re_pc (nth_re s n) = ReplaceAdmitted i \<and> \<not> stale s n
    \<and> (\<forall>m < re_count s. m \<noteq> n \<longrightarrow> re_transaction (nth_re s m) < re_transaction (nth_re s n)
        \<and> re_revision (nth_re s m) < re_revision (nth_re s n))"
proof -
  have inv: "ordered_inv s" using slots.reach_inv [OF assms(1)] by (simp add: slot_inv_def)
  from assms(2) obtain op where "slot_exec op s = Some t" unfolding slot_step_def by blast
  then obtain n where n: "n < re_count s" "re_pc (nth_re s n) = ReplaceAdmitted i" "\<not> stale s n"
    by (cases rule: slot_exec_cases) (use assms(3,4) in \<open>auto simp: slot_close_def slot_monitor_def split: if_splits\<close>)
  have "re_transaction (nth_re s m) < re_transaction (nth_re s n) \<and> re_revision (nth_re s m) < re_revision (nth_re s n)"
    if m: "m < re_count s" "m \<noteq> n" for m
  proof (cases "m < n")
    case True
    with inv n(1) show ?thesis by (simp add: ordered_inv_def)
  next
    case False
    with inv m have "re_transaction (nth_re s n) < re_transaction (nth_re s m)"
      "re_transaction (nth_re s m) \<le> slot_transaction (sy_slot s)" by (simp_all add: ordered_inv_def)
    with n(3) show ?thesis by (simp add: stale_def slot_superseded_def)
  qed
  with n show ?thesis by blast
qed

definition two_replacements :: "slot_op list" where
  "two_replacements = [OpReplace None 1 10 StrictSingleInstance, OpSupervise 0 (Inl SpQueueFull), OpSupervise 0 (Inr 1),
     OpReplace None 2 20 StrictSingleInstance, OpSupervise 1 (Inl SpQueueFull), OpSupervise 1 (Inr 2)]"

lemmas slot_run_defs = slot_sys_new_def slot_new_def start_replacement_def slot_replace_def slot_accept_def
  joining_current_def would_join_def checked_add_def supervise_def replace_begin_def replace_try_def replace_install_def
  replace_finish_def set_pc_def cancel_execs_def slot_superseded_def slot_monitor_def Let_def

definition after_two :: slot_sys where
  "after_two = the (slot_run two_replacements slot_sys_new)"

lemma after_two_run: "slot_run two_replacements slot_sys_new = Some after_two"
  and after_two_eq: "after_two = \<lparr>sy_slot = \<lparr>slot_revision = Some 2, slot_spec = Some 20, slot_transaction = 2,
     slot_current = None, slot_last = None, slot_closed = False\<rparr>,
     sy_replacements =
       [\<lparr>re_transaction = 1, re_revision = 1, re_policy = StrictSingleInstance, re_previous = None, re_pc = ReplaceAdmitted 1\<rparr>,
        \<lparr>re_transaction = 2, re_revision = 2, re_policy = StrictSingleInstance, re_previous = None, re_pc = ReplaceAdmitted 2\<rparr>],
     sy_monitors = [], sy_spawned = [2, 1], sy_installed = [], sy_cancelled = [], sy_ended = []\<rparr>"
  by (simp_all add: after_two_def two_replacements_def slot_run_defs)

lemmas after_two_reach = slot_run_reachable [OF after_two_run]

lemma newest_replacement_wins_witness:
  "\<exists>t. slot_exec (OpSupervise 1 (Inl SpQueueFull)) after_two = Some t \<and> slot_current (sy_slot t) = Some 2
     \<and> (\<exists>n < 2. re_pc (nth_re after_two n) = ReplaceAdmitted 2)"
proof -
  obtain t where t: "slot_exec (OpSupervise 1 (Inl SpQueueFull)) after_two = Some t" and "slot_current (sy_slot t) = Some 2"
    by (simp add: after_two_eq slot_run_defs)
  moreover have "slot_step after_two t" unfolding slot_step_def using t by blast
  ultimately show ?thesis
    using newest_replacement_wins [OF after_two_reach \<open>slot_step after_two t\<close>, of 2] by (auto simp: after_two_eq)
qed

text \<open>
  C30. Strict replacements are installed one after the other: in a slot that is only replaced
  strictly, at most one execution that ever was the current one is still running, whatever callers,
  supervisors and monitors do in between.
\<close>

theorem strict_replacements_installed_alone:
  assumes "reach slot_init slot_step s" and "all_strict s"
    and "i \<in> set (sy_installed s)" and "j \<in> set (sy_installed s)"
    and "i \<notin> set (sy_ended s)" and "j \<notin> set (sy_ended s)"
  shows "i = j"
  using slots.reach_inv [OF assms(1)] assms(2-) unfolding slot_inv_def strict_inv_def by blast

text \<open>A first execution is installed and ends, and a second one is installed.\<close>

definition replaced_twice :: "slot_op list" where
  "replaced_twice = [OpReplace None 1 10 StrictSingleInstance, OpSupervise 0 (Inl SpQueueFull), OpSupervise 0 (Inr 1),
     OpSupervise 0 (Inl SpQueueFull), OpSupervise 0 (Inl SpQueueFull),
     OpReplace None 2 20 StrictSingleInstance, OpSupervise 1 (Inl SpQueueFull), OpEnd 1, OpSupervise 1 (Inl SpQueueFull),
     OpSupervise 1 (Inr 2), OpSupervise 1 (Inl SpQueueFull)]"

lemma replaced_twice_run:
  "\<exists>s. slot_run replaced_twice slot_sys_new = Some s \<and> all_strict s \<and> sy_installed s = [2, 1] \<and> sy_ended s = [1]"
  by (simp add: replaced_twice_def slot_run_defs all_strict_def less_Suc_eq_0_disj)

lemma strict_replacements_installed_alone_witness:
  "\<exists>s. slot_run replaced_twice slot_sys_new = Some s
     \<and> (\<forall>i \<in> set (sy_installed s). i \<in> set (sy_ended s) \<or> i = 2)"
proof -
  from replaced_twice_run obtain s where s: "slot_run replaced_twice slot_sys_new = Some s" "all_strict s"
    "sy_installed s = [2, 1]" "sy_ended s = [1]" by blast
  have "i = 2" if "i \<in> set (sy_installed s)" "i \<notin> set (sy_ended s)" for i
    using strict_replacements_installed_alone [OF slot_run_reachable [OF s(1)] s(2) that(1) _ that(2), of 2] s(3,4) by simp
  with s(1) show ?thesis by blast
qed

text \<open>
  C31. A slot forgets nothing it started: once every accepted replacement has its outcome, an
  execution that runs on without having been cancelled is the current one, whether its replacement
  was superseded before or after its admission, replaced strictly or with overlap, or closed.
\<close>

theorem slot_forgets_nothing:
  assumes "reach slot_init slot_step s" and "\<forall>n < re_count s. is_done (re_pc (nth_re s n))" and "running_on s i"
  shows "slot_current (sy_slot s) = Some i"
proof -
  have "cover_inv s" using slots.reach_inv [OF assms(1)] by (simp add: slot_inv_def)
  with assms(3) consider "slot_current (sy_slot s) = Some i" | n where "n < re_count s" "in_hand s n i"
    unfolding cover_inv_def by blast
  then show ?thesis
  proof cases
    case (2 n)
    with assms(2) show ?thesis by (auto simp: in_hand_def is_done_def split: replace_pc.splits)
  qed
qed

lemma slot_forgets_nothing_witness:
  "\<exists>s. slot_run (two_replacements @ [OpSupervise 1 (Inl SpQueueFull), OpSupervise 0 (Inl SpQueueFull), OpSupervise 1 (Inl SpQueueFull)])
       slot_sys_new = Some s \<and> running_on s 2 \<and> slot_current (sy_slot s) = Some 2"
proof -
  obtain s where s: "slot_run (two_replacements @ [OpSupervise 1 (Inl SpQueueFull), OpSupervise 0 (Inl SpQueueFull),
      OpSupervise 1 (Inl SpQueueFull)]) slot_sys_new = Some s"
    and state: "\<forall>n < re_count s. is_done (re_pc (nth_re s n))" "running_on s 2"
    by (simp add: two_replacements_def slot_run_defs running_on_def less_Suc_eq_0_disj)
  from slot_forgets_nothing [OF slot_run_reachable [OF s] state] s state(2) show ?thesis by blast
qed

text \<open>
  Strict replacements can overlap: a second strict replacement that is accepted while the first
  one has been admitted by the lane and is not installed yet does not wait for it.  Both executions
  run, and neither has been cancelled.
\<close>

theorem strict_replacements_can_overlap:
  shows "\<exists>s i j. reach slot_init slot_step s \<and> all_strict s \<and> running_on s i \<and> running_on s j \<and> i \<noteq> j"
proof (intro exI conjI)
  show "reach slot_init slot_step after_two" by (rule after_two_reach)
  show "all_strict after_two" by (simp add: all_strict_def after_two_eq less_Suc_eq_0_disj)
  show "running_on after_two 1" "running_on after_two 2" by (simp_all add: running_on_def after_two_eq)
qed simp

text \<open>
  A strict replacement whose admission fails cannot be repeated: the previous execution has
  ended, but the slot still holds it as the current one, and the same revision with the same
  specification is answered with its control as if it were that revision's execution.
\<close>

theorem failed_replacement_is_not_repeated:
  assumes "reach slot_init slot_step s" and "n < re_count s"
    and "re_pc (nth_re s n) = ReplaceDone (AdmissionFailed (re_revision (nth_re s n)) error)" and "\<not> stale s n"
    and "re_policy (nth_re s n) = StrictSingleInstance" and "re_previous (nth_re s n) = Some p"
    and "slot_spec (sy_slot s) = Some spec" and "\<not> joins p"
  shows "slot_replace joins (re_revision (nth_re s n)) spec policy (sy_slot s) = (Inr (KeepExisting p), sy_slot s)
    \<and> p \<in> set (sy_ended s)"
proof -
  have inv: "current_inv s" "waited_inv s" using slots.reach_inv [OF assms(1)] by (simp_all add: slot_inv_def)
  from inv(1) assms(2-4,6) have current: "slot_current (sy_slot s) = Some p" by (simp add: current_inv_def)
  have "p \<in> set (sy_ended s)" using inv(2) assms(2,3,5,6) by (simp add: waited_inv_def)
  moreover have "\<not> slot_closed (sy_slot s)" "slot_revision (sy_slot s) = Some (re_revision (nth_re s n))"
    using assms(4) by (simp_all add: stale_def slot_superseded_def)
  ultimately show ?thesis using current assms(7,8) by (simp add: slot_replace_def joining_current_def)
qed

definition failed_replacement :: "slot_op list" where
  "failed_replacement = [OpReplace None 1 10 StrictSingleInstance, OpSupervise 0 (Inl SpQueueFull), OpSupervise 0 (Inr 1),
     OpSupervise 0 (Inl SpQueueFull), OpSupervise 0 (Inl SpQueueFull),
     OpReplace None 2 20 StrictSingleInstance, OpSupervise 1 (Inl SpQueueFull), OpEnd 1, OpMonitor 1 1,
     OpSupervise 1 (Inl SpQueueFull), OpSupervise 1 (Inl (SpInternal (ResourceLimitExceeded ''active executions'')))]"

lemma failed_replacement_is_not_repeated_witness:
  "\<exists>s. slot_run failed_replacement slot_sys_new = Some s
     \<and> slot_replace (would_join None) 2 20 StrictSingleInstance (sy_slot s) = (Inr (KeepExisting 1), sy_slot s)"
proof -
  obtain s where s: "slot_run failed_replacement slot_sys_new = Some s"
    and state: "re_count s = 2" "\<not> stale s 1" "slot_spec (sy_slot s) = Some 20"
      "nth_re s 1 = \<lparr>re_transaction = 2, re_revision = 2, re_policy = StrictSingleInstance, re_previous = Some 1,
         re_pc = ReplaceDone (AdmissionFailed 2 (SpInternal (ResourceLimitExceeded ''active executions'')))\<rparr>"
    by (simp add: failed_replacement_def slot_run_defs stale_def)
  from failed_replacement_is_not_repeated [OF slot_run_reachable [OF s], of 1 _ 1 20 "would_join None"] state
  have "slot_replace (would_join None) 2 20 StrictSingleInstance (sy_slot s) = (Inr (KeepExisting 1), sy_slot s)"
    by (simp add: would_join_def)
  with s show ?thesis by blast
qed

end
