(* ===== verification/BB_Scope.thy ===== *)
theory BB_Scope
  imports BB_Execution BB_Lane
begin

text \<open>
  Scopes (\<open>scope.rs\<close>): generations with their controls and child scopes, admission into the current
  generation, rotation, closing and cancellation, and the rotation supervisor cut at its lock regions
  and waits.  The store maps identities to the shared objects the handles point to.
\<close>

section \<open>State\<close>

text \<open>\<open>GenerationCore\<close>; the controls are the executions it tracks, children are weak references to scopes.\<close>

record generation =
  gen_number :: u64
  gen_open :: bool
  gen_controls :: "execution_id list"
  gen_children :: "nat list"

record scope_state =
  sc_current :: scope_id
  sc_next_generation :: u64
  sc_rotating :: bool
  sc_rotation_ticket :: u64
  sc_closed :: bool

definition generation_new :: "u64 \<Rightarrow> generation" where
  "generation_new number = \<lparr>gen_number = number, gen_open = True, gen_controls = [], gen_children = []\<rparr>"

definition scope_state_new :: "scope_id \<Rightarrow> scope_state" where
  "scope_state_new g = \<lparr>sc_current = g, sc_next_generation = 2, sc_rotating = False, sc_rotation_ticket = 0, sc_closed = False\<rparr>"

datatype (plugins only: size) rotation_policy = RotateStrict | RotateAvailabilityFirst

datatype (plugins only: size) rotation_outcome =
    Rotated scope_id scope_id
  | RotationCancelled scope_id scope_id
  | RotationFailed

datatype (plugins only: size) scope_error =
    ScopeIsClosed
  | RotationInProgress
  | RotateWouldJoin execution_id
  | ScopeSequenceExhausted
  | ScopeLockPoisoned

datatype (plugins only: size) scope_spawn_error =
    SpawnScopeClosed
  | StaleGeneration
  | SpawnLockPoisoned
  | SpawnLane spawn_error

section \<open>Operations under a scope's lock\<close>

definition check_current :: "scope_id \<Rightarrow> generation \<Rightarrow> scope_state \<Rightarrow> scope_spawn_error + unit" where
  "check_current g core s =
     (if sc_closed s then Inl SpawnScopeClosed
      else if sc_current s \<noteq> g \<or> \<not> gen_open core then Inl StaleGeneration
      else Inr ())"

text \<open>\<open>ensure_current\<close>; the family may be gone.\<close>

definition ensure_current :: "scope_id \<Rightarrow> generation \<Rightarrow> scope_state option \<Rightarrow> scope_spawn_error + unit" where
  "ensure_current g core family =
     (case family of None \<Rightarrow> Inl SpawnScopeClosed | Some s \<Rightarrow> check_current g core s)"

definition track :: "execution_id \<Rightarrow> generation \<Rightarrow> generation" where
  "track i core = core\<lparr>gen_controls := List.insert i (gen_controls core)\<rparr>"

text \<open>The monitor of a tracked execution removes it once it is terminal.\<close>

definition untrack :: "execution_id \<Rightarrow> generation \<Rightarrow> generation" where
  "untrack i core = core\<lparr>gen_controls := removeAll i (gen_controls core)\<rparr>"

text \<open>The four \<open>try_spawn\<close> variants: the scope's lock is held while the lane answers.\<close>

definition scope_try_spawn ::
  "scope_id \<Rightarrow> generation \<Rightarrow> scope_state \<Rightarrow> (spawn_error + execution_id) \<Rightarrow> (scope_spawn_error + execution_id) \<times> generation" where
  "scope_try_spawn g core s answer =
     (case check_current g core s of
        Inl error \<Rightarrow> (Inl error, core)
      | Inr _ \<Rightarrow> (case answer of Inl error \<Rightarrow> (Inl (SpawnLane error), core) | Inr i \<Rightarrow> (Inr i, track i core)))"

definition scope_child :: "nat \<Rightarrow> generation \<Rightarrow> scope_state \<Rightarrow> scope_error + generation" where
  "scope_child c core s =
     (if sc_closed s \<or> \<not> gen_open core then Inl ScopeIsClosed
      else Inr (core\<lparr>gen_children := gen_children core @ [c]\<rparr>))"

text \<open>
  \<open>rotate\<close> under the lock: the current generation stops admitting, the new one gets the next number;
  with availability first it is current at once.  The result names the ticket and the new
  generation.
\<close>

definition scope_rotate ::
  "(execution_id \<Rightarrow> bool) \<Rightarrow> rotation_policy \<Rightarrow> scope_id \<Rightarrow> generation \<Rightarrow> scope_state
   \<Rightarrow> scope_error + (u64 \<times> generation \<times> generation \<times> scope_state)" where
  "scope_rotate joins policy new core s =
     (if sc_closed s then Inl ScopeIsClosed
      else if sc_rotating s then Inl RotationInProgress
      else case (if policy = RotateStrict then find joins (gen_controls core) else None) of
        Some i \<Rightarrow> Inl (RotateWouldJoin i)
      | None \<Rightarrow>
          (case (checked_add (sc_rotation_ticket s) 1, checked_add (sc_next_generation s) 1) of
             (Some ticket, Some next_generation) \<Rightarrow>
               Inr (ticket, core\<lparr>gen_open := False\<rparr>, generation_new (sc_next_generation s),
                 s\<lparr>sc_rotating := True, sc_rotation_ticket := ticket, sc_next_generation := next_generation,
                   sc_current := (if policy = RotateAvailabilityFirst then new else sc_current s)\<rparr>)
           | _ \<Rightarrow> Inl ScopeSequenceExhausted))"

definition scope_close :: "scope_state \<Rightarrow> scope_state" where
  "scope_close s = s\<lparr>sc_closed := True\<rparr>"

text \<open>The decision at the end of a rotation, under the lock.\<close>

definition rotation_decision ::
  "u64 \<Rightarrow> rotation_policy \<Rightarrow> bool \<Rightarrow> scope_id \<Rightarrow> scope_id \<Rightarrow> scope_state \<Rightarrow> rotation_outcome \<times> scope_state" where
  "rotation_decision ticket policy cancelled old new s =
     (if sc_rotation_ticket s \<noteq> ticket then (RotationFailed, s)
      else if cancelled then (RotationCancelled old new, s\<lparr>sc_closed := True, sc_rotating := False\<rparr>)
      else (Rotated old new,
        s\<lparr>sc_current := (if policy = RotateStrict then new else sc_current s), sc_rotating := False\<rparr>))"

section \<open>The store\<close>

datatype (plugins only: size) rotation_pc =
    RotationStart
  | RotationChildren "execution_id list" "nat list"
  | RotationChildControls "execution_id list" "execution_id list" "nat list"
  | RotationChildWait "execution_id list" execution_id "execution_id list" "nat list"
  | RotationOwnWait "execution_id list"
  | RotationDecide
  | RotationDone rotation_outcome

record rotation =
  rot_family :: nat
  rot_old :: scope_id
  rot_new :: scope_id
  rot_ticket :: u64
  rot_policy :: rotation_policy
  rot_cancelled :: bool
  rot_pc :: rotation_pc

text \<open>
  Scopes and generations are allocated with increasing identities; \<open>st_admitted\<close> records which
  execution was admitted into which generation, \<open>st_family\<close> the family of every generation.
\<close>

record scope_store =
  st_scopes :: "scope_state list"
  st_generations :: "generation list"
  st_family :: "nat list"
  st_rotations :: "rotation list"
  st_admitted :: "(execution_id \<times> scope_id) list"
  st_cancelled :: "execution_id list"
  st_ended :: "execution_id list"

definition scope_store_new :: scope_store where
  "scope_store_new = \<lparr>st_scopes = [], st_generations = [], st_family = [], st_rotations = [], st_admitted = [],
     st_cancelled = [], st_ended = []\<rparr>"

abbreviation scope_of :: "scope_store \<Rightarrow> nat \<Rightarrow> scope_state" where
  "scope_of st f \<equiv> st_scopes st ! f"

abbreviation gen_of :: "scope_store \<Rightarrow> scope_id \<Rightarrow> generation" where
  "gen_of st g \<equiv> st_generations st ! g"

definition set_scope :: "nat \<Rightarrow> scope_state \<Rightarrow> scope_store \<Rightarrow> scope_store" where
  "set_scope f s st = st\<lparr>st_scopes := (st_scopes st)[f := s]\<rparr>"

definition set_gen :: "scope_id \<Rightarrow> generation \<Rightarrow> scope_store \<Rightarrow> scope_store" where
  "set_gen g core st = st\<lparr>st_generations := (st_generations st)[g := core]\<rparr>"

definition close_gen :: "scope_id \<Rightarrow> scope_store \<Rightarrow> scope_store" where
  "close_gen g st = set_gen g ((gen_of st g)\<lparr>gen_open := False\<rparr>) st"

definition set_rot :: "nat \<Rightarrow> rotation_pc \<Rightarrow> scope_store \<Rightarrow> scope_store" where
  "set_rot r pc st = st\<lparr>st_rotations := (st_rotations st)[r := (st_rotations st ! r)\<lparr>rot_pc := pc\<rparr>]\<rparr>"

definition cancel_scoped :: "execution_id list \<Rightarrow> scope_store \<Rightarrow> scope_store" where
  "cancel_scoped is st = st\<lparr>st_cancelled := is @ st_cancelled st\<rparr>"

text \<open>A scope with its first generation.\<close>

definition new_scope :: "scope_store \<Rightarrow> nat \<times> scope_store" where
  "new_scope st =
     (let f = length (st_scopes st); g = length (st_generations st) in
      (f, st\<lparr>st_scopes := st_scopes st @ [scope_state_new g],
            st_generations := st_generations st @ [generation_new 1], st_family := st_family st @ [f]\<rparr>))"

text \<open>
  \<open>collect_scope_controls\<close>: the controls of the current generation, then of the descendants that are
  still alive, each scope closed before it is read if asked for.  A child is always newer than its
  parent, so the number of scopes bounds the recursion.
\<close>

fun collect_scope_controls ::
  "nat \<Rightarrow> (nat \<Rightarrow> bool) \<Rightarrow> bool \<Rightarrow> nat \<Rightarrow> scope_store \<Rightarrow> execution_id list \<times> scope_store" where
  "collect_scope_controls 0 alive close f st = ([], st)"
| "collect_scope_controls (Suc depth) alive close f st =
     (let g = sc_current (scope_of st f);
          st1 = (if close then close_gen g (set_scope f (scope_close (scope_of st f)) st) else st) in
      fold (\<lambda>c (is, st'). let (js, st'') = collect_scope_controls depth alive close c st' in (is @ js, st''))
        (filter alive (gen_children (gen_of st1 g))) (gen_controls (gen_of st1 g), st1))"

definition collect :: "(nat \<Rightarrow> bool) \<Rightarrow> nat \<Rightarrow> scope_store \<Rightarrow> execution_id list \<times> scope_store" where
  "collect alive f st = collect_scope_controls (length (st_scopes st)) alive True f st"

section \<open>The rotation supervisor\<close>

definition rotation_start :: "(nat \<Rightarrow> bool) \<Rightarrow> nat \<Rightarrow> scope_store \<Rightarrow> scope_store" where
  "rotation_start alive r st =
     (let core = gen_of st (rot_old (st_rotations st ! r)); own = gen_controls core in
      set_rot r (RotationChildren own (filter alive (gen_children core))) (cancel_scoped own st))"

definition rotation_finish :: "nat \<Rightarrow> scope_store \<Rightarrow> scope_store" where
  "rotation_finish r st =
     (let p = st_rotations st ! r; f = rot_family p;
          (outcome, s) = rotation_decision (rot_ticket p) (rot_policy p) (rot_cancelled p) (rot_old p) (rot_new p) (scope_of st f);
          st1 = (case outcome of RotationCancelled old new \<Rightarrow> close_gen new st | _ \<Rightarrow> st) in
      set_rot r (RotationDone outcome) (set_scope f s st1))"

text \<open>One step of the supervisor: the descendants are collected one by one and their controls cancelled and awaited in turn.\<close>

definition run_rotation :: "(nat \<Rightarrow> bool) \<Rightarrow> nat \<Rightarrow> scope_store \<Rightarrow> scope_store option" where
  "run_rotation alive r st =
     (if r < length (st_rotations st) then
        case rot_pc (st_rotations st ! r) of
          RotationStart \<Rightarrow> Some (rotation_start alive r st)
        | RotationChildren own (c # children) \<Rightarrow>
            (case collect alive c st of (is, st') \<Rightarrow> Some (set_rot r (RotationChildControls own is children) st'))
        | RotationChildControls own (i # is) children \<Rightarrow>
            Some (set_rot r (RotationChildWait own i is children) (cancel_scoped [i] st))
        | RotationChildWait own i is children \<Rightarrow>
            if i \<in> set (st_ended st) then Some (set_rot r (RotationChildControls own is children) st) else None
        | RotationChildControls own [] children \<Rightarrow> Some (set_rot r (RotationChildren own children) st)
        | RotationChildren own [] \<Rightarrow>
            Some (set_rot r (if rot_policy (st_rotations st ! r) = RotateStrict then RotationOwnWait own else RotationDecide) st)
        | RotationOwnWait (i # is) \<Rightarrow> if i \<in> set (st_ended st) then Some (set_rot r (RotationOwnWait is) st) else None
        | RotationOwnWait [] \<Rightarrow> Some (set_rot r RotationDecide st)
        | RotationDecide \<Rightarrow> Some (rotation_finish r st)
        | RotationDone outcome \<Rightarrow> None
      else None)"

section \<open>Steps\<close>

datatype (plugins only: size) scope_op =
    OpScope
  | OpChild nat
  | OpSpawn scope_id "spawn_error + execution_id"
  | OpUntrack scope_id execution_id
  | OpRotate "execution_id list option" nat rotation_policy
  | OpCancelPending nat
  | OpRotation "nat list" nat
  | OpCancelScope "nat list" nat
  | OpCloseScope nat
  | OpScopedEnd execution_id

definition admitted_ids :: "scope_store \<Rightarrow> execution_id list" where
  "admitted_ids st = map fst (st_admitted st)"

definition do_spawn :: "scope_id \<Rightarrow> (spawn_error + execution_id) \<Rightarrow> scope_store \<Rightarrow> scope_store" where
  "do_spawn g answer st =
     (case scope_try_spawn g (gen_of st g) (scope_of st (st_family st ! g)) answer of
        (Inr i, core) \<Rightarrow> (set_gen g core st)\<lparr>st_admitted := (i, g) # st_admitted st\<rparr>
      | (Inl error, core) \<Rightarrow> st)"

definition do_rotate :: "(execution_id \<Rightarrow> bool) \<Rightarrow> nat \<Rightarrow> rotation_policy \<Rightarrow> scope_store \<Rightarrow> scope_store" where
  "do_rotate joins f policy st =
     (let old = sc_current (scope_of st f); new = length (st_generations st) in
      case scope_rotate joins policy new (gen_of st old) (scope_of st f) of
        Inl error \<Rightarrow> st
      | Inr (ticket, core, fresh, s) \<Rightarrow>
          (set_scope f s st)
            \<lparr>st_generations := (st_generations st)[old := core] @ [fresh],
             st_family := st_family st @ [f],
             st_rotations := st_rotations st @ [\<lparr>rot_family = f, rot_old = old, rot_new = new, rot_ticket = ticket,
               rot_policy = policy, rot_cancelled = False, rot_pc = RotationStart\<rparr>]\<rparr>)"

definition do_child :: "nat \<Rightarrow> scope_store \<Rightarrow> scope_store" where
  "do_child f st =
     (let (c, st') = new_scope st; g = sc_current (scope_of st f) in
      case scope_child c (gen_of st g) (scope_of st f) of
        Inl error \<Rightarrow> st
      | Inr core \<Rightarrow> set_gen g core st')"

fun scope_exec :: "scope_op \<Rightarrow> scope_store \<Rightarrow> scope_store option" where
  "scope_exec OpScope st = Some (snd (new_scope st))"
| "scope_exec (OpChild f) st = (if f < length (st_scopes st) then Some (do_child f st) else None)"
| "scope_exec (OpSpawn g answer) st =
     (if g < length (st_generations st) \<and> (\<forall>i. answer = Inr i \<longrightarrow> i \<notin> set (admitted_ids st))
      then Some (do_spawn g answer st) else None)"
| "scope_exec (OpUntrack g i) st =
     (if g < length (st_generations st) \<and> i \<in> set (st_ended st)
      then Some (set_gen g (untrack i (gen_of st g)) st) else None)"
| "scope_exec (OpRotate path f policy) st =
     (if f < length (st_scopes st) then Some (do_rotate (would_join path) f policy st) else None)"
| "scope_exec (OpCancelPending r) st =
     (if r < length (st_rotations st)
      then Some (st\<lparr>st_rotations := (st_rotations st)[r := (st_rotations st ! r)\<lparr>rot_cancelled := True\<rparr>]\<rparr>) else None)"
| "scope_exec (OpRotation dead r) st = run_rotation (\<lambda>c. c \<notin> set dead) r st"
| "scope_exec (OpCancelScope dead f) st =
     (if f < length (st_scopes st)
      then case collect (\<lambda>c. c \<notin> set dead) f st of (is, st') \<Rightarrow> Some (cancel_scoped is st') else None)"
| "scope_exec (OpCloseScope f) st =
     (if f < length (st_scopes st)
      then Some (close_gen (sc_current (scope_of st f)) (set_scope f (scope_close (scope_of st f)) st)) else None)"
| "scope_exec (OpScopedEnd i) st =
     (if i \<in> set (admitted_ids st) then Some (st\<lparr>st_ended := i # st_ended st\<rparr>) else None)"

definition scope_init :: "scope_store \<Rightarrow> bool" where "scope_init st \<longleftrightarrow> st = scope_store_new"

definition scope_step :: "scope_store \<Rightarrow> scope_store \<Rightarrow> bool" where
  "scope_step st st' \<longleftrightarrow> (\<exists>op. scope_exec op st = Some st')"

fun scope_run :: "scope_op list \<Rightarrow> scope_store \<Rightarrow> scope_store option" where
  "scope_run [] st = Some st"
| "scope_run (op # ops) st = (case scope_exec op st of None \<Rightarrow> None | Some st' \<Rightarrow> scope_run ops st')"

end
