(* ===== verification/BB_Scope_Props.thy ===== *)
theory BB_Scope_Props
  imports BB_Scope
begin

text \<open>
  What holds of scopes in every interleaving: admission never goes back to an older generation, a
  strict rotation has waited for everything the old generation admitted, at most one rotation of a
  family runs and none fails; and a history in which a strict rotation leaves work of a child scope
  running.
\<close>

section \<open>The store\<close>

abbreviation scope_count :: "scope_store \<Rightarrow> nat" where "scope_count st \<equiv> length (st_scopes st)"
abbreviation gen_count :: "scope_store \<Rightarrow> nat" where "gen_count st \<equiv> length (st_generations st)"
abbreviation rot_count :: "scope_store \<Rightarrow> nat" where "rot_count st \<equiv> length (st_rotations st)"
abbreviation fam :: "scope_store \<Rightarrow> scope_id \<Rightarrow> nat" where "fam st g \<equiv> st_family st ! g"
abbreviation rot_of :: "scope_store \<Rightarrow> nat \<Rightarrow> rotation" where "rot_of st r \<equiv> st_rotations st ! r"

lemma set_scope_simps [simp]:
  "st_scopes (set_scope f s st) = (st_scopes st)[f := s]" "st_generations (set_scope f s st) = st_generations st"
  "st_family (set_scope f s st) = st_family st" "st_rotations (set_scope f s st) = st_rotations st"
  "st_admitted (set_scope f s st) = st_admitted st" "st_ended (set_scope f s st) = st_ended st"
  by (simp_all add: set_scope_def)

lemma set_gen_simps [simp]:
  "st_generations (set_gen g core st) = (st_generations st)[g := core]" "st_scopes (set_gen g core st) = st_scopes st"
  "st_family (set_gen g core st) = st_family st" "st_rotations (set_gen g core st) = st_rotations st"
  "st_admitted (set_gen g core st) = st_admitted st" "st_ended (set_gen g core st) = st_ended st"
  by (simp_all add: set_gen_def)

lemma set_rot_simps [simp]:
  "st_generations (set_rot r pc st) = st_generations st" "st_scopes (set_rot r pc st) = st_scopes st"
  "st_family (set_rot r pc st) = st_family st"
  "st_rotations (set_rot r pc st) = (st_rotations st)[r := (rot_of st r)\<lparr>rot_pc := pc\<rparr>]"
  "st_admitted (set_rot r pc st) = st_admitted st" "st_ended (set_rot r pc st) = st_ended st"
  by (simp_all add: set_rot_def)

lemma cancel_scoped_simps [simp]:
  "st_generations (cancel_scoped is st) = st_generations st" "st_scopes (cancel_scoped is st) = st_scopes st"
  "st_family (cancel_scoped is st) = st_family st" "st_rotations (cancel_scoped is st) = st_rotations st"
  "st_admitted (cancel_scoped is st) = st_admitted st" "st_ended (cancel_scoped is st) = st_ended st"
  by (simp_all add: cancel_scoped_def)

section \<open>The invariant\<close>

definition unfinished :: "rotation \<Rightarrow> bool" where
  "unfinished p \<longleftrightarrow> (\<forall>outcome. rot_pc p \<noteq> RotationDone outcome)"

text \<open>What a strict supervisor still waits for among the executions of the old generation.\<close>

primrec own_of :: "rotation_pc \<Rightarrow> execution_id list option" where
  "own_of RotationStart = None"
| "own_of (RotationChildren own children) = Some own"
| "own_of (RotationChildControls own is children) = Some own"
| "own_of (RotationChildWait own i is children) = Some own"
| "own_of (RotationOwnWait own) = Some own"
| "own_of RotationDecide = Some []"
| "own_of (RotationDone outcome) = None"

definition shape_ok :: "scope_store \<Rightarrow> bool" where
  "shape_ok st \<longleftrightarrow> length (st_family st) = gen_count st
   \<and> (\<forall>g < gen_count st. fam st g < scope_count st)
   \<and> (\<forall>f < scope_count st. sc_current (scope_of st f) < gen_count st \<and> fam st (sc_current (scope_of st f)) = f)"

definition numbers_ok :: "scope_store \<Rightarrow> bool" where
  "numbers_ok st \<longleftrightarrow>
     (\<forall>g < gen_count st. gen_number (gen_of st g) < sc_next_generation (scope_of st (fam st g)))
   \<and> (\<forall>g g'. g < g' \<and> g' < gen_count st \<and> fam st g = fam st g' \<longrightarrow> gen_number (gen_of st g) < gen_number (gen_of st g'))"

definition admitted_ok :: "scope_store \<Rightarrow> bool" where
  "admitted_ok st \<longleftrightarrow> (\<forall>i g. (i, g) \<in> set (st_admitted st) \<longrightarrow> g < gen_count st \<and> g \<le> sc_current (scope_of st (fam st g))
     \<and> (i \<notin> set (st_ended st) \<longrightarrow> i \<in> set (gen_controls (gen_of st g))))"

definition rotation_ok :: "scope_store \<Rightarrow> rotation \<Rightarrow> bool" where
  "rotation_ok st p \<longleftrightarrow>
     rot_family p < scope_count st \<and> rot_old p < rot_new p \<and> rot_new p < gen_count st
   \<and> fam st (rot_old p) = rot_family p \<and> fam st (rot_new p) = rot_family p
   \<and> rot_pc p \<noteq> RotationDone RotationFailed
   \<and> (unfinished p \<longrightarrow>
        sc_rotating (scope_of st (rot_family p)) \<and> sc_rotation_ticket (scope_of st (rot_family p)) = rot_ticket p
      \<and> sc_current (scope_of st (rot_family p)) = (if rot_policy p = RotateStrict then rot_old p else rot_new p)
      \<and> \<not> gen_open (gen_of st (rot_old p))
      \<and> (\<forall>own i. rot_policy p = RotateStrict \<and> own_of (rot_pc p) = Some own \<and> (i, rot_old p) \<in> set (st_admitted st)
           \<and> i \<notin> set (st_ended st) \<longrightarrow> i \<in> set own))"

definition rotations_ok :: "scope_store \<Rightarrow> bool" where
  "rotations_ok st \<longleftrightarrow> (\<forall>r < rot_count st. rotation_ok st (rot_of st r))
   \<and> (\<forall>r r'. r < rot_count st \<and> r' < rot_count st \<and> unfinished (rot_of st r) \<and> unfinished (rot_of st r')
        \<and> rot_family (rot_of st r) = rot_family (rot_of st r') \<longrightarrow> r = r')"

definition strict_family :: "scope_store \<Rightarrow> nat \<Rightarrow> bool" where
  "strict_family st f \<longleftrightarrow> (\<forall>r < rot_count st. rot_family (rot_of st r) = f \<longrightarrow> rot_policy (rot_of st r) = RotateStrict)"

definition drained_ok :: "scope_store \<Rightarrow> bool" where
  "drained_ok st \<longleftrightarrow> (\<forall>i g. (i, g) \<in> set (st_admitted st) \<and> strict_family st (fam st g)
     \<and> g \<noteq> sc_current (scope_of st (fam st g)) \<longrightarrow> i \<in> set (st_ended st))"

definition scope_inv :: "scope_store \<Rightarrow> bool" where
  "scope_inv st \<longleftrightarrow> shape_ok st \<and> numbers_ok st \<and> admitted_ok st \<and> rotations_ok st \<and> drained_ok st"

section \<open>Closing\<close>

text \<open>A step that closes scopes and generations and changes nothing else the invariant reads.\<close>

definition closes :: "scope_store \<Rightarrow> scope_store \<Rightarrow> bool" where
  "closes st st' \<longleftrightarrow> scope_count st' = scope_count st \<and> gen_count st' = gen_count st \<and> st_family st' = st_family st
   \<and> st_rotations st' = st_rotations st \<and> st_admitted st' = st_admitted st \<and> st_ended st' = st_ended st
   \<and> (\<forall>f < scope_count st. \<exists>b. scope_of st' f = (scope_of st f)\<lparr>sc_closed := b\<rparr> \<and> (sc_closed (scope_of st f) \<longrightarrow> b))
   \<and> (\<forall>g < gen_count st. \<exists>b. gen_of st' g = (gen_of st g)\<lparr>gen_open := b\<rparr> \<and> (b \<longrightarrow> gen_open (gen_of st g)))"

lemma same_scope [simp]: "\<exists>b. s = s\<lparr>sc_closed := b\<rparr> \<and> (sc_closed s \<longrightarrow> b)" for s :: scope_state
  by (rule exI [of _ "sc_closed s"]) simp

lemma same_gen [simp]: "\<exists>b. core = core\<lparr>gen_open := b\<rparr> \<and> (b \<longrightarrow> gen_open core)" for core :: generation
  by (rule exI [of _ "gen_open core"]) simp

lemma closes_refl [simp]: "closes st st"
  by (simp add: closes_def)

lemma closes_trans:
  assumes "closes st st'" and "closes st' st''"
  shows "closes st st''"
proof -
  have "\<exists>b. scope_of st'' f = (scope_of st f)\<lparr>sc_closed := b\<rparr> \<and> (sc_closed (scope_of st f) \<longrightarrow> b)" if "f < scope_count st" for f
  proof -
    from assms(1) that obtain b where b: "scope_of st' f = (scope_of st f)\<lparr>sc_closed := b\<rparr>" "sc_closed (scope_of st f) \<longrightarrow> b"
      unfolding closes_def by blast
    moreover from assms that obtain b' where "scope_of st'' f = (scope_of st' f)\<lparr>sc_closed := b'\<rparr>" "sc_closed (scope_of st' f) \<longrightarrow> b'"
      unfolding closes_def by metis
    ultimately show ?thesis by (intro exI [of _ b']) simp
  qed
  moreover have "\<exists>b. gen_of st'' g = (gen_of st g)\<lparr>gen_open := b\<rparr> \<and> (b \<longrightarrow> gen_open (gen_of st g))" if "g < gen_count st" for g
  proof -
    from assms(1) that obtain b where "gen_of st' g = (gen_of st g)\<lparr>gen_open := b\<rparr>" "b \<longrightarrow> gen_open (gen_of st g)"
      unfolding closes_def by blast
    moreover from assms that obtain b' where "gen_of st'' g = (gen_of st' g)\<lparr>gen_open := b'\<rparr>" "b' \<longrightarrow> gen_open (gen_of st' g)"
      unfolding closes_def by metis
    ultimately show ?thesis by (intro exI [of _ b']) simp
  qed
  ultimately show ?thesis using assms by (simp add: closes_def)
qed

lemma closes_gen: "closes st (close_gen g st)"
proof (cases "g < gen_count st")
  case True
  then show ?thesis by (auto simp: closes_def close_gen_def nth_list_update)
qed (simp add: closes_def close_gen_def list_update_beyond)

lemma closes_scope: "closes st (set_scope f (scope_close (scope_of st f)) st)"
proof (cases "f < scope_count st")
  case True
  then show ?thesis by (auto simp: closes_def scope_close_def nth_list_update)
qed (simp add: closes_def list_update_beyond)

lemma closes_collect: "closes st (snd (collect_scope_controls depth alive close f st))"
proof (induction depth arbitrary: f st)
  case (Suc depth)
  let ?st1 = "if close then close_gen (sc_current (scope_of st f)) (set_scope f (scope_close (scope_of st f)) st) else st"
  have start: "closes st ?st1" using closes_trans [OF closes_scope closes_gen] by simp
  have "closes st (snd (fold (\<lambda>c (is, st'). let (js, st'') = collect_scope_controls depth alive close c st' in (is @ js, st''))
      cs acc))" if "closes st (snd acc)" for cs acc
    using that
  proof (induction cs arbitrary: acc)
    case (Cons c cs)
    have "closes st (snd (collect_scope_controls depth alive close c (snd acc)))"
      using closes_trans [OF Cons.prems Suc.IH] .
    with Cons.IH show ?case
      by (cases acc; cases "collect_scope_controls depth alive close c (snd acc)") simp
  qed simp
  from this [of "(gen_controls (gen_of ?st1 (sc_current (scope_of st f))), ?st1)"] start show ?case
    by (simp add: Let_def del: collect_scope_controls.simps add: collect_scope_controls.simps(2))
qed simp

lemma scope_inv_closes:
  assumes "scope_inv st" and "closes st st'"
  shows "scope_inv st'"
proof -
  have scopes: "sc_current (scope_of st' f) = sc_current (scope_of st f)"
    "sc_next_generation (scope_of st' f) = sc_next_generation (scope_of st f)"
    "sc_rotating (scope_of st' f) = sc_rotating (scope_of st f)"
    "sc_rotation_ticket (scope_of st' f) = sc_rotation_ticket (scope_of st f)" if "f < scope_count st" for f
    using assms(2) that unfolding closes_def by force+
  have gens: "gen_number (gen_of st' g) = gen_number (gen_of st g)" "gen_controls (gen_of st' g) = gen_controls (gen_of st g)"
    "gen_open (gen_of st' g) \<Longrightarrow> gen_open (gen_of st g)" if "g < gen_count st" for g
    using assms(2) that unfolding closes_def by force+
  have same: "scope_count st' = scope_count st" "gen_count st' = gen_count st" "st_family st' = st_family st"
    "st_rotations st' = st_rotations st" "st_admitted st' = st_admitted st" "st_ended st' = st_ended st"
    using assms(2) unfolding closes_def by blast+
  have inv: "shape_ok st" "numbers_ok st" "admitted_ok st" "rotations_ok st" "drained_ok st"
    using assms(1) by (simp_all add: scope_inv_def)
  have shape: "g < gen_count st \<Longrightarrow> fam st g < scope_count st" for g using inv(1) by (simp add: shape_ok_def)
  have "shape_ok st'" using inv(1) by (simp add: shape_ok_def same scopes)
  moreover have "numbers_ok st'" using inv(2) by (simp add: numbers_ok_def same scopes gens shape)
  moreover have "admitted_ok st'" using inv(3) shape by (auto simp: admitted_ok_def same scopes gens)
  moreover have "rotation_ok st' p" if "rotation_ok st p" for p
    using that gens(3) [of "rot_old p"] by (auto simp: rotation_ok_def same scopes)
  then have "rotations_ok st'" using inv(4) by (simp add: rotations_ok_def same)
  moreover have "drained_ok st'"
    unfolding drained_ok_def
  proof (intro allI impI, elim conjE)
    fix i g assume mem: "(i, g) \<in> set (st_admitted st')" and strict: "strict_family st' (fam st' g)"
      and old: "g \<noteq> sc_current (scope_of st' (fam st' g))"
    have "g < gen_count st" using mem inv(3) by (simp add: admitted_ok_def same)
    with old have "g \<noteq> sc_current (scope_of st (fam st g))" using shape by (simp add: same scopes)
    with mem strict inv(5) show "i \<in> set (st_ended st')" unfolding drained_ok_def strict_family_def same by blast
  qed
  ultimately show ?thesis by (simp add: scope_inv_def)
qed

section \<open>The other changes\<close>

lemma drainedD:
  "\<lbrakk>drained_ok st; (i, g) \<in> set (st_admitted st); strict_family st (fam st g); g \<noteq> sc_current (scope_of st (fam st g))\<rbrakk>
   \<Longrightarrow> i \<in> set (st_ended st)"
  unfolding drained_ok_def by blast

lemma scope_inv_unfold:
  assumes "scope_inv st"
  shows "shape_ok st" "numbers_ok st" "admitted_ok st" "rotations_ok st" "drained_ok st"
  using assms by (simp_all add: scope_inv_def)

lemma scope_inv_set_gen:
  assumes inv: "scope_inv st" and g: "g < gen_count st" and number: "gen_number core = gen_number (gen_of st g)"
    and open_gen: "gen_open core \<longrightarrow> gen_open (gen_of st g)"
    and controls: "\<And>i. i \<in> set (gen_controls (gen_of st g)) \<Longrightarrow> i \<notin> set (st_ended st) \<Longrightarrow> i \<in> set (gen_controls core)"
  shows "scope_inv (set_gen g core st)"
proof -
  note inv = scope_inv_unfold [OF inv]
  have num: "gen_number ((st_generations st)[g := core] ! h) = gen_number (gen_of st h)" for h
    using g number by (cases "h = g") simp_all
  have "shape_ok (set_gen g core st)" using inv(1) by (simp add: shape_ok_def)
  moreover have "numbers_ok (set_gen g core st)" using inv(2) by (simp add: numbers_ok_def num)
  moreover have "admitted_ok (set_gen g core st)"
    using inv(3) g controls by (auto simp: admitted_ok_def nth_list_update)
  moreover have "rotation_ok (set_gen g core st) p" if "rotation_ok st p" for p
    using that open_gen g by (auto simp: rotation_ok_def nth_list_update)
  then have "rotations_ok (set_gen g core st)" using inv(4) by (simp add: rotations_ok_def)
  moreover have "drained_ok (set_gen g core st)" using inv(5) by (simp add: drained_ok_def strict_family_def)
  ultimately show ?thesis by (simp add: scope_inv_def)
qed

lemma scope_inv_admit:
  assumes inv: "scope_inv st" and g: "g < gen_count st" and current: "sc_current (scope_of st (fam st g)) = g"
    and open_gen: "gen_open (gen_of st g)" and controls: "i \<in> set (gen_controls (gen_of st g))"
  shows "scope_inv (st\<lparr>st_admitted := (i, g) # st_admitted st\<rparr>)" (is "scope_inv ?st")
proof -
  note inv = scope_inv_unfold [OF inv]
  have "rotation_ok ?st p" if "rotation_ok st p" for p
    using that open_gen by (auto simp: rotation_ok_def)
  then have "rotations_ok ?st" using inv(4) by (simp add: rotations_ok_def)
  moreover have "drained_ok ?st" using inv(5) current by (auto simp: drained_ok_def strict_family_def)
  ultimately show ?thesis
    using inv(1-3) g current controls by (auto simp: scope_inv_def shape_ok_def numbers_ok_def admitted_ok_def)
qed

lemma scope_inv_end:
  assumes inv: "scope_inv st"
  shows "scope_inv (st\<lparr>st_ended := i # st_ended st\<rparr>)" (is "scope_inv ?st")
proof -
  note inv = scope_inv_unfold [OF inv]
  have "rotation_ok ?st p" if "rotation_ok st p" for p using that by (auto simp: rotation_ok_def)
  then have "rotations_ok ?st" using inv(4) by (simp add: rotations_ok_def)
  moreover have "drained_ok ?st" using inv(5) by (auto simp: drained_ok_def strict_family_def)
  ultimately show ?thesis using inv(1-3) by (auto simp: scope_inv_def shape_ok_def numbers_ok_def admitted_ok_def)
qed

lemma scope_inv_cancel: "scope_inv st \<Longrightarrow> scope_inv (cancel_scoped is st)"
  by (simp add: scope_inv_def shape_ok_def numbers_ok_def admitted_ok_def rotations_ok_def rotation_ok_def drained_ok_def
      strict_family_def)

text \<open>A supervisor moves on; what is left to wait for covers what still runs.\<close>

lemma scope_inv_set_rot:
  assumes inv: "scope_inv st" and r: "r < rot_count st" and un: "unfinished (rot_of st r)" and "unfinished p"
    and same: "rot_family p = rot_family (rot_of st r)" "rot_old p = rot_old (rot_of st r)" "rot_new p = rot_new (rot_of st r)"
      "rot_ticket p = rot_ticket (rot_of st r)" "rot_policy p = rot_policy (rot_of st r)"
    and own: "\<And>own i. \<lbrakk>rot_policy p = RotateStrict; own_of (rot_pc p) = Some own;
      (i, rot_old p) \<in> set (st_admitted st); i \<notin> set (st_ended st)\<rbrakk> \<Longrightarrow> i \<in> set own"
  shows "scope_inv (st\<lparr>st_rotations := (st_rotations st)[r := p]\<rparr>)" (is "scope_inv ?st")
proof -
  note inv = scope_inv_unfold [OF inv]
  have ok: "rotation_ok ?st q" if "rotation_ok st q" for q using that by (simp add: rotation_ok_def)
  have "rotation_ok st (rot_of st r)" using inv(4) r by (simp add: rotations_ok_def)
  then have p: "rotation_ok ?st p" using un \<open>unfinished p\<close> same own by (simp add: rotation_ok_def unfinished_def)
  have each: "unfinished ((st_rotations st)[r := p] ! q) = unfinished (rot_of st q)"
    "rot_family ((st_rotations st)[r := p] ! q) = rot_family (rot_of st q)" for q
    using r un \<open>unfinished p\<close> same(1) by (cases "q = r"; simp)+
  have "rotation_ok ?st ((st_rotations st)[r := p] ! q)" if "q < rot_count st" for q
    using inv(4) ok p r that by (cases "q = r") (simp_all add: rotations_ok_def)
  moreover have "a = b" if "a < rot_count st" "b < rot_count st" "unfinished (rot_of st a)" "unfinished (rot_of st b)"
    "rot_family (rot_of st a) = rot_family (rot_of st b)" for a b
    using inv(4) that unfolding rotations_ok_def by blast
  ultimately have "rotations_ok ?st" unfolding rotations_ok_def by (simp add: each)
  moreover have "strict_family ?st f = strict_family st f" for f
    using r same(1,5) by (auto simp: strict_family_def nth_list_update)
  then have "drained_ok ?st" using inv(5) by (simp add: drained_ok_def)
  ultimately show ?thesis using inv(1-3) by (simp add: scope_inv_def shape_ok_def numbers_ok_def admitted_ok_def)
qed

text \<open>The flag of \<open>cancel_pending_new\<close>.\<close>

lemma scope_inv_flag:
  assumes inv: "scope_inv st" and r: "r < rot_count st"
  shows "scope_inv (st\<lparr>st_rotations := (st_rotations st)[r := (rot_of st r)\<lparr>rot_cancelled := True\<rparr>]\<rparr>)" (is "scope_inv ?st")
proof -
  note inv = scope_inv_unfold [OF inv]
  let ?rots = "(st_rotations st)[r := (rot_of st r)\<lparr>rot_cancelled := True\<rparr>]"
  have each: "rotation_ok ?st (?rots ! q) = rotation_ok st (rot_of st q)" "unfinished (?rots ! q) = unfinished (rot_of st q)"
    "rot_family (?rots ! q) = rot_family (rot_of st q)" "rot_policy (?rots ! q) = rot_policy (rot_of st q)" for q
    using r by (cases "q = r"; simp add: rotation_ok_def unfinished_def)+
  have "rotations_ok ?st" using inv(4) unfolding rotations_ok_def by (simp add: each)
  moreover have "drained_ok ?st" using inv(5) by (simp add: drained_ok_def strict_family_def each)
  ultimately show ?thesis using inv(1-3) by (simp add: scope_inv_def shape_ok_def numbers_ok_def admitted_ok_def)
qed

lemma scope_inv_new_scope: "scope_inv st \<Longrightarrow> scope_inv (snd (new_scope st))"
proof -
  assume "scope_inv st"
  note inv = scope_inv_unfold [OF this]
  let ?st = "snd (new_scope st)"
  have st: "st_scopes ?st = st_scopes st @ [scope_state_new (gen_count st)]" "st_generations ?st = st_generations st @ [generation_new 1]"
    "st_family ?st = st_family st @ [scope_count st]" "st_rotations ?st = st_rotations st" "st_admitted ?st = st_admitted st"
    "st_ended ?st = st_ended st" by (simp_all add: new_scope_def Let_def)
  have len: "length (st_family st) = gen_count st" and fam: "g < gen_count st \<Longrightarrow> fam st g < scope_count st" for g
    using inv(1) by (simp_all add: shape_ok_def)
  have "shape_ok ?st" using inv(1) by (auto simp: shape_ok_def st nth_append scope_state_new_def less_Suc_eq)
  moreover have "numbers_ok ?st"
    using inv(2) len fam by (auto simp: numbers_ok_def st nth_append scope_state_new_def generation_new_def less_Suc_eq dest: fam)
  moreover have "admitted_ok ?st" using inv(3) len fam by (auto simp: admitted_ok_def st nth_append less_SucI)
  moreover have "rotation_ok ?st p" if "rotation_ok st p" for p
    using that len by (auto simp: rotation_ok_def st nth_append)
  then have "rotations_ok ?st" using inv(4) by (simp add: rotations_ok_def st)
  moreover have "drained_ok ?st"
    unfolding drained_ok_def
  proof (intro allI impI, elim conjE)
    fix i g assume mem: "(i, g) \<in> set (st_admitted ?st)" and strict: "strict_family ?st (fam ?st g)"
      and old: "g \<noteq> sc_current (scope_of ?st (fam ?st g))"
    have g: "g < gen_count st" using mem inv(3) by (simp add: admitted_ok_def st)
    then have "fam ?st g = fam st g" "scope_of ?st (fam st g) = scope_of st (fam st g)"
      using len fam by (simp_all add: st nth_append)
    with mem strict old drainedD [OF inv(5), of i g] show "i \<in> set (st_ended ?st)"
      by (simp add: st strict_family_def)
  qed
  ultimately show ?thesis by (simp add: scope_inv_def)
qed

text \<open>The start of a rotation.\<close>

lemma scope_rotate_accepted:
  assumes "scope_rotate joins policy new core s = Inr (ticket, core', fresh, s')"
  shows "\<not> sc_rotating s \<and> core' = core\<lparr>gen_open := False\<rparr> \<and> fresh = generation_new (sc_next_generation s)
    \<and> sc_next_generation s < sc_next_generation s'
    \<and> sc_rotating s' \<and> sc_rotation_ticket s' = ticket
    \<and> sc_current s' = (if policy = RotateAvailabilityFirst then new else sc_current s)"
  using assms unat_succ_word [of "sc_next_generation s"]
  by (auto simp: scope_rotate_def checked_add_def word_less_nat_alt split: if_splits option.splits)

lemma scope_inv_rotate:
  assumes inv: "scope_inv st" and f: "f < scope_count st"
  shows "scope_inv (do_rotate joins f policy st)"
proof -
  let ?old = "sc_current (scope_of st f)" and ?new = "gen_count st"
  show ?thesis
  proof (cases "scope_rotate joins policy ?new (gen_of st ?old) (scope_of st f)")
    case (Inl error)
    with inv show ?thesis by (simp add: do_rotate_def Let_def)
  next
    case (Inr x)
    obtain ticket core fresh s where x: "x = (ticket, core, fresh, s)" by (cases x)
    note acc = scope_rotate_accepted [OF Inr [unfolded x]]
    let ?st = "do_rotate joins f policy st"
    let ?p = "\<lparr>rot_family = f, rot_old = ?old, rot_new = ?new, rot_ticket = ticket, rot_policy = policy,
      rot_cancelled = False, rot_pc = RotationStart\<rparr>"
    have st: "st_scopes ?st = (st_scopes st)[f := s]" "st_generations ?st = (st_generations st)[?old := core] @ [fresh]"
      "st_family ?st = st_family st @ [f]" "st_rotations ?st = st_rotations st @ [?p]" "st_admitted ?st = st_admitted st"
      "st_ended ?st = st_ended st" by (simp_all add: do_rotate_def Let_def Inr x)
    note inv = scope_inv_unfold [OF inv]
    have len: "length (st_family st) = gen_count st" and fam: "\<And>g. g < gen_count st \<Longrightarrow> fam st g < scope_count st"
      and old: "?old < gen_count st" "fam st ?old = f"
      using inv(1) f by (simp_all add: shape_ok_def)
    have num: "gen_number ((st_generations st)[?old := core] ! g) = gen_number (gen_of st g)" for g
      using acc old by (cases "g = ?old") simp_all
    have scope: "scope_of ?st h = (if h = f then s else scope_of st h)" for h using f by (simp add: st nth_list_update)
    have famst: "fam ?st g = fam st g" if "g < gen_count st" for g
      using len that by (simp add: st nth_append)
    have current: "sc_current s = (if policy = RotateAvailabilityFirst then ?new else ?old)" using acc by simp
    have counts: "scope_count ?st = scope_count st" "gen_count ?st = Suc (gen_count st)" by (simp_all add: st)
    have shape: "sc_current (scope_of st h) < gen_count st" "fam st (sc_current (scope_of st h)) = h" if "h < scope_count st" for h
      using inv(1) that by (simp_all add: shape_ok_def)
    have new_fam: "fam ?st ?new = f" using len by (simp add: st nth_append)
    have "shape_ok ?st"
      unfolding shape_ok_def counts
    proof (intro conjI allI impI)
      show "length (st_family ?st) = Suc (gen_count st)" by (simp add: st len)
      show "fam ?st g < scope_count st" if "g < Suc (gen_count st)" for g
        using that fam f new_fam by (cases "g = ?new") (simp_all add: famst)
      fix h assume h: "h < scope_count st"
      have "sc_current (scope_of ?st h) = (if h = f then sc_current s else sc_current (scope_of st h))" by (simp add: scope)
      then consider "sc_current (scope_of ?st h) = ?new" "h = f" | "sc_current (scope_of ?st h) = sc_current (scope_of st h)"
        using current by (metis (full_types))
      then show "sc_current (scope_of ?st h) < Suc (gen_count st)" "fam ?st (sc_current (scope_of ?st h)) = h"
        using shape [OF h] new_fam famst by (cases; simp add: less_SucI)+
    qed
    moreover have "numbers_ok ?st"
    proof -
      have below: "gen_number (gen_of st g) < sc_next_generation (scope_of st (fam st g))" if "g < gen_count st" for g
        using inv(2) that by (simp add: numbers_ok_def)
      have fresh: "gen_number fresh = sc_next_generation (scope_of st f)" using acc by (simp add: generation_new_def)
      have gens: "gen_number (gen_of ?st g) = (if g < gen_count st then gen_number (gen_of st g) else gen_number fresh)"
        if "g < gen_count ?st" for g using that by (auto simp: st nth_append num less_Suc_eq)
      have "gen_number (gen_of ?st g) < sc_next_generation (scope_of ?st (fam ?st g))" if g: "g < gen_count ?st" for g
      proof (cases "g < gen_count st")
        case True
        with below [OF True] acc g show ?thesis by (auto simp: gens famst scope)
      next
        case False
        with g have "g = gen_count st" by (simp add: st)
        with g acc fresh new_fam show ?thesis by (simp add: gens scope)
      qed
      moreover have "gen_number (gen_of ?st g) < gen_number (gen_of ?st g')"
        if gg: "g < g'" "g' < gen_count ?st" "fam ?st g = fam ?st g'" for g g'
      proof (cases "g' < gen_count st")
        case True
        with gg inv(2) show ?thesis by (simp add: gens famst numbers_ok_def)
      next
        case False
        with gg have "g' = gen_count st" "g < gen_count st" by (simp_all add: st)
        with gg below [of g] fresh new_fam show ?thesis by (simp add: gens famst)
      qed
      ultimately show ?thesis unfolding numbers_ok_def by blast
    qed
    moreover have "admitted_ok ?st"
      unfolding admitted_ok_def
    proof (intro allI impI)
      fix i g assume "(i, g) \<in> set (st_admitted ?st)"
      with inv(3) have g: "g < gen_count st" "g \<le> sc_current (scope_of st (fam st g))"
        "i \<notin> set (st_ended st) \<longrightarrow> i \<in> set (gen_controls (gen_of st g))" by (simp_all add: admitted_ok_def st)
      moreover have "gen_controls (gen_of ?st g) = gen_controls (gen_of st g)"
        using g(1) acc by (cases "g = ?old") (simp_all add: st nth_append)
      ultimately show "g < gen_count ?st \<and> g \<le> sc_current (scope_of ?st (fam ?st g))
          \<and> (i \<notin> set (st_ended ?st) \<longrightarrow> i \<in> set (gen_controls (gen_of ?st g)))"
        using current by (auto simp: scope famst counts st(6))
    qed
    moreover have "rotations_ok ?st"
    proof -
      have no: "rot_family (rot_of st r) \<noteq> f" if "r < rot_count st" "unfinished (rot_of st r)" for r
        using inv(4) acc that by (auto simp: rotations_ok_def rotation_ok_def)
      have p: "rotation_ok ?st ?p"
      proof -
        have "gen_of ?st ?old = core" using old(1) by (simp add: st nth_append)
        moreover have "scope_of ?st f = s" by (simp add: scope)
        moreover have "fam ?st ?old = f" using famst old by simp
        ultimately show ?thesis using f old(1) acc new_fam counts by (cases policy) (simp_all add: rotation_ok_def)
      qed
      have keep: "rotation_ok ?st (rot_of st r)" if r: "r < rot_count st" for r
      proof -
        have ok: "rotation_ok st (rot_of st r)" using inv(4) r by (simp add: rotations_ok_def)
        have "gen_open (gen_of ?st (rot_old (rot_of st r))) \<longrightarrow> gen_open (gen_of st (rot_old (rot_of st r)))"
          using ok acc by (cases "rot_old (rot_of st r) = ?old") (auto simp: st nth_append rotation_ok_def)
        with ok no [OF r] show ?thesis by (auto simp: rotation_ok_def scope famst counts st(5,6))
      qed
      have nth: "rot_of ?st r = (if r < rot_count st then rot_of st r else ?p)" if "r < Suc (rot_count st)" for r
        using that by (auto simp: st nth_append less_Suc_eq)
      have count: "rot_count ?st = Suc (rot_count st)" by (simp add: st)
      have fp: "rot_family ?p = f" by simp
      have unique: "a = b" if "a < Suc (rot_count st)" "b < Suc (rot_count st)" "unfinished (rot_of ?st a)" "unfinished (rot_of ?st b)"
        "rot_family (rot_of ?st a) = rot_family (rot_of ?st b)" for a b
      proof (cases "a < rot_count st"; cases "b < rot_count st")
        assume "a < rot_count st" "b < rot_count st"
        with that inv(4) show ?thesis unfolding rotations_ok_def by (simp add: nth)
      qed (use that no fp in \<open>auto simp: nth\<close>)
      have "rotation_ok ?st (rot_of ?st r)" if "r < Suc (rot_count st)" for r
        using keep p that by (simp add: nth)
      then show ?thesis unfolding rotations_ok_def count using unique by blast
    qed
    moreover have "drained_ok ?st"
      unfolding drained_ok_def
    proof (intro allI impI, elim conjE)
      fix i g assume mem: "(i, g) \<in> set (st_admitted ?st)" and strict: "strict_family ?st (fam ?st g)"
        and older: "g \<noteq> sc_current (scope_of ?st (fam ?st g))"
      have g: "g < gen_count st" using mem inv(3) by (simp add: admitted_ok_def st)
      then have famg: "fam ?st g = fam st g" by (simp add: famst)
      have sub: "strict_family st (fam st g)"
        using strict unfolding strict_family_def famg by (auto simp: st nth_append split: if_splits)
      have "policy = RotateStrict" if "fam st g = f"
        using strict that unfolding strict_family_def famg by (auto simp: st nth_append dest: spec [of _ "rot_count st"])
      with older have "g \<noteq> sc_current (scope_of st (fam st g))"
        using current g by (auto simp: famg scope split: if_splits)
      with mem sub drainedD [OF inv(5), of i g] show "i \<in> set (st_ended ?st)" by (simp add: st)
    qed
    ultimately show ?thesis by (simp add: scope_inv_def)
  qed
qed

text \<open>The end of a rotation.\<close>

lemma scope_inv_finish:
  assumes inv: "scope_inv st" and r: "r < rot_count st" and pc: "rot_pc (rot_of st r) = RotationDecide"
  shows "scope_inv (rotation_finish r st)"
proof -
  let ?p = "rot_of st r"
  let ?f = "rot_family ?p"
  note inv' = scope_inv_unfold [OF inv]
  have un: "unfinished ?p" using pc by (simp add: unfinished_def)
  have ok: "rotation_ok st ?p" using inv'(4) r by (simp add: rotations_ok_def)
  have f: "?f < scope_count st" and new: "rot_old ?p < rot_new ?p" "rot_new ?p < gen_count st" "fam st (rot_new ?p) = ?f"
    "fam st (rot_old ?p) = ?f"
    and ticket: "sc_rotation_ticket (scope_of st ?f) = rot_ticket ?p"
    and current: "sc_current (scope_of st ?f) = (if rot_policy ?p = RotateStrict then rot_old ?p else rot_new ?p)"
    using ok un by (simp_all add: rotation_ok_def)
  define outcome where "outcome = (if rot_cancelled ?p then RotationCancelled (rot_old ?p) (rot_new ?p)
    else Rotated (rot_old ?p) (rot_new ?p))"
  define st1 where "st1 = (if rot_cancelled ?p then close_gen (rot_new ?p) st else st)"
  define s where "s = (if rot_cancelled ?p then (scope_of st ?f)\<lparr>sc_closed := True, sc_rotating := False\<rparr>
    else (scope_of st ?f)\<lparr>sc_current := (if rot_policy ?p = RotateStrict then rot_new ?p else sc_current (scope_of st ?f)),
      sc_rotating := False\<rparr>)"
  have finish: "rotation_finish r st = set_rot r (RotationDone outcome) (set_scope ?f s st1)"
    using ticket by (simp add: rotation_finish_def rotation_decision_def Let_def outcome_def s_def st1_def)
  have "closes st st1" by (simp add: st1_def closes_gen)
  with inv have inv1: "scope_inv st1" by (rule scope_inv_closes)
  note inv1' = scope_inv_unfold [OF inv1]
  have same: "st_scopes st1 = st_scopes st" "st_rotations st1 = st_rotations st" "st_admitted st1 = st_admitted st"
    "st_ended st1 = st_ended st" "st_family st1 = st_family st" "gen_count st1 = gen_count st"
    by (simp_all add: st1_def close_gen_def)
  let ?st = "rotation_finish r st"
  have st: "st_scopes ?st = (st_scopes st)[?f := s]" "st_rotations ?st = (st_rotations st)[r := ?p\<lparr>rot_pc := RotationDone outcome\<rparr>]"
    "st_admitted ?st = st_admitted st" "st_ended ?st = st_ended st" "st_family ?st = st_family st"
    "st_generations ?st = st_generations st1" by (simp_all add: finish same)
  have scope: "scope_of ?st h = (if h = ?f then s else scope_of st h)" for h using f by (simp add: st nth_list_update)
  have s: "sc_next_generation s = sc_next_generation (scope_of st ?f)"
    "sc_current s = sc_current (scope_of st ?f) \<or> sc_current s = rot_new ?p" "sc_current (scope_of st ?f) \<le> sc_current s"
    using current new(1) by (auto simp: s_def)
  have old_done: "i \<in> set (st_ended st)" if "(i, rot_old ?p) \<in> set (st_admitted st)" "rot_policy ?p = RotateStrict" for i
    using ok un pc that by (auto simp: rotation_ok_def)
  have "shape_ok ?st"
    using inv'(1) f new s(2) by (auto simp: shape_ok_def st(1,5,6) same scope nth_list_update)
  moreover have "numbers_ok ?st"
    using inv1'(2) s(1) by (auto simp: numbers_ok_def st(5,6) scope same)
  moreover have "admitted_ok ?st"
    using inv1'(3) order_trans [OF _ s(3)] by (fastforce simp: admitted_ok_def st(3-6) scope same)
  moreover have "rotations_ok ?st"
  proof -
    have other: "rot_family (rot_of st q) \<noteq> ?f" if "q < rot_count st" "q \<noteq> r" "unfinished (rot_of st q)" for q
      using inv'(4) r un that unfolding rotations_ok_def by blast
    have keep: "rotation_ok ?st (rot_of st q)" if q: "q < rot_count st" "q \<noteq> r" for q
    proof -
      have "rotation_ok st1 (rot_of st q)" using inv1'(4) q by (simp add: rotations_ok_def same)
      with other [OF q] f show ?thesis by (auto simp: rotation_ok_def st same scope)
    qed
    have done_ok: "rotation_ok ?st (?p\<lparr>rot_pc := RotationDone outcome\<rparr>)"
      using ok by (simp add: rotation_ok_def st same unfinished_def outcome_def)
    have un': "unfinished (rot_of ?st q) \<longleftrightarrow> q \<noteq> r \<and> unfinished (rot_of st q)"
      "rot_family (rot_of ?st q) = rot_family (rot_of st q)" if "q < rot_count st" for q
      using r that by (cases "q = r"; simp add: st unfinished_def)+
    have "rotation_ok ?st (rot_of ?st q)" if "q < rot_count st" for q
      using keep done_ok r that by (cases "q = r") (simp_all add: st)
    moreover have "a = b" if "a < rot_count st" "b < rot_count st" "unfinished (rot_of st a)" "unfinished (rot_of st b)"
      "rot_family (rot_of st a) = rot_family (rot_of st b)" for a b
      using inv'(4) that unfolding rotations_ok_def by blast
    moreover have "rot_count ?st = rot_count st" by (simp add: st)
    ultimately show ?thesis unfolding rotations_ok_def using un' by metis
  qed
  moreover have "drained_ok ?st"
    unfolding drained_ok_def
  proof (intro allI impI, elim conjE)
    fix i g assume mem: "(i, g) \<in> set (st_admitted ?st)" and strict: "strict_family ?st (fam ?st g)"
      and older: "g \<noteq> sc_current (scope_of ?st (fam ?st g))"
    have strict: "strict_family st (fam st g)"
      using strict r unfolding strict_family_def by (auto simp: st nth_list_update split: if_splits)
    have mem: "(i, g) \<in> set (st_admitted st)" using mem by (simp add: st)
    show "i \<in> set (st_ended ?st)"
    proof (cases "g = sc_current (scope_of st (fam st g))")
      case False
      from drainedD [OF inv'(5) mem strict False] show ?thesis by (simp add: st)
    next
      case True
      have famf: "fam st g = ?f"
      proof (rule ccontr)
        assume "fam st g \<noteq> ?f"
        with older True show False by (simp add: st(5) scope)
      qed
      then have "rot_policy ?p = RotateStrict" using strict r by (simp add: strict_family_def)
      with True famf current have "g = rot_old ?p" by simp
      with old_done mem \<open>rot_policy ?p = RotateStrict\<close> show ?thesis by (simp add: st)
    qed
  qed
  ultimately show ?thesis by (simp add: scope_inv_def)
qed

section \<open>Steps\<close>

lemma scope_inv_spawn:
  assumes inv: "scope_inv st" and g: "g < gen_count st"
  shows "scope_inv (do_spawn g answer st)"
proof (cases "scope_try_spawn g (gen_of st g) (scope_of st (fam st g)) answer")
  case (Pair result core)
  show ?thesis
  proof (cases result)
    case (Inl error)
    with inv Pair show ?thesis by (simp add: do_spawn_def)
  next
    case (Inr i)
    with Pair have ok: "sc_current (scope_of st (fam st g)) = g" "gen_open (gen_of st g)" "core = track i (gen_of st g)"
      by (auto simp: scope_try_spawn_def check_current_def split: if_splits sum.splits)
    have "scope_inv (set_gen g core st)" by (rule scope_inv_set_gen [OF inv g]) (simp_all add: ok(3) track_def)
    from scope_inv_admit [OF this, of g i] g ok have "scope_inv ((set_gen g core st)\<lparr>st_admitted := (i, g) # st_admitted st\<rparr>)"
      by (simp add: track_def)
    with Pair Inr show ?thesis by (simp add: do_spawn_def)
  qed
qed

lemma scope_inv_child:
  assumes inv: "scope_inv st" and f: "f < scope_count st"
  shows "scope_inv (do_child f st)"
proof -
  let ?st = "snd (new_scope st)" and ?g = "sc_current (scope_of st f)"
  have g: "?g < gen_count st" using scope_inv_unfold(1) [OF inv] f by (simp add: shape_ok_def)
  have same: "gen_of ?st ?g = gen_of st ?g" "gen_count ?st = Suc (gen_count st)" "fst (new_scope st) = scope_count st"
    using g by (simp_all add: new_scope_def Let_def nth_append)
  show ?thesis
  proof (cases "scope_child (scope_count st) (gen_of st ?g) (scope_of st f)")
    case (Inl error)
    with inv same(3) show ?thesis by (cases "new_scope st") (simp add: do_child_def Let_def)
  next
    case (Inr core)
    then have "core = (gen_of st ?g)\<lparr>gen_children := gen_children (gen_of st ?g) @ [scope_count st]\<rparr>"
      by (auto simp: scope_child_def split: if_splits)
    then have "scope_inv (set_gen ?g core ?st)"
      using g by (intro scope_inv_set_gen [OF scope_inv_new_scope [OF inv]]) (simp_all add: same)
    with Inr same(3) show ?thesis by (cases "new_scope st") (simp add: do_child_def Let_def)
  qed
qed

text \<open>The supervisor's own moves.\<close>

lemma scope_inv_move:
  assumes "scope_inv st" and "r < rot_count st" and "unfinished (rot_of st r)" and "\<And>outcome. pc \<noteq> RotationDone outcome"
    and "\<And>own i. \<lbrakk>rot_policy (rot_of st r) = RotateStrict; own_of pc = Some own;
      (i, rot_old (rot_of st r)) \<in> set (st_admitted st); i \<notin> set (st_ended st)\<rbrakk> \<Longrightarrow> i \<in> set own"
  shows "scope_inv (set_rot r pc st)"
  unfolding set_rot_def using assms by (intro scope_inv_set_rot) (simp_all add: unfinished_def)

lemma own_covers:
  assumes "scope_inv st" and "r < rot_count st" and "unfinished (rot_of st r)"
    and "rot_policy (rot_of st r) = RotateStrict" and "own_of (rot_pc (rot_of st r)) = Some own"
    and "(i, rot_old (rot_of st r)) \<in> set (st_admitted st)" and "i \<notin> set (st_ended st)"
  shows "i \<in> set own"
  using scope_inv_unfold(4) [OF assms(1)] assms(2-) unfolding rotations_ok_def rotation_ok_def by blast

lemma scope_inv_start:
  assumes inv: "scope_inv st" and r: "r < rot_count st" and un: "unfinished (rot_of st r)"
  shows "scope_inv (rotation_start alive r st)"
proof -
  let ?old = "rot_old (rot_of st r)"
  have controls: "i \<in> set (gen_controls (gen_of st ?old))" if "(i, ?old) \<in> set (st_admitted st)" "i \<notin> set (st_ended st)" for i
    using scope_inv_unfold(3) [OF inv] that by (simp add: admitted_ok_def)
  show ?thesis unfolding rotation_start_def Let_def
    by (rule scope_inv_move [OF scope_inv_cancel [OF inv]]) (use r un controls in auto)
qed

lemma scope_inv_rotation:
  assumes inv: "scope_inv st" and step: "run_rotation alive r st = Some st'"
  shows "scope_inv st'"
proof -
  have r: "r < rot_count st" using step by (auto simp: run_rotation_def split: if_splits)
  have un: "unfinished (rot_of st r)"
    using step r by (auto simp: run_rotation_def unfinished_def split: rotation_pc.splits)
  note covers = own_covers [OF inv r un]
  note move = scope_inv_move [OF inv r un]
  show ?thesis
  proof (cases "rot_pc (rot_of st r)")
    case RotationStart
    with step r scope_inv_start [OF inv r un] show ?thesis by (auto simp: run_rotation_def)
  next
    case (RotationChildren own children)
    show ?thesis
    proof (cases children)
      case Nil
      with step r RotationChildren covers show ?thesis
        by (auto simp: run_rotation_def intro!: move split: if_splits)
    next
      case (Cons c cs)
      obtain "is" st1 where c: "collect alive c st = (is, st1)" by (cases "collect alive c st")
      then have cl: "closes st st1" using closes_collect [of st _ alive True c] unfolding collect_def by (metis snd_conv)
      have inv1: "scope_inv st1" by (rule scope_inv_closes [OF inv cl])
      have same: "st_rotations st1 = st_rotations st" using cl by (simp add: closes_def)
      have "scope_inv (set_rot r (RotationChildControls own is cs) st1)"
        by (rule scope_inv_move [OF inv1]) (use r un own_covers [OF inv1] RotationChildren in \<open>auto simp: same\<close>)
      with step r RotationChildren Cons c show ?thesis by (simp add: run_rotation_def)
    qed
  next
    case (RotationChildControls own "is" children)
    show ?thesis
    proof (cases "is")
      case Nil
      with step r RotationChildControls covers show ?thesis by (auto simp: run_rotation_def intro!: move)
    next
      case (Cons i js)
      have "scope_inv (set_rot r (RotationChildWait own i js children) (cancel_scoped [i] st))"
        by (rule scope_inv_move [OF scope_inv_cancel [OF inv]]) (use r un covers RotationChildControls in auto)
      with step r RotationChildControls Cons show ?thesis by (simp add: run_rotation_def)
    qed
  next
    case (RotationChildWait own i "is" children)
    with step r covers show ?thesis by (auto simp: run_rotation_def intro!: move split: if_splits)
  next
    case (RotationOwnWait own)
    have left: "i \<in> set own" if "rot_policy (rot_of st r) = RotateStrict" "(i, rot_old (rot_of st r)) \<in> set (st_admitted st)"
      "i \<notin> set (st_ended st)" for i using covers that RotationOwnWait by simp
    show ?thesis
    proof (cases own)
      case Nil
      with step r RotationOwnWait left show ?thesis by (auto simp: run_rotation_def intro!: move)
    next
      case (Cons j js)
      with step r RotationOwnWait have j: "j \<in> set (st_ended st)" "st' = set_rot r (RotationOwnWait js) st"
        by (auto simp: run_rotation_def split: if_splits)
      have "i \<in> set js" if "rot_policy (rot_of st r) = RotateStrict" "(i, rot_old (rot_of st r)) \<in> set (st_admitted st)"
        "i \<notin> set (st_ended st)" for i using left [OF that] j(1) that(3) Cons by auto
      then show ?thesis unfolding j(2) by (intro move) auto
    qed
  next
    case RotationDecide
    with step r scope_inv_finish [OF inv r] show ?thesis by (simp add: run_rotation_def)
  next
    case (RotationDone outcome)
    with un show ?thesis by (simp add: unfinished_def)
  qed
qed

lemma scope_inv_step:
  assumes inv: "scope_inv st" and step: "scope_exec op st = Some st'"
  shows "scope_inv st'"
proof (cases op)
  case OpScope
  with step scope_inv_new_scope [OF inv] show ?thesis by auto
next
  case (OpChild f)
  with step scope_inv_child [OF inv] show ?thesis by (auto split: if_splits)
next
  case (OpSpawn g answer)
  with step scope_inv_spawn [OF inv] show ?thesis by (auto split: if_splits)
next
  case (OpUntrack g i)
  then have "g < gen_count st" "i \<in> set (st_ended st)" "st' = set_gen g (untrack i (gen_of st g)) st"
    using step by (auto split: if_splits)
  then show ?thesis by (auto simp: untrack_def intro!: scope_inv_set_gen [OF inv])
next
  case (OpRotate path f policy)
  with step scope_inv_rotate [OF inv] show ?thesis by (auto split: if_splits)
next
  case (OpCancelPending r)
  then have r: "r < rot_count st" and st': "st' = st\<lparr>st_rotations := (st_rotations st)[r := (rot_of st r)\<lparr>rot_cancelled := True\<rparr>]\<rparr>"
    using step by (auto split: if_splits)
  show ?thesis unfolding st'
    by (rule scope_inv_flag [OF inv r])
next
  case (OpRotation dead r)
  with step scope_inv_rotation [OF inv] show ?thesis by simp
next
  case (OpCancelScope dead f)
  then obtain "is" st1 where c: "collect (\<lambda>c. c \<notin> set dead) f st = (is, st1)" "st' = cancel_scoped is st1"
    using step by (auto split: if_splits prod.splits)
  then have "closes st st1" using closes_collect [of st _ "\<lambda>c. c \<notin> set dead" True f] unfolding collect_def by (metis snd_conv)
  with inv c(2) show ?thesis by (simp add: scope_inv_closes scope_inv_cancel)
next
  case (OpCloseScope f)
  then have "st' = close_gen (sc_current (scope_of st f)) (set_scope f (scope_close (scope_of st f)) st)"
    using step by (auto split: if_splits)
  with scope_inv_closes [OF inv closes_trans [OF closes_scope closes_gen]] show ?thesis by simp
next
  case (OpScopedEnd i)
  with step scope_inv_end [OF inv] show ?thesis by (auto split: if_splits)
qed

interpretation scopes: invariant_system scope_init scope_step scope_inv
proof
  show "scope_inv st" if "scope_init st" for st
    using that by (simp add: scope_init_def scope_store_new_def scope_inv_def shape_ok_def numbers_ok_def admitted_ok_def
        rotations_ok_def drained_ok_def)
  show "scope_inv st'" if "scope_inv st" "scope_step st st'" for st st'
    using that scope_inv_step unfolding scope_step_def by blast
qed

lemma scope_run_reach: "scope_run ops st = Some st' \<Longrightarrow> reach scope_init scope_step st \<Longrightarrow> reach scope_init scope_step st'"
proof (induction ops arbitrary: st)
  case (Cons op ops)
  then obtain st1 where st1: "scope_exec op st = Some st1" "scope_run ops st1 = Some st'" by (auto split: option.splits)
  from Cons.IH [OF st1(2)] reach_step [OF Cons.prems(2)] st1(1) show ?case unfolding scope_step_def by blast
qed simp

lemma scope_run_reachable: "scope_run ops scope_store_new = Some st \<Longrightarrow> reach scope_init scope_step st"
  by (erule scope_run_reach) (simp add: reach_init scope_init_def)

section \<open>Properties\<close>

lemma admission_step:
  assumes "scope_exec op st = Some st'" and "(i, g) \<in> set (st_admitted st')" and "(i, g) \<notin> set (st_admitted st)"
  shows "g < gen_count st \<and> st_admitted st' = (i, g) # st_admitted st
    \<and> check_current g (gen_of st g) (scope_of st (fam st g)) = Inr ()"
proof (cases op)
  case (OpSpawn h answer)
  with assms show ?thesis
    by (auto simp: do_spawn_def scope_try_spawn_def split: if_splits sum.splits)
next
  case (OpRotation dead r)
  have "st_admitted (snd (collect alive c st)) = st_admitted st" for alive c
    using closes_collect [of st] by (simp add: collect_def closes_def)
  then have "collect alive c st = (is, st1) \<Longrightarrow> st_admitted st1 = st_admitted st" for alive c "is" st1 by (metis snd_conv)
  then have "st_admitted st' = st_admitted st" using assms(1) OpRotation
    by (auto simp: run_rotation_def rotation_start_def rotation_finish_def close_gen_def Let_def
        split: if_splits rotation_pc.splits list.splits prod.splits rotation_outcome.splits)
  with assms(2,3) show ?thesis by simp
next
  case (OpCancelScope dead f)
  have "st_admitted (snd (collect alive f st)) = st_admitted st" for alive
    using closes_collect [of st] by (simp add: collect_def closes_def)
  then have "collect alive f st = (is, st1) \<Longrightarrow> st_admitted st1 = st_admitted st" for alive "is" st1 by (metis snd_conv)
  with assms OpCancelScope show ?thesis by (auto split: if_splits prod.splits)
qed (use assms in \<open>auto simp: new_scope_def do_child_def do_rotate_def close_gen_def Let_def split: if_splits sum.splits\<close>)

text \<open>
  Admission never goes back.  An execution is only admitted into the current generation of a
  scope that is not closed, and every execution the family admitted before went into the same or an
  older generation, by number: once a new generation admits, the old ones never do again.
\<close>

theorem admission_never_goes_back:
  assumes "reach scope_init scope_step st" and "scope_step st st'"
    and "(i, g) \<in> set (st_admitted st')" and "(i, g) \<notin> set (st_admitted st)"
  shows "g = sc_current (scope_of st (fam st g)) \<and> \<not> sc_closed (scope_of st (fam st g))
    \<and> (\<forall>j h. (j, h) \<in> set (st_admitted st) \<and> fam st h = fam st g \<longrightarrow> gen_number (gen_of st h) \<le> gen_number (gen_of st g))"
proof -
  have inv: "scope_inv st" by (rule scopes.reach_inv [OF assms(1)])
  from assms(2) obtain op where "scope_exec op st = Some st'" unfolding scope_step_def by blast
  from admission_step [OF this assms(3,4)] have g: "g < gen_count st" "g = sc_current (scope_of st (fam st g))"
    "\<not> sc_closed (scope_of st (fam st g))" by (auto simp: check_current_def split: if_splits)
  have "gen_number (gen_of st h) \<le> gen_number (gen_of st g)" if "(j, h) \<in> set (st_admitted st)" "fam st h = fam st g" for j h
  proof -
    have "h \<le> sc_current (scope_of st (fam st h))" using scope_inv_unfold(3) [OF inv] that(1) by (simp add: admitted_ok_def)
    then have "h \<le> g" unfolding that(2) g(2) [symmetric] .
    with scope_inv_unfold(2) [OF inv] g(1) that(2) show ?thesis
      by (cases "h = g") (auto simp: numbers_ok_def less_imp_le)
  qed
  with g show ?thesis by blast
qed

definition spawned_rotated :: "scope_op list" where
  "spawned_rotated = [OpScope, OpSpawn 0 (Inr 1), OpRotate None 0 RotateAvailabilityFirst]"

lemmas scope_run_defs = scope_store_new_def new_scope_def scope_state_new_def generation_new_def do_spawn_def
  scope_try_spawn_def check_current_def track_def do_rotate_def scope_rotate_def would_join_def checked_add_def
  set_gen_def set_scope_def set_rot_def close_gen_def cancel_scoped_def do_child_def scope_child_def run_rotation_def
  rotation_start_def rotation_finish_def rotation_decision_def scope_close_def collect_def Let_def admitted_ids_def

lemma admission_never_goes_back_witness:
  "\<exists>st. scope_run spawned_rotated scope_store_new = Some st \<and> gen_number (gen_of st 0) \<le> gen_number (gen_of st 1)"
proof -
  obtain st where st: "scope_run spawned_rotated scope_store_new = Some st"
    and state: "st_admitted st = [(1, 0)]" "fam st 0 = fam st 1"
    and step: "\<exists>st'. scope_exec (OpSpawn 1 (Inr 2)) st = Some st' \<and> (2, 1) \<in> set (st_admitted st')"
    by (simp add: spawned_rotated_def scope_run_defs)
  from step obtain st' where "scope_step st st'" "(2, 1) \<in> set (st_admitted st')" unfolding scope_step_def by blast
  from admission_never_goes_back [OF scope_run_reachable [OF st] this] state st show ?thesis by auto
qed

text \<open>
  C32. A strict rotation waits: in a family that is only rotated strictly, everything that was ever
  admitted into a generation other than the current one has ended.  So a strict rotation never runs
  work of two generations at the same time.
\<close>

theorem strict_rotation_waits:
  assumes "reach scope_init scope_step st" and "strict_family st (fam st g)"
    and "(i, g) \<in> set (st_admitted st)" and "g \<noteq> sc_current (scope_of st (fam st g))"
  shows "i \<in> set (st_ended st)"
  using drainedD [OF scope_inv_unfold(5) [OF scopes.reach_inv [OF assms(1)]] assms(3,2,4)] .

definition strictly_rotated :: "scope_op list" where
  "strictly_rotated = [OpScope, OpSpawn 0 (Inr 1), OpRotate None 0 RotateStrict, OpRotation [] 0, OpScopedEnd 1,
     OpRotation [] 0, OpRotation [] 0, OpRotation [] 0, OpRotation [] 0]"

lemma strict_rotation_waits_witness:
  "\<exists>st. scope_run strictly_rotated scope_store_new = Some st \<and> sc_current (scope_of st 0) = 1 \<and> 1 \<in> set (st_ended st)"
proof -
  obtain st where st: "scope_run strictly_rotated scope_store_new = Some st"
    and state: "st_admitted st = [(1, 0)]" "fam st 0 = 0" "strict_family st 0" "sc_current (scope_of st 0) = 1"
    by (simp add: strictly_rotated_def scope_run_defs strict_family_def)
  from strict_rotation_waits [OF scope_run_reachable [OF st], of 0 1] state st show ?thesis by auto
qed

text \<open>
  At most one rotation of a scope is under way, and no rotation fails: its ticket is still the
  scope's when it decides, whatever happened to the scope in between.
\<close>

theorem rotations_never_fail:
  assumes "reach scope_init scope_step st" and "r < rot_count st"
  shows "rot_pc (rot_of st r) \<noteq> RotationDone RotationFailed
    \<and> (\<forall>r' < rot_count st. unfinished (rot_of st r) \<and> unfinished (rot_of st r')
         \<and> rot_family (rot_of st r) = rot_family (rot_of st r') \<longrightarrow> r = r')"
  using scope_inv_unfold(4) [OF scopes.reach_inv [OF assms(1)]] assms(2)
  unfolding rotations_ok_def rotation_ok_def by blast

lemma rotations_never_fail_witness:
  "\<exists>st. scope_run strictly_rotated scope_store_new = Some st \<and> rot_count st = 1
     \<and> rot_pc (rot_of st 0) \<noteq> RotationDone RotationFailed"
proof -
  obtain st where st: "scope_run strictly_rotated scope_store_new = Some st" and count: "rot_count st = 1"
    by (simp add: strictly_rotated_def scope_run_defs)
  from rotations_never_fail [OF scope_run_reachable [OF st], of 0] st count show ?thesis by simp
qed

text \<open>
  C46. A strict rotation can leave work of a child scope running.  The supervisor collects only the
  current generation of a child: an execution of a generation the child has left by a rotation of
  its own, which was cancelled and not awaited then, is neither cancelled nor awaited by the parent.
  The history below ends with the parent strictly rotated and the child's execution not ended.
\<close>

definition child_left_behind :: "scope_op list" where
  "child_left_behind = [OpScope, OpChild 0, OpSpawn 1 (Inr 7), OpRotate None 1 RotateAvailabilityFirst,
     OpRotation [] 0, OpRotation [] 0, OpRotation [] 0, OpRotate None 0 RotateStrict,
     OpRotation [] 1, OpRotation [] 1, OpRotation [] 1, OpRotation [] 1, OpRotation [] 1, OpRotation [] 1]"

theorem strict_rotation_misses_child_generation:
  shows "\<exists>st parent child r i g. reach scope_init scope_step st
    \<and> child \<in> set (gen_children (gen_of st (rot_old (rot_of st r)))) \<and> rot_family (rot_of st r) = parent
    \<and> rot_policy (rot_of st r) = RotateStrict
    \<and> rot_pc (rot_of st r) = RotationDone (Rotated (rot_old (rot_of st r)) (rot_new (rot_of st r)))
    \<and> (i, g) \<in> set (st_admitted st) \<and> fam st g = child \<and> i \<notin> set (st_ended st)"
proof -
  have "\<exists>st. scope_run child_left_behind scope_store_new = Some st
      \<and> 1 \<in> set (gen_children (gen_of st (rot_old (rot_of st 1)))) \<and> rot_family (rot_of st 1) = 0
      \<and> rot_policy (rot_of st 1) = RotateStrict
      \<and> rot_pc (rot_of st 1) = RotationDone (Rotated (rot_old (rot_of st 1)) (rot_new (rot_of st 1)))
      \<and> (7, 1) \<in> set (st_admitted st) \<and> fam st 1 = 1 \<and> 7 \<notin> set (st_ended st)"
    by (simp add: child_left_behind_def scope_run_defs)
  then show ?thesis using scope_run_reachable by blast
qed

end
