(* ===== verification/BB_Scope_Tree.thy ===== *)
theory BB_Scope_Tree
  imports BB_Scope_Props
begin

text \<open>
  The tree of child scopes: a child is newer than its parent, so \<open>collect_scope_controls\<close> ends, and
  cancelling a scope closes every live scope below it and cancels what their current generations track.
\<close>

section \<open>The tree\<close>

definition children_of :: "scope_store \<Rightarrow> nat \<Rightarrow> nat list" where
  "children_of st f = gen_children (gen_of st (sc_current (scope_of st f)))"

definition controls_of :: "scope_store \<Rightarrow> nat \<Rightarrow> execution_id list" where
  "controls_of st f = gen_controls (gen_of st (sc_current (scope_of st f)))"

inductive descends :: "(nat \<Rightarrow> bool) \<Rightarrow> scope_store \<Rightarrow> nat \<Rightarrow> nat \<Rightarrow> bool" for alive st where
  descends_self: "descends alive st f f"
| descends_child: "c \<in> set (children_of st f) \<Longrightarrow> alive c \<Longrightarrow> descends alive st c d \<Longrightarrow> descends alive st f d"

lemma descends_unfold:
  "descends alive st f d \<longleftrightarrow> d = f \<or> (\<exists>c \<in> set (filter alive (children_of st f)). descends alive st c d)"
  by (subst descends.simps) auto

text \<open>Children are newer than the scope whose generation they were created in.\<close>

definition children_ok :: "scope_store \<Rightarrow> bool" where
  "children_ok st \<longleftrightarrow> (\<forall>g < gen_count st. \<forall>c \<in> set (gen_children (gen_of st g)). fam st g < c \<and> c < scope_count st)"

definition tree_ok :: "scope_store \<Rightarrow> bool" where
  "tree_ok st \<longleftrightarrow> shape_ok st \<and> children_ok st"

lemma tree_child: "tree_ok st \<Longrightarrow> f < scope_count st \<Longrightarrow> c \<in> set (children_of st f) \<Longrightarrow> f < c \<and> c < scope_count st"
  by (auto simp: tree_ok_def shape_ok_def children_ok_def children_of_def)

section \<open>Closing leaves the tree\<close>

lemma closes_fields:
  assumes "closes st st'"
  shows "scope_count st' = scope_count st" and "gen_count st' = gen_count st" and "st_family st' = st_family st"
    and "f < scope_count st \<Longrightarrow> sc_current (scope_of st' f) = sc_current (scope_of st f)"
    and "g < gen_count st \<Longrightarrow> gen_children (gen_of st' g) = gen_children (gen_of st g)"
    and "g < gen_count st \<Longrightarrow> gen_controls (gen_of st' g) = gen_controls (gen_of st g)"
    and "f < scope_count st \<Longrightarrow> sc_closed (scope_of st f) \<Longrightarrow> sc_closed (scope_of st' f)"
    and "g < gen_count st \<Longrightarrow> gen_open (gen_of st' g) \<Longrightarrow> gen_open (gen_of st g)"
proof -
  show "scope_count st' = scope_count st" "gen_count st' = gen_count st" "st_family st' = st_family st"
    using assms by (simp_all add: closes_def)
  show "sc_current (scope_of st' f) = sc_current (scope_of st f)" "sc_closed (scope_of st f) \<Longrightarrow> sc_closed (scope_of st' f)"
    if "f < scope_count st"
    using assms that unfolding closes_def by force+
  show "gen_children (gen_of st' g) = gen_children (gen_of st g)" "gen_controls (gen_of st' g) = gen_controls (gen_of st g)"
    "gen_open (gen_of st' g) \<Longrightarrow> gen_open (gen_of st g)" if "g < gen_count st"
    using assms that unfolding closes_def by force+
qed

lemmas closes_counts = closes_fields(1,2,3)

lemma closes_tree:
  assumes "closes st st'" and "tree_ok st"
  shows "tree_ok st'"
  using assms(2) by (simp add: tree_ok_def shape_ok_def children_ok_def closes_fields [OF assms(1)])

lemma closes_children:
  assumes "closes st st'" and "tree_ok st" and "f < scope_count st"
  shows "children_of st' f = children_of st f" and "controls_of st' f = controls_of st f"
proof -
  from assms have "sc_current (scope_of st f) < gen_count st" by (auto simp: tree_ok_def shape_ok_def)
  then show "children_of st' f = children_of st f" "controls_of st' f = controls_of st f"
    by (simp_all add: children_of_def controls_of_def closes_fields [OF assms(1)] assms(3))
qed

lemma descends_bound: "descends alive st f d \<Longrightarrow> tree_ok st \<Longrightarrow> f < scope_count st \<Longrightarrow> d < scope_count st"
  by (induction rule: descends.induct) (auto dest: tree_child)

lemma descends_closes:
  assumes "descends alive st f d" and "closes st st'" and "tree_ok st" and "f < scope_count st"
  shows "descends alive st' f d"
  using assms
proof (induction rule: descends.induct)
  case (descends_child c f d)
  then show ?case using closes_children(1) [OF descends_child.prems(1,2,3)] tree_child [OF descends_child.prems(2,3)]
    by (metis descends.descends_child)
qed (rule descends.descends_self)

text \<open>The direction back: what is below a scope afterwards was below it before.\<close>

lemma descends_closed:
  assumes "descends alive st' f d" and "closes st st'" and "tree_ok st" and "f < scope_count st"
  shows "descends alive st f d"
  using assms
proof (induction rule: descends.induct)
  case (descends_child c f d)
  then show ?case using closes_children(1) [OF descends_child.prems(1,2,3)] tree_child [OF descends_child.prems(2,3)]
    by (metis descends.descends_child)
qed (rule descends.descends_self)

section \<open>The invariant\<close>

lemma scope_tree: "scope_inv st \<Longrightarrow> children_ok st \<Longrightarrow> tree_ok st"
  by (simp add: tree_ok_def scope_inv_def)

lemma nth_update: "j < length xs \<Longrightarrow> xs[i := x] ! j = (if i = j then x else xs ! j)"
  by simp

text \<open>A step that gives no generation a further child.\<close>

lemma children_ok_mono:
  assumes "children_ok st" and "scope_count st \<le> scope_count st'"
    and "\<And>g. g < gen_count st' \<Longrightarrow> gen_children (gen_of st' g) \<noteq> []
      \<Longrightarrow> g < gen_count st \<and> fam st' g = fam st g \<and> gen_children (gen_of st' g) = gen_children (gen_of st g)"
  shows "children_ok st'"
  unfolding children_ok_def
proof (intro allI impI ballI)
  fix g c assume g: "g < gen_count st'" and c: "c \<in> set (gen_children (gen_of st' g))"
  then have "gen_children (gen_of st' g) \<noteq> []" by auto
  from assms(3) [OF g this] assms(1,2) c show "fam st' g < c \<and> c < scope_count st'"
    unfolding children_ok_def by fastforce
qed

lemma children_ok_set_gen:
  assumes "children_ok st" and "gen_children core = gen_children (gen_of st g)"
  shows "children_ok (set_gen g core st)"
  using assms by (auto intro!: children_ok_mono [OF assms(1)] simp: nth_update split: if_splits)

lemma children_ok_closes: "closes st st' \<Longrightarrow> children_ok st \<Longrightarrow> children_ok st'"
  by (simp add: children_ok_def closes_fields)

lemma children_ok_same:
  "children_ok (set_scope f s st) = children_ok st" "children_ok (set_rot r pc st) = children_ok st"
  "children_ok (cancel_scoped is st) = children_ok st"
  by (simp_all add: children_ok_def)

lemma children_ok_new:
  assumes "scope_inv st" and "children_ok st"
  shows "children_ok (snd (new_scope st))"
proof (rule children_ok_mono [OF assms(2)])
  have len: "length (st_family st) = gen_count st" using assms(1) by (simp add: scope_inv_def shape_ok_def)
  fix g assume "g < gen_count (snd (new_scope st))" "gen_children (gen_of (snd (new_scope st)) g) \<noteq> []"
  with len show "g < gen_count st \<and> fam (snd (new_scope st)) g = fam st g
      \<and> gen_children (gen_of (snd (new_scope st)) g) = gen_children (gen_of st g)"
    by (auto simp: new_scope_def Let_def nth_append generation_new_def less_Suc_eq split: if_splits)
qed (simp add: new_scope_def Let_def)

lemma children_ok_child:
  assumes inv: "scope_inv st" and ok: "children_ok st" and f: "f < scope_count st"
  shows "children_ok (do_child f st)"
proof -
  let ?st = "snd (new_scope st)" and ?g = "sc_current (scope_of st f)"
  have shape: "?g < gen_count st" "fam st ?g = f" "length (st_family st) = gen_count st"
    using inv f by (simp_all add: scope_inv_def shape_ok_def)
  then have same: "gen_of ?st ?g = gen_of st ?g" "fam ?st ?g = f" "scope_count ?st = Suc (scope_count st)"
    "fst (new_scope st) = scope_count st"
    by (simp_all add: new_scope_def Let_def nth_append)
  show ?thesis
  proof (cases "scope_child (scope_count st) (gen_of st ?g) (scope_of st f)")
    case (Inr core)
    then have core: "core = (gen_of st ?g)\<lparr>gen_children := gen_children (gen_of st ?g) @ [scope_count st]\<rparr>"
      by (auto simp: scope_child_def split: if_splits)
    have "children_ok (set_gen ?g core ?st)"
      using children_ok_new [OF inv ok] f unfolding children_ok_def
      by (auto simp: nth_update core same less_Suc_eq split: if_splits)
    with Inr same(4) show ?thesis by (cases "new_scope st") (simp add: do_child_def Let_def)
  qed (use ok same(4) in \<open>cases "new_scope st", simp add: do_child_def Let_def\<close>)
qed

lemma children_ok_rotate:
  assumes inv: "scope_inv st" and ok: "children_ok st" and f: "f < scope_count st"
  shows "children_ok (do_rotate joins f policy st)"
proof -
  have shape: "sc_current (scope_of st f) < gen_count st" "length (st_family st) = gen_count st"
    using inv f by (simp_all add: scope_inv_def shape_ok_def)
  show ?thesis
  proof (cases "scope_rotate joins policy (gen_count st) (gen_of st (sc_current (scope_of st f))) (scope_of st f)")
    case (Inr r)
    obtain ticket core fresh s where r: "r = (ticket, core, fresh, s)" by (cases r) auto
    with Inr have "gen_children core = gen_children (gen_of st (sc_current (scope_of st f)))" "gen_children fresh = []"
      by (auto simp: scope_rotate_def generation_new_def split: if_splits option.splits)
    with Inr r shape show ?thesis
      by (auto simp: do_rotate_def Let_def nth_append nth_list_update intro!: children_ok_mono [OF ok] split: if_splits)
  qed (simp add: do_rotate_def Let_def ok)
qed

lemma children_ok_spawn: "children_ok st \<Longrightarrow> children_ok (do_spawn g answer st)"
proof -
  assume ok: "children_ok st"
  obtain result core where r: "scope_try_spawn g (gen_of st g) (scope_of st (fam st g)) answer = (result, core)" by fastforce
  then have "gen_children core = gen_children (gen_of st g)"
    by (auto simp: scope_try_spawn_def track_def split: sum.splits)
  from children_ok_set_gen [OF ok this] r ok show ?thesis
    by (auto simp: do_spawn_def children_ok_def split: sum.splits)
qed

lemma closes_collect_all: "collect alive f st = (is, st') \<Longrightarrow> closes st st'"
  using closes_collect [of st _ alive True f] unfolding collect_def by (metis snd_conv)

lemma children_ok_collect: "collect alive f st = (is, st') \<Longrightarrow> children_ok st \<Longrightarrow> children_ok st'"
  by (rule children_ok_closes [OF closes_collect_all])

lemma children_ok_rotation: "run_rotation alive r st = Some st' \<Longrightarrow> children_ok st \<Longrightarrow> children_ok st'"
  by (auto simp: run_rotation_def rotation_start_def rotation_finish_def Let_def children_ok_same
      dest: children_ok_collect intro: children_ok_closes [OF closes_gen]
      split: if_splits rotation_pc.splits list.splits prod.splits rotation_outcome.splits)

lemma children_ok_step:
  assumes "scope_inv st" and "children_ok st" and step: "scope_exec op st = Some st'"
  shows "children_ok st'"
proof (cases op)
  case (OpCancelScope dead f)
  then show ?thesis using step assms(2)
    by (auto simp: children_ok_same dest: children_ok_collect split: if_splits prod.splits)
next
  case (OpCloseScope f)
  then have "st' = close_gen (sc_current (scope_of st f)) (set_scope f (scope_close (scope_of st f)) st)"
    using step by (auto split: if_splits)
  then show ?thesis using children_ok_closes [OF closes_trans [OF closes_scope closes_gen]] assms(2) by simp
next
  case (OpUntrack g i)
  then show ?thesis using step assms(2) by (auto simp: untrack_def intro!: children_ok_set_gen split: if_splits)
next
  case (OpRotation dead r)
  then show ?thesis using step children_ok_rotation assms(2) by simp
next
  case (OpCancelPending r)
  then show ?thesis using step assms(2) by (auto simp: children_ok_def split: if_splits)
next
  case (OpScopedEnd i)
  then show ?thesis using step assms(2) by (auto simp: children_ok_def split: if_splits)
qed (use step children_ok_new [OF assms(1,2)] children_ok_child [OF assms(1,2)] children_ok_spawn [OF assms(2)]
      children_ok_rotate [OF assms(1,2)] in \<open>auto split: if_splits\<close>)

interpretation scope_trees: invariant_system scope_init scope_step "\<lambda>st. scope_inv st \<and> children_ok st"
proof
  show "scope_inv st \<and> children_ok st" if "scope_init st" for st
    using that scopes.init_inv by (simp add: scope_init_def scope_store_new_def children_ok_def)
  show "scope_inv st' \<and> children_ok st'" if "scope_inv st \<and> children_ok st" "scope_step st st'" for st st'
    using that scope_inv_step children_ok_step unfolding scope_step_def by blast
qed

section \<open>Collecting ends\<close>

definition collect_children ::
  "(nat \<Rightarrow> scope_store \<Rightarrow> execution_id list \<times> scope_store) \<Rightarrow> nat list \<Rightarrow> execution_id list \<times> scope_store
   \<Rightarrow> execution_id list \<times> scope_store" where
  "collect_children A cs acc = fold (\<lambda>c (is, st'). let (js, st'') = A c st' in (is @ js, st'')) cs acc"

lemma collect_children_simps [simp]:
  "collect_children A [] acc = acc"
  "collect_children A (c # cs) (is, st) = collect_children A cs (is @ fst (A c st), snd (A c st))"
  by (simp_all add: collect_children_def split_beta Let_def)

lemma closes_children_fold:
  assumes "\<And>c st. closes st (snd (A c st))"
  shows "closes st (snd (collect_children A cs (is, st)))"
proof (induction cs arbitrary: "is" st)
  case (Cons c cs)
  show ?case using closes_trans [OF assms [of st c] Cons.IH] by simp
qed simp

lemma collect_children_cong:
  assumes "\<And>c st. closes st (snd (A c st))"
    and "\<And>c st'. c \<in> set cs \<Longrightarrow> closes st st' \<Longrightarrow> A c st' = B c st'"
  shows "collect_children A cs (is, st) = collect_children B cs (is, st)"
  using assms(2)
proof (induction cs arbitrary: "is" st)
  case (Cons c cs)
  from Cons.prems(1) [of c st] have "A c st = B c st" by simp
  moreover have "collect_children A cs (js, snd (A c st)) = collect_children B cs (js, snd (A c st))" for js
    by (rule Cons.IH, rule Cons.prems, simp, erule closes_trans [OF assms(1)])
  ultimately show ?case by simp
qed simp

text \<open>What \<open>collect_scope_controls\<close> does to the scope itself.\<close>

definition shut :: "bool \<Rightarrow> nat \<Rightarrow> scope_store \<Rightarrow> scope_store" where
  "shut close f st = (if close then close_gen (sc_current (scope_of st f)) (set_scope f (scope_close (scope_of st f)) st) else st)"

lemma closes_shut: "closes st (shut close f st)"
  by (simp add: shut_def closes_trans [OF closes_scope closes_gen])

lemma shut_same:
  assumes "tree_ok st" and "f < scope_count st"
  shows "sc_current (scope_of (shut close f st) f) = sc_current (scope_of st f)"
    and "children_of (shut close f st) f = children_of st f" and "controls_of (shut close f st) f = controls_of st f"
  using closes_fields(4) [OF closes_shut assms(2)] closes_children [OF closes_shut assms] by simp_all

lemma collect_unfold:
  assumes "tree_ok st" and "f < scope_count st"
  shows "collect_scope_controls (Suc n) alive close f st
    = collect_children (collect_scope_controls n alive close) (filter alive (children_of st f)) (controls_of st f, shut close f st)"
proof -
  have "children_of st f = gen_children (gen_of (shut close f st) (sc_current (scope_of st f)))"
    "controls_of st f = gen_controls (gen_of (shut close f st) (sc_current (scope_of st f)))"
    using shut_same [OF assms, of close] by (simp_all add: children_of_def controls_of_def)
  then show ?thesis by (simp only: collect_scope_controls.simps shut_def Let_def collect_children_def)
qed

declare collect_scope_controls.simps(2) [simp del]

lemma collect_depth:
  assumes "tree_ok st" and "f < scope_count st" and "scope_count st - f \<le> n" and "scope_count st - f \<le> m"
  shows "collect_scope_controls n alive close f st = collect_scope_controls m alive close f st"
  using assms
proof (induction n arbitrary: m f st)
  case (Suc n)
  then obtain m' where m: "m = Suc m'" by (cases m) auto
  have "collect_children (collect_scope_controls n alive close) (filter alive (children_of st f)) (controls_of st f, shut close f st)
      = collect_children (collect_scope_controls m' alive close) (filter alive (children_of st f)) (controls_of st f, shut close f st)"
  proof (rule collect_children_cong)
    show "closes st (snd (collect_scope_controls n alive close c st))" for c st by (rule closes_collect)
    fix c st' assume c: "c \<in> set (filter alive (children_of st f))" and "closes (shut close f st) st'"
    then have st': "closes st st'" by (blast intro: closes_trans closes_shut)
    from c tree_child [OF Suc.prems(1,2)] have "f < c" "c < scope_count st" by auto
    then show "collect_scope_controls n alive close c st' = collect_scope_controls m' alive close c st'"
      using Suc.prems(3,4) m by (intro Suc.IH) (auto simp: closes_tree [OF st' Suc.prems(1)] closes_counts [OF st'])
  qed
  then show ?case by (simp only: m collect_unfold [OF Suc.prems(1,2)])
qed simp

section \<open>What collecting reaches\<close>

lemma descends_same:
  assumes "closes st st'" and "tree_ok st" and "f < scope_count st"
  shows "descends alive st' f d \<longleftrightarrow> descends alive st f d"
  using descends_closes descends_closed assms by blast

definition controls_below :: "(nat \<Rightarrow> bool) \<Rightarrow> scope_store \<Rightarrow> nat \<Rightarrow> execution_id set" where
  "controls_below alive st f = {i. \<exists>d. descends alive st f d \<and> i \<in> set (controls_of st d)}"

lemma controls_below_closes:
  assumes "closes st st'" and "tree_ok st" and "f < scope_count st"
  shows "controls_below alive st' f = controls_below alive st f"
  unfolding controls_below_def descends_same [OF assms]
  using closes_children(2) [OF assms(1,2)] descends_bound [OF _ assms(2,3)] by auto

lemma controls_below_unfold:
  "controls_below alive st f = set (controls_of st f) \<union> (\<Union>c \<in> set (filter alive (children_of st f)). controls_below alive st c)"
  unfolding controls_below_def by (subst descends_unfold) blast

lemma collect_children_controls:
  assumes "tree_ok st"
    and "\<And>c st. closes st (snd (A c st))"
    and "\<And>c st'. c \<in> set cs \<Longrightarrow> closes st st' \<Longrightarrow> set (fst (A c st')) = controls_below alive st' c"
    and "\<And>c. c \<in> set cs \<Longrightarrow> c < scope_count st"
  shows "set (fst (collect_children A cs (is, st))) = set is \<union> (\<Union>c \<in> set cs. controls_below alive st c)"
  using assms(1,3,4)
proof (induction cs arbitrary: "is" st)
  case (Cons c cs)
  let ?st = "snd (A c st)"
  have closed: "closes st ?st" by (rule assms(2))
  have "set (fst (collect_children A cs (is @ fst (A c st), ?st)))
      = set (is @ fst (A c st)) \<union> (\<Union>c \<in> set cs. controls_below alive ?st c)"
    by (rule Cons.IH) (simp_all add: closes_tree [OF closed Cons.prems(1)] Cons.prems(2) closes_trans [OF closed]
        closes_counts [OF closed] Cons.prems(3))
  moreover have "set (fst (A c st)) = controls_below alive st c" using Cons.prems(2) by simp
  ultimately show ?case
    using controls_below_closes [OF closed Cons.prems(1)] Cons.prems(3) by auto
qed simp

lemma collect_controls:
  assumes "tree_ok st" and "f < scope_count st" and "scope_count st - f \<le> n"
  shows "set (fst (collect_scope_controls n alive close f st)) = controls_below alive st f"
  using assms
proof (induction n arbitrary: f st)
  case (Suc n)
  have tree: "tree_ok (shut close f st)" by (rule closes_tree [OF closes_shut Suc.prems(1)])
  have below: "f < c \<and> c < scope_count st" if "c \<in> set (filter alive (children_of st f))" for c
    using that tree_child [OF Suc.prems(1,2)] by simp
  have "set (fst (collect_children (collect_scope_controls n alive close) (filter alive (children_of st f)) (controls_of st f, shut close f st)))
      = set (controls_of st f) \<union> (\<Union>c \<in> set (filter alive (children_of st f)). controls_below alive (shut close f st) c)"
  proof (rule collect_children_controls [OF tree closes_collect])
    fix c st' assume c: "c \<in> set (filter alive (children_of st f))" and st': "closes (shut close f st) st'"
    with below [OF c] Suc.prems(3) show "set (fst (collect_scope_controls n alive close c st')) = controls_below alive st' c"
      by (intro Suc.IH) (auto simp: closes_tree [OF st' tree] closes_counts [OF st'] closes_counts [OF closes_shut])
  qed (use below in \<open>auto simp: closes_counts [OF closes_shut]\<close>)
  also have "\<dots> = controls_below alive st f"
    using below controls_below_closes [OF closes_shut Suc.prems(1)] by (subst (2) controls_below_unfold) simp
  finally show ?case by (simp only: collect_unfold [OF Suc.prems(1,2)])
qed simp

text \<open>A scope is shut when it and its current generation admit nothing any more.\<close>

definition is_shut :: "scope_store \<Rightarrow> nat \<Rightarrow> bool" where
  "is_shut st f \<longleftrightarrow> sc_closed (scope_of st f) \<and> \<not> gen_open (gen_of st (sc_current (scope_of st f)))"

lemma is_shut_closes:
  assumes "closes st st'" and "tree_ok st" and "f < scope_count st" and "is_shut st f"
  shows "is_shut st' f"
proof -
  from assms(2,3) have "sc_current (scope_of st f) < gen_count st" by (auto simp: tree_ok_def shape_ok_def)
  with assms closes_fields(4,7,8) [OF assms(1)] show ?thesis unfolding is_shut_def by auto
qed

lemma is_shut_shut:
  assumes "tree_ok st" and "f < scope_count st"
  shows "is_shut (shut True f st) f"
proof -
  from assms have "sc_current (scope_of st f) < gen_count st" by (auto simp: tree_ok_def shape_ok_def)
  with assms show ?thesis by (simp add: is_shut_def shut_def close_gen_def scope_close_def)
qed

lemma collect_children_shut:
  assumes "tree_ok st"
    and "\<And>c st. closes st (snd (A c st))"
    and "\<And>c d st'. c \<in> set cs \<Longrightarrow> closes st st' \<Longrightarrow> descends alive st' c d \<Longrightarrow> is_shut (snd (A c st')) d"
    and "\<And>c. c \<in> set cs \<Longrightarrow> c < scope_count st"
    and "c \<in> set cs" and "descends alive st c d"
  shows "is_shut (snd (collect_children A cs (is, st))) d"
  using assms(1,3-6)
proof (induction cs arbitrary: "is" st)
  case (Cons b cs)
  let ?st = "snd (A b st)"
  have closed: "closes st ?st" by (rule assms(2))
  have tree: "tree_ok ?st" by (rule closes_tree [OF closed Cons.prems(1)])
  have d: "d < scope_count st" using descends_bound [OF Cons.prems(5,1)] Cons.prems(3,4) by simp
  have "is_shut (snd (collect_children A cs (is @ fst (A b st), ?st))) d"
  proof (cases "c = b")
    case True
    with Cons.prems(2) [of b st d] Cons.prems(5) have "is_shut ?st d" by simp
    then show ?thesis
      by (rule is_shut_closes [OF closes_children_fold tree, rotated 2]) (simp_all add: assms(2) closes_counts [OF closed] d)
  next
    case False
    with Cons.prems(4) have c: "c \<in> set cs" by simp
    then have "descends alive ?st c d" using descends_closes [OF Cons.prems(5) closed Cons.prems(1)] Cons.prems(3) by simp
    then show ?thesis
      by (intro Cons.IH [OF tree _ _ c]) (auto intro: Cons.prems(2) closes_trans [OF closed] simp: closes_counts [OF closed] Cons.prems(3))
  qed
  then show ?case by simp
qed simp

lemma collect_shut:
  assumes "tree_ok st" and "f < scope_count st" and "scope_count st - f \<le> n" and "descends alive st f d"
  shows "is_shut (snd (collect_scope_controls n alive True f st)) d"
  using assms
proof (induction n arbitrary: f d st)
  case (Suc n)
  let ?A = "collect_scope_controls n alive True" and ?cs = "filter alive (children_of st f)" and ?st = "shut True f st"
  have tree: "tree_ok ?st" by (rule closes_tree [OF closes_shut Suc.prems(1)])
  have below: "f < c \<and> c < scope_count st" if "c \<in> set ?cs" for c
    using that tree_child [OF Suc.prems(1,2)] by simp
  have "is_shut (snd (collect_children ?A ?cs (controls_of st f, ?st))) d"
  proof (cases "d = f")
    case True
    show ?thesis unfolding True
      by (rule is_shut_closes [OF closes_children_fold tree _ is_shut_shut [OF Suc.prems(1,2)]])
         (simp_all add: closes_collect closes_counts [OF closes_shut] Suc.prems(2))
  next
    case False
    with Suc.prems(4) obtain c where c: "c \<in> set ?cs" "descends alive st c d" by (subst (asm) descends_unfold) blast
    then have d: "descends alive ?st c d" using descends_closes [OF c(2) closes_shut Suc.prems(1)] below by simp
    show ?thesis
    proof (rule collect_children_shut [OF tree closes_collect _ _ c(1) d])
      fix b e st' assume b: "b \<in> set ?cs" and st': "closes ?st st'" and e: "descends alive st' b e"
      with below [OF b] Suc.prems(3) show "is_shut (snd (?A b st')) e"
        by (intro Suc.IH) (auto simp: closes_tree [OF st' tree] closes_counts [OF st'] closes_counts [OF closes_shut])
    qed (use below in \<open>auto simp: closes_counts [OF closes_shut]\<close>)
  qed
  then show ?case by (simp only: collect_unfold [OF Suc.prems(1,2)])
qed simp

lemma cancelled_same [simp]:
  "st_cancelled (set_scope f s st) = st_cancelled st" "st_cancelled (close_gen g st) = st_cancelled st"
  by (simp_all add: set_scope_def close_gen_def set_gen_def)

lemma collect_children_cancelled:
  assumes "\<And>c st. st_cancelled (snd (A c st)) = st_cancelled st"
  shows "st_cancelled (snd (collect_children A cs (is, st))) = st_cancelled st"
  using assms by (induction cs arbitrary: "is" st) simp_all

lemma collect_cancelled: "st_cancelled (snd (collect_scope_controls n alive close f st)) = st_cancelled st"
proof (induction n arbitrary: f st)
  case (Suc n)
  then have "st_cancelled (snd (collect_children (collect_scope_controls n alive close) cs (is, st))) = st_cancelled st" for cs "is" st
    by (rule collect_children_cancelled)
  then show ?case by (simp add: collect_scope_controls.simps(2) Let_def collect_children_def)
qed simp

section \<open>Properties\<close>

lemma scope_reach_tree: "reach scope_init scope_step st \<Longrightarrow> tree_ok st"
  using scope_trees.reach_inv scope_tree by blast

text \<open>
  C36. Collecting the controls of a scope and its descendants ends: children are newer than their
  parents, so a recursion as deep as there are scopes is never cut short, and any deeper one gives
  the same result.
\<close>

theorem collecting_ends:
  assumes "reach scope_init scope_step st" and "f < scope_count st" and "scope_count st \<le> depth"
  shows "collect_scope_controls depth alive close f st = collect_scope_controls (scope_count st) alive close f st"
  by (rule collect_depth [OF scope_reach_tree [OF assms(1)] assms(2)]) (use assms(3) in simp_all)

definition family_of_three :: "scope_op list" where
  "family_of_three = [OpScope, OpChild 0, OpChild 1, OpSpawn 1 (Inr 7), OpSpawn 2 (Inr 8)]"

lemma family_of_three_run:
  "\<exists>st. scope_run family_of_three scope_store_new = Some st \<and> scope_count st = 3
    \<and> st_cancelled st = [] \<and> children_of st 0 = [1] \<and> children_of st 1 = [2] \<and> controls_of st 2 = [8]"
  by (simp add: family_of_three_def scope_run_defs children_of_def controls_of_def)

lemma collecting_ends_witness:
  "\<exists>st. scope_run family_of_three scope_store_new = Some st
    \<and> collect_scope_controls 9 (\<lambda>_. True) True 0 st = collect_scope_controls 3 (\<lambda>_. True) True 0 st"
proof -
  from family_of_three_run obtain st where st: "scope_run family_of_three scope_store_new = Some st" "scope_count st = 3" by blast
  from collecting_ends [OF scope_run_reachable [OF st(1)], of 0 9 "\<lambda>_. True" True] st show ?thesis by auto
qed

text \<open>
  Cancelling a scope reaches all of its live descendants and nothing else: afterwards the scope
  and every live scope below it admit neither executions nor children, and exactly what their
  current generations tracked has been cancelled in addition.
\<close>

theorem cancel_reaches_descendants:
  assumes "reach scope_init scope_step st" and "scope_exec (OpCancelScope dead f) st = Some st'"
  shows "set (st_cancelled st') = set (st_cancelled st) \<union> controls_below (\<lambda>c. c \<notin> set dead) st f
    \<and> (\<forall>d. descends (\<lambda>c. c \<notin> set dead) st f d \<longrightarrow>
        (\<forall>g core. check_current g core (scope_of st' d) = Inl SpawnScopeClosed)
        \<and> (\<forall>c core. scope_child c core (scope_of st' d) = Inl ScopeIsClosed))"
proof -
  let ?alive = "\<lambda>c. c \<notin> set dead"
  obtain "is" st1 where c: "collect ?alive f st = (is, st1)" "st' = cancel_scoped is st1" and f: "f < scope_count st"
    using assms(2) by (auto split: if_splits prod.splits)
  have tree: "tree_ok st" by (rule scope_reach_tree [OF assms(1)])
  from collect_controls [OF tree f, of "scope_count st" ?alive True] c(1) have "set is = controls_below ?alive st f"
    by (simp add: collect_def)
  moreover from collect_cancelled [of "scope_count st" ?alive True f st] c(1) have "st_cancelled st1 = st_cancelled st"
    by (simp add: collect_def)
  moreover from collect_shut [OF tree f, of "scope_count st" ?alive] c(1) have "is_shut st1 d" if "descends ?alive st f d" for d
    using that by (simp add: collect_def)
  ultimately show ?thesis by (auto simp: c(2) cancel_scoped_def is_shut_def check_current_def scope_child_def)
qed

lemma cancel_reaches_descendants_witness:
  "\<exists>st st'. scope_run family_of_three scope_store_new = Some st \<and> scope_exec (OpCancelScope [] 0) st = Some st'
    \<and> 8 \<in> set (st_cancelled st')"
proof -
  from family_of_three_run obtain st where st: "scope_run family_of_three scope_store_new = Some st" "scope_count st = 3"
    and tree: "children_of st 0 = [1]" "children_of st 1 = [2]" "controls_of st 2 = [8]" by blast
  then obtain st' where st': "scope_exec (OpCancelScope [] 0) st = Some st'"
    by (cases "collect (\<lambda>c. c \<notin> set []) 0 st") simp
  have "descends (\<lambda>c. c \<notin> set []) st 0 2"
    by (rule descends_child [of 1], simp add: tree(1), simp, rule descends_child [of 2])
       (simp_all add: tree [unfolded One_nat_def] descends_self)
  then have "8 \<in> controls_below (\<lambda>c. c \<notin> set []) st 0" unfolding controls_below_def using tree(3) by force
  with cancel_reaches_descendants [OF scope_run_reachable [OF st(1)] st'] st(1) st' show ?thesis by blast
qed

end
