(* ===== verification/BB_Submission.thy ===== *)
theory BB_Submission
  imports BB_Registry BB_Lane_Inv BB_Recurring BB_Service
begin

text \<open>
  Submissions end to end: what the preparation of an execution puts into its core
  (\<open>execution.rs\<close>, \<open>retry.rs\<close>, \<open>recurring.rs\<close>, \<open>service.rs\<close>), how the core travels through a lane
  and the registry (\<open>lane.rs\<close>), how stop requests reach a queued execution through its cancel hook,
  and how a start that is dropped becomes terminal.  The parts are those of the component theories,
  here over one state.  The calls are taken one after the other; what happens when the lock regions
  of two calls interleave is the subject of the theories of the lane, the registry and the execution.
\<close>

section \<open>Definitions of work\<close>

record task_spec =
  ts_id :: task_spec_id
  ts_tag :: "string option"
  ts_abort_policy :: abort_policy

definition task_spec_new :: "task_spec_id \<Rightarrow> task_spec" where
  "task_spec_new fresh = \<lparr>ts_id = fresh, ts_tag = None, ts_abort_policy = CooperativeOnly\<rparr>"

record future_config =
  fc_task_spec_id :: task_spec_id
  fc_tag :: "string option"
  fc_panic_source :: panic_source
  fc_cancel_drops_future :: bool
  fc_ancestors :: "execution_id list"

definition future_config_root :: "task_spec_id \<Rightarrow> panic_source \<Rightarrow> future_config" where
  "future_config_root fresh source = \<lparr>fc_task_spec_id = fresh, fc_tag = None, fc_panic_source = source,
     fc_cancel_drops_future = False, fc_ancestors = []\<rparr>"

section \<open>Prepared executions\<close>

definition set_kind :: "execution_kind \<Rightarrow> exec_core \<Rightarrow> exec_core" where
  "set_kind kind c = c\<lparr>ec_kind := kind\<rparr>"

definition set_abort_policy :: "abort_policy \<Rightarrow> exec_core \<Rightarrow> exec_core" where
  "set_abort_policy policy c = c\<lparr>ec_abort_policy := policy\<rparr>"

definition set_lane_id :: "lane_id \<Rightarrow> exec_core \<Rightarrow> exec_core" where
  "set_lane_id lane c = c\<lparr>ec_lane_id := Some lane\<rparr>"

definition set_scope_of :: "scope_id \<Rightarrow> u64 \<Rightarrow> exec_core \<Rightarrow> exec_core" where
  "set_scope_of scope generation c = c\<lparr>ec_scope_id := Some scope, ec_scope_generation := Some generation\<rparr>"

text \<open>The core of a prepared execution; the runner that will drive it is that of \<open>exec_step\<close>.\<close>

definition prepare_spec :: "execution_id \<Rightarrow> task_spec \<Rightarrow> exec_core" where
  "prepare_spec fresh spec =
     set_abort_policy (ts_abort_policy spec) (core_new fresh (ts_id spec) True (ts_tag spec) [])"

definition prepare_exit_future :: "execution_id \<Rightarrow> task_spec_id \<Rightarrow> string option \<Rightarrow> exec_core" where
  "prepare_exit_future fresh spec_id tag = core_new fresh spec_id True tag []"

definition prepare_future_internal :: "execution_id \<Rightarrow> bool \<Rightarrow> future_config \<Rightarrow> exec_core" where
  "prepare_future_internal fresh registry config =
     core_new fresh (fc_task_spec_id config) registry (fc_tag config) (fc_ancestors config)"

definition prepare_future :: "execution_id \<Rightarrow> task_spec_id \<Rightarrow> exec_core" where
  "prepare_future fresh fresh_spec = prepare_future_internal fresh True (future_config_root fresh_spec WorkFuturePanic)"

text \<open>A child has no registry; its path continues that of its parent.\<close>

definition prepare_child :: "execution_id \<Rightarrow> task_spec_id \<Rightarrow> exec_core \<Rightarrow> exec_core" where
  "prepare_child fresh fresh_spec parent = prepare_future_internal fresh False
     \<lparr>fc_task_spec_id = fresh_spec, fc_tag = None, fc_panic_source = ChildPanic, fc_cancel_drops_future = True,
      fc_ancestors = ec_execution_path parent\<rparr>"

text \<open>The deadline watcher runs on its own: it is the second component, if there is a deadline.\<close>

definition prepare_retry :: "execution_id \<Rightarrow> 'f retry_spec \<Rightarrow> instant option \<Rightarrow> exec_core \<times> (execution_id \<times> instant) list" where
  "prepare_retry fresh spec limit =
     (set_abort_policy (rs_abort_policy spec) (prepare_exit_future fresh (rs_id spec) (rs_tag spec)),
      case limit of None \<Rightarrow> [] | Some at \<Rightarrow> [(fresh, at)])"

definition prepare_recurring :: "execution_id \<Rightarrow> 'f recurring_spec \<Rightarrow> exec_core" where
  "prepare_recurring fresh spec =
     set_abort_policy (cs_abort_policy spec)
       (set_kind Recurring (prepare_exit_future fresh (cs_id spec) (cs_tag spec)))"

definition prepare_service :: "execution_id \<Rightarrow> service_spec \<Rightarrow> exec_core \<times> service_state" where
  "prepare_service fresh spec =
     (set_abort_policy (sv_abort_policy spec)
        (set_kind Service (prepare_exit_future fresh (sv_id spec) (sv_tag spec))),
      service_state_new)"

section \<open>The state\<close>

text \<open>
  \<open>dp_started\<close> are the runners that were spawned and have not claimed their start, \<open>dp_running\<close> those
  that have; \<open>dp_watchers\<close> the deadline watchers.
\<close>

record deployment =
  dp_now :: instant
  dp_registry :: registry_state
  dp_lane :: lane_sys
  dp_lane_id :: lane_id
  dp_admission_open :: bool
  dp_started :: "execution_id list"
  dp_running :: "execution_id list"
  dp_watchers :: "(execution_id \<times> instant) list"

abbreviation core_of :: "deployment \<Rightarrow> execution_id \<Rightarrow> exec_core option" where
  "core_of d i \<equiv> map_of (reg_cores (dp_registry d)) i"

abbreviation lane_of :: "deployment \<Rightarrow> lane_state" where
  "lane_of d \<equiv> sys_lane (dp_lane d)"

definition put_core :: "exec_core \<Rightarrow> deployment \<Rightarrow> deployment" where
  "put_core c d = d\<lparr>dp_registry := (dp_registry d)\<lparr>reg_cores := AList.update (ec_execution_id c) c (reg_cores (dp_registry d))\<rparr>\<rparr>"

definition put_lane :: "lane_state \<Rightarrow> deployment \<Rightarrow> deployment" where
  "put_lane s d = d\<lparr>dp_lane := (dp_lane d)\<lparr>sys_lane := s\<rparr>\<rparr>"

text \<open>The exit a runner commits; its result cell is still empty.\<close>

definition commit_exit :: "execution_id \<Rightarrow> (nat, nat) task_exit \<Rightarrow> deployment \<Rightarrow> deployment" where
  "commit_exit i exit d = d\<lparr>dp_registry := snd (snd (registry_commit (dp_now d) (dp_now d) i None exit (dp_registry d)))\<rparr>"

text \<open>A start that is dropped drops its runner, whose guard commits.\<close>

definition drop_start :: "execution_id \<Rightarrow> deployment \<Rightarrow> deployment" where
  "drop_start i = commit_exit i (ExecutorStopped StopRunnerCancelled)"

section \<open>Stop requests\<close>

text \<open>The lane's answer to the cancel hook: the entry is removed and its start dropped.\<close>

definition unqueue :: "execution_id \<Rightarrow> deployment \<Rightarrow> deployment" where
  "unqueue i d =
     (case remove_queued i (lane_of d) of
        (s, signals) \<Rightarrow> if DropStart i \<in> set signals then drop_start i (put_lane s d) else put_lane s d)"

primrec run_effect :: "exec_effect \<Rightarrow> deployment \<Rightarrow> deployment" where
  "run_effect (EmitStateChanged snap) d = d\<lparr>dp_registry := emit (StateChanged snap) (dp_registry d)\<rparr>"
| "run_effect (RunHook hook) d = (case hook of RemoveQueued i \<Rightarrow> unqueue i d)"
| "run_effect (CancelControl i reason) d = d"
| "run_effect (WaitControl i) d = d"
| "run_effect AbortBody d = d"
| "run_effect (RegistryFinish i smry) d = d"

definition stop_execution :: "stop_cause \<Rightarrow> execution_id \<Rightarrow> deployment \<Rightarrow> cancel_request_outcome \<times> deployment" where
  "stop_execution cause i d =
     (case core_of d i of
        None \<Rightarrow> (AlreadyTerminal, d)
      | Some c \<Rightarrow>
          (case request_stop cause c of
             (outcome, c', effects) \<Rightarrow> (outcome, fold run_effect effects (put_core c' d))))"

definition cancel_all_of :: "cancel_reason \<Rightarrow> execution_id list \<Rightarrow> deployment \<Rightarrow> deployment" where
  "cancel_all_of reason is d = fold (\<lambda>i d. snd (stop_execution (CancelCause reason) i d)) is d"

section \<open>Submission\<close>

text \<open>
  \<open>insert_prepared\<close> with everything it does: the core learns its lane and its cancel hook, the lane
  takes the entry, the registry takes the core; a refusal drops the start.
\<close>

definition insert_submission ::
  "lane_params \<Rightarrow> exec_core \<Rightarrow> spawn_options \<Rightarrow> u64 option \<Rightarrow> deployment \<Rightarrow> (spawn_error + execution_id) \<times> deployment" where
  "insert_submission p core options ticket d =
     (let i = ec_execution_id core;
          d0 = put_core (install_queued_cancel_hook (RemoveQueued i) (set_lane_id (dp_lane_id d) core)) d
      in case insert_locked p i options ticket (lane_of d0) of
           (Inl error, s) \<Rightarrow> (Inl error, drop_start i (put_lane s d0))
         | (Inr _, s) \<Rightarrow>
             (case core_register i (dp_registry d0) of
                (Inl error, r) \<Rightarrow> (Inl (spawn_error_from error), unqueue i ((put_lane s d0)\<lparr>dp_registry := r\<rparr>))
              | (Inr _, r) \<Rightarrow> (Inr i, (put_lane s d0)\<lparr>dp_registry := r\<rparr>)))"

text \<open>What a caller submits without a deadline; a scope passes its identity and generation.\<close>

datatype (plugins only: code size) submission =
    SubmitSpec task_spec
  | SubmitFuture task_spec_id
  | SubmitRecurring "unit recurring_spec"

primrec prepare :: "execution_id \<Rightarrow> submission \<Rightarrow> exec_core" where
  "prepare fresh (SubmitSpec spec) = prepare_spec fresh spec"
| "prepare fresh (SubmitFuture spec_id) = prepare_future fresh spec_id"
| "prepare fresh (SubmitRecurring spec) = prepare_recurring fresh spec"

definition with_scope :: "(scope_id \<times> u64) option \<Rightarrow> exec_core \<Rightarrow> exec_core" where
  "with_scope scope c = (case scope of None \<Rightarrow> c | Some (s, generation) \<Rightarrow> set_scope_of s generation c)"

definition submit ::
  "lane_params \<Rightarrow> execution_id \<Rightarrow> submission \<Rightarrow> (scope_id \<times> u64) option \<Rightarrow> spawn_options \<Rightarrow> u64 option
   \<Rightarrow> deployment \<Rightarrow> (spawn_error + execution_id) \<times> deployment" where
  "submit p fresh sub scope options ticket d =
     (case check_try_admission_for p (dp_admission_open d) ticket (lane_of d) of
        Inl error \<Rightarrow> (Inl error, d)
      | Inr _ \<Rightarrow> insert_submission p (with_scope scope (prepare fresh sub)) options ticket d)"

text \<open>Whether a deadline has been reached at an instant.\<close>

definition limit_reached :: "instant option \<Rightarrow> instant \<Rightarrow> bool" where
  "limit_reached limit now \<longleftrightarrow> (case limit of None \<Rightarrow> False | Some at \<Rightarrow> at \<le> now)"

text \<open>
  The retry submission: the deadline is fixed at the call, tested before the admission lock is taken
  and, outside a scope, again under it; the watcher starts with the prepared execution.
\<close>

definition submit_retry ::
  "lane_params \<Rightarrow> execution_id \<Rightarrow> 'f retry_spec \<Rightarrow> (scope_id \<times> u64) option \<Rightarrow> instant \<Rightarrow> instant \<Rightarrow> instant
   \<Rightarrow> u64 option \<Rightarrow> deployment \<Rightarrow> (spawn_error + execution_id) \<times> deployment" where
  "submit_retry p fresh spec scope accepted_at now1 now2 ticket d =
     (case deadline_at spec accepted_at of
        Inl _ \<Rightarrow> (Inl AdmissionDeadlineExceeded, d)
      | Inr limit \<Rightarrow>
          if limit_reached limit now1 then (Inl AdmissionDeadlineExceeded, d)
          else case check_try_admission_for p (dp_admission_open d) ticket (lane_of d) of
            Inl error \<Rightarrow> (Inl error, d)
          | Inr _ \<Rightarrow>
              if scope = None \<and> limit_reached limit now2 then (Inl AdmissionDeadlineExceeded, d)
              else (case prepare_retry fresh spec limit of
                (core, watchers) \<Rightarrow>
                  insert_submission p (with_scope scope core) default_options ticket
                    (d\<lparr>dp_watchers := watchers @ dp_watchers d\<rparr>)))"

text \<open>The entry points: what a lane's handle, and a scope through it, offers for each kind of work.\<close>

definition try_spawn_scoped ::
  "lane_params \<Rightarrow> execution_id \<Rightarrow> task_spec \<Rightarrow> scope_id \<Rightarrow> u64 \<Rightarrow> deployment
   \<Rightarrow> (spawn_error + execution_id) \<times> deployment" where
  "try_spawn_scoped p fresh spec scope generation = submit p fresh (SubmitSpec spec) (Some (scope, generation)) default_options None"

definition try_spawn_future_scoped ::
  "lane_params \<Rightarrow> execution_id \<Rightarrow> task_spec_id \<Rightarrow> scope_id \<Rightarrow> u64 \<Rightarrow> deployment
   \<Rightarrow> (spawn_error + execution_id) \<times> deployment" where
  "try_spawn_future_scoped p fresh spec scope generation = submit p fresh (SubmitFuture spec) (Some (scope, generation)) default_options None"

definition try_spawn_recurring_scoped ::
  "lane_params \<Rightarrow> execution_id \<Rightarrow> unit recurring_spec \<Rightarrow> scope_id \<Rightarrow> u64 \<Rightarrow> deployment
   \<Rightarrow> (spawn_error + execution_id) \<times> deployment" where
  "try_spawn_recurring_scoped p fresh spec scope generation = submit p fresh (SubmitRecurring spec) (Some (scope, generation)) default_options None"

definition try_spawn_retry_scoped ::
  "lane_params \<Rightarrow> execution_id \<Rightarrow> 'f retry_spec \<Rightarrow> scope_id \<Rightarrow> u64 \<Rightarrow> instant \<Rightarrow> instant \<Rightarrow> deployment
   \<Rightarrow> (spawn_error + execution_id) \<times> deployment" where
  "try_spawn_retry_scoped p fresh spec scope generation accepted_at now =
     submit_retry p fresh spec (Some (scope, generation)) accepted_at now now None"

definition try_spawn_with_options ::
  "lane_params \<Rightarrow> execution_id \<Rightarrow> task_spec \<Rightarrow> spawn_options \<Rightarrow> deployment \<Rightarrow> (spawn_error + execution_id) \<times> deployment" where
  "try_spawn_with_options p fresh spec options = submit p fresh (SubmitSpec spec) None options None"

definition try_spawn_future_with_options ::
  "lane_params \<Rightarrow> execution_id \<Rightarrow> task_spec_id \<Rightarrow> spawn_options \<Rightarrow> deployment \<Rightarrow> (spawn_error + execution_id) \<times> deployment" where
  "try_spawn_future_with_options p fresh spec options = submit p fresh (SubmitFuture spec) None options None"

definition try_spawn_retry ::
  "lane_params \<Rightarrow> execution_id \<Rightarrow> 'f retry_spec \<Rightarrow> instant \<Rightarrow> instant \<Rightarrow> instant \<Rightarrow> deployment
   \<Rightarrow> (spawn_error + execution_id) \<times> deployment" where
  "try_spawn_retry p fresh spec accepted_at now1 now2 = submit_retry p fresh spec None accepted_at now1 now2 None"

definition try_spawn_recurring_with_options ::
  "lane_params \<Rightarrow> execution_id \<Rightarrow> unit recurring_spec \<Rightarrow> spawn_options \<Rightarrow> u64 option \<Rightarrow> deployment
   \<Rightarrow> (spawn_error + execution_id) \<times> deployment" where
  "try_spawn_recurring_with_options p fresh spec options ticket = submit p fresh (SubmitRecurring spec) None options ticket"

section \<open>Waiting submissions\<close>

text \<open>
  One turn of the loop of \<open>spawn\<close>: the attempt, and what its answer means for a producer with or
  without a place in the waiting queue.  The place is given back whenever the loop is left.
\<close>

datatype (plugins only: code size) turn_answer =
    TurnDone execution_id
  | TurnFailed spawn_error
  | TurnAgain u64
  | TurnWait u64

definition leave_waiting :: "lane_params \<Rightarrow> u64 option \<Rightarrow> deployment \<Rightarrow> deployment" where
  "leave_waiting p waiter d =
     (case waiter of None \<Rightarrow> d | Some ticket \<Rightarrow> put_lane (fst (waiter_finish p ticket (lane_of d))) d)"

definition after_attempt ::
  "lane_params \<Rightarrow> u64 option \<Rightarrow> spawn_error + execution_id \<Rightarrow> deployment \<Rightarrow> turn_answer \<times> deployment" where
  "after_attempt p waiter answer d =
     (case answer of
        Inr i \<Rightarrow> (TurnDone i, leave_waiting p waiter d)
      | Inl error \<Rightarrow>
          if error = SpQueueFull
          then (case waiter of
                  None \<Rightarrow>
                    (case waiter_new p (lane_of d) of
                       (Inl refused, s) \<Rightarrow> (TurnFailed refused, put_lane s d)
                     | (Inr ticket, s) \<Rightarrow> (TurnAgain ticket, put_lane s d))
                | Some ticket \<Rightarrow> (TurnWait ticket, d))
          else (TurnFailed error, leave_waiting p waiter d))"

definition spawn_turn ::
  "lane_params \<Rightarrow> execution_id \<Rightarrow> submission \<Rightarrow> spawn_options \<Rightarrow> u64 option \<Rightarrow> deployment \<Rightarrow> turn_answer \<times> deployment" where
  "spawn_turn p fresh sub options waiter d =
     (case submit p fresh sub None options waiter d of (answer, d') \<Rightarrow> after_attempt p waiter answer d')"

definition spawn_recurring_turn ::
  "lane_params \<Rightarrow> execution_id \<Rightarrow> unit recurring_spec \<Rightarrow> u64 option \<Rightarrow> deployment \<Rightarrow> turn_answer \<times> deployment" where
  "spawn_recurring_turn p fresh spec = spawn_turn p fresh (SubmitRecurring spec) default_options"

definition spawn_retry_turn ::
  "lane_params \<Rightarrow> execution_id \<Rightarrow> 'f retry_spec \<Rightarrow> instant \<Rightarrow> instant \<Rightarrow> instant \<Rightarrow> instant \<Rightarrow> u64 option
   \<Rightarrow> deployment \<Rightarrow> turn_answer \<times> deployment" where
  "spawn_retry_turn p fresh spec accepted_at now0 now1 now2 waiter d =
     (case deadline_at spec accepted_at of
        Inl _ \<Rightarrow> (TurnFailed AdmissionDeadlineExceeded, d)
      | Inr limit \<Rightarrow>
          if limit_reached limit now0 then (TurnFailed AdmissionDeadlineExceeded, leave_waiting p waiter d)
          else (case submit_retry p fresh spec None accepted_at now1 now2 waiter d of
                  (answer, d') \<Rightarrow> after_attempt p waiter answer d'))"

text \<open>
  The wait between two turns: the timer, where there is a limit, is asked first, then the producer's
  own signal.  None: still waiting.
\<close>

definition spawn_wait ::
  "lane_params \<Rightarrow> instant option \<Rightarrow> bool \<Rightarrow> instant \<Rightarrow> u64 \<Rightarrow> deployment \<Rightarrow> (spawn_error + unit) option \<times> deployment" where
  "spawn_wait p limit timer_ok now ticket d =
     (if limit \<noteq> None \<and> \<not> timer_ok then (Some (Inl SpTimerUnavailable), leave_waiting p (Some ticket) d)
      else if limit_reached limit now then (Some (Inl AdmissionDeadlineExceeded), leave_waiting p (Some ticket) d)
      else if (ticket, True) \<in> set (ls_waiting_queue (lane_of d))
      then (Some (Inr ()), put_lane (consume_permit ticket (lane_of d)) d)
      else (None, d))"

text \<open>
  \<open>spawn_timeout\<close>: its limit is fixed at the call; it polls the submission first and gives up, dropping
  it with its place in the waiting queue, when that is pending at the limit.
\<close>

definition spawn_timeout_limit :: "instant \<Rightarrow> duration \<Rightarrow> bool \<Rightarrow> spawn_error + instant" where
  "spawn_timeout_limit called_at timeout timer_ok =
     (case instant_checked_add called_at timeout of
        None \<Rightarrow> Inl AdmissionTimedOut
      | Some limit \<Rightarrow> if timer_ok then Inr limit else Inl SpTimerUnavailable)"

definition spawn_timeout_turn ::
  "lane_params \<Rightarrow> instant \<Rightarrow> instant \<Rightarrow> execution_id \<Rightarrow> task_spec \<Rightarrow> u64 option \<Rightarrow> deployment \<Rightarrow> turn_answer \<times> deployment" where
  "spawn_timeout_turn p limit now fresh spec waiter d =
     (case spawn_turn p fresh (SubmitSpec spec) default_options waiter d of
        (TurnWait ticket, d') \<Rightarrow>
          if limit \<le> now \<and> (ticket, True) \<notin> set (ls_waiting_queue (lane_of d'))
          then (TurnFailed AdmissionTimedOut, leave_waiting p (Some ticket) d') else (TurnWait ticket, d')
      | (turn, d') \<Rightarrow> (turn, d'))"

section \<open>Runners\<close>

text \<open>\<open>ExecutionStart::start\<close>; a runtime that rejects the runner drops it.\<close>

definition start_execution :: "bool \<Rightarrow> execution_id \<Rightarrow> deployment \<Rightarrow> deployment" where
  "start_execution runtime_ok i d =
     (case core_of d i of
        None \<Rightarrow> d
      | Some c \<Rightarrow>
          let d1 = put_core (clear_queued_cancel_hook c) d in
          if runtime_ok then d1\<lparr>dp_started := i # dp_started d\<rparr> else drop_start i d1)"

text \<open>\<open>spawn_spec\<close> and \<open>spawn_future_internal\<close>: no lane, registered and started at once.\<close>

definition spawn_prepared :: "bool \<Rightarrow> exec_core \<Rightarrow> deployment \<Rightarrow> (beaver_error + execution_id) \<times> deployment" where
  "spawn_prepared runtime_ok core d =
     (let i = ec_execution_id core; d0 = put_core core d in
      case core_register i (dp_registry d0) of
        (Inl error, r) \<Rightarrow> (Inl error, drop_start i (d0\<lparr>dp_registry := r\<rparr>))
      | (Inr _, r) \<Rightarrow> (Inr i, start_execution runtime_ok i (d0\<lparr>dp_registry := r\<rparr>)))"

text \<open>One pass of the dispatcher; every start gets a monitor.\<close>

definition dispatch :: "lane_params \<Rightarrow> deployment \<Rightarrow> deployment" where
  "dispatch p d =
     (case take_startable p (lane_of d) of
        (starts, should_exit, s, signals) \<Rightarrow>
          fold (start_execution True) starts
            (d\<lparr>dp_lane := (dp_lane d)\<lparr>sys_lane := s, sys_monitors := sys_monitors (dp_lane d) @ starts,
                 sys_dispatches := sys_dispatches (dp_lane d) + length starts\<rparr>\<rparr>))"

definition runner_claims :: "execution_id \<Rightarrow> deployment \<Rightarrow> deployment" where
  "runner_claims i d =
     (case core_of d i of
        None \<Rightarrow> d
      | Some c \<Rightarrow>
          (case claim_start c of
             (True, c', effects) \<Rightarrow>
               (fold run_effect effects (put_core c' d))
                 \<lparr>dp_started := removeAll i (dp_started d), dp_running := i # dp_running d\<rparr>
           | (False, c', effects) \<Rightarrow>
               (commit_exit i (ExecutorStopped StopRunnerCancelled) d)\<lparr>dp_started := removeAll i (dp_started d)\<rparr>))"

definition runner_ends :: "execution_id \<Rightarrow> (nat, nat) task_exit \<Rightarrow> deployment \<Rightarrow> deployment" where
  "runner_ends i exit d = (commit_exit i exit d)\<lparr>dp_running := removeAll i (dp_running d)\<rparr>"

definition runner_dropped :: "execution_id \<Rightarrow> deployment \<Rightarrow> deployment" where
  "runner_dropped i d = (drop_start i d)
     \<lparr>dp_started := removeAll i (dp_started d), dp_running := removeAll i (dp_running d)\<rparr>"

definition monitor_reports :: "execution_id \<Rightarrow> deployment \<Rightarrow> deployment" where
  "monitor_reports i d =
     (case execution_finished i (lane_of d) of
        (s, signals) \<Rightarrow> d\<lparr>dp_lane := (dp_lane d)\<lparr>sys_lane := s, sys_monitors := removeAll i (sys_monitors (dp_lane d))\<rparr>\<rparr>)"

section \<open>Closing and cancelling a lane\<close>

definition lane_close :: "deployment \<Rightarrow> execution_id list \<times> deployment" where
  "lane_close d = (case lane_request_close (lane_of d) of (listed, s, signals) \<Rightarrow> (listed, put_lane s d))"

definition close_and_cancel :: "cancel_reason \<Rightarrow> deployment \<Rightarrow> deployment" where
  "close_and_cancel reason d = (case lane_close d of (listed, d') \<Rightarrow> cancel_all_of reason listed d')"

definition lane_cancel_snapshot :: "cancel_reason \<Rightarrow> deployment \<Rightarrow> deployment" where
  "lane_cancel_snapshot reason d = cancel_all_of reason (ls_active (lane_of d)) d"

section \<open>Steps\<close>

datatype (plugins only: code size) dep_op =
    OpTick duration
  | OpSubmit execution_id submission "(scope_id \<times> u64) option" spawn_options "u64 option"
  | OpSubmitRetry execution_id "unit retry_spec" "(scope_id \<times> u64) option" instant instant instant "u64 option"
  | OpSpawnTurn execution_id submission spawn_options "u64 option"
  | OpSpawnRetryTurn execution_id "unit retry_spec" instant instant instant instant "u64 option"
  | OpSpawnTimeoutTurn instant execution_id task_spec "u64 option"
  | OpSpawnWait "instant option" bool u64
  | OpSpawnAbandoned u64
  | OpSpawn bool execution_id submission
  | OpStop stop_cause execution_id
  | OpCancelSelected task_selector cancel_reason
  | OpDispatch
  | OpClaim execution_id
  | OpEnd execution_id "(nat, nat) task_exit"
  | OpDropRunner execution_id
  | OpMonitor execution_id
  | OpDeadline execution_id instant
  | OpLaneClose
  | OpLaneCloseAndCancel cancel_reason
  | OpLaneCancel cancel_reason
  | OpCloseAdmission
  | OpOwnersGone

fun dep_exec :: "lane_params \<Rightarrow> dep_op \<Rightarrow> deployment \<Rightarrow> deployment option" where
  "dep_exec p (OpTick t) d = Some (d\<lparr>dp_now := dp_now d + t\<rparr>)"
| "dep_exec p (OpSubmit i sub scope options ticket) d =
     (if core_of d i = None \<and> opt_priority options \<le> highest_priority
      then Some (snd (submit p i sub scope options ticket d)) else None)"
| "dep_exec p (OpSubmitRetry i spec scope accepted_at now1 now2 ticket) d =
     (if core_of d i = None then Some (snd (submit_retry p i spec scope accepted_at now1 now2 ticket d)) else None)"
| "dep_exec p (OpSpawnTurn i sub options waiter) d =
     (if core_of d i = None \<and> opt_priority options \<le> highest_priority
      then Some (snd (spawn_turn p i sub options waiter d)) else None)"
| "dep_exec p (OpSpawnRetryTurn i spec accepted_at now0 now1 now2 waiter) d =
     (if core_of d i = None then Some (snd (spawn_retry_turn p i spec accepted_at now0 now1 now2 waiter d)) else None)"
| "dep_exec p (OpSpawnTimeoutTurn limit i spec waiter) d =
     (if core_of d i = None then Some (snd (spawn_timeout_turn p limit (dp_now d) i spec waiter d)) else None)"
| "dep_exec p (OpSpawnWait limit timer_ok ticket) d = Some (snd (spawn_wait p limit timer_ok (dp_now d) ticket d))"
| "dep_exec p (OpSpawnAbandoned ticket) d = Some (leave_waiting p (Some ticket) d)"
| "dep_exec p (OpSpawn runtime_ok i sub) d =
     (if core_of d i = None then Some (snd (spawn_prepared runtime_ok (prepare i sub) d)) else None)"
| "dep_exec p (OpStop cause i) d = Some (snd (stop_execution cause i d))"
| "dep_exec p (OpCancelSelected selector reason) d =
     Some (cancel_all_of reason (select_controls selector (dp_registry d)) d)"
| "dep_exec p OpDispatch d = Some (dispatch p d)"
| "dep_exec p (OpClaim i) d = (if i \<in> set (dp_started d) then Some (runner_claims i d) else None)"
| "dep_exec p (OpEnd i exit) d = (if i \<in> set (dp_running d) then Some (runner_ends i exit d) else None)"
| "dep_exec p (OpDropRunner i) d =
     (if i \<in> set (dp_started d) \<union> set (dp_running d) then Some (runner_dropped i d) else None)"
| "dep_exec p (OpMonitor i) d =
     (if i \<in> set (sys_monitors (dp_lane d)) \<and> (\<exists>c \<in> set_option (core_of d i). ec_terminal_watch c \<noteq> None)
      then Some (monitor_reports i d) else None)"
| "dep_exec p (OpDeadline i at) d =
     (if (i, at) \<in> set (dp_watchers d) \<and> at \<le> dp_now d
      then Some ((snd (stop_execution DeadlineCause i d))\<lparr>dp_watchers := removeAll (i, at) (dp_watchers d)\<rparr>) else None)"
| "dep_exec p OpLaneClose d = Some (snd (lane_close d))"
| "dep_exec p (OpLaneCloseAndCancel reason) d = Some (close_and_cancel reason d)"
| "dep_exec p (OpLaneCancel reason) d = Some (lane_cancel_snapshot reason d)"
| "dep_exec p OpCloseAdmission d = Some (d\<lparr>dp_admission_open := False\<rparr>)"
| "dep_exec p OpOwnersGone d = Some (cancel_all_of ExecutorShutdown (reg_active (dp_registry d)) d)"

definition dep_new :: "resource_limits \<Rightarrow> lane_id \<Rightarrow> deployment" where
  "dep_new limits lane = \<lparr>dp_now = 0, dp_registry = registry_new limits,
     dp_lane = \<lparr>sys_lane = lane_state_new, sys_monitors = [], sys_dispatches = 0\<rparr>, dp_lane_id = lane,
     dp_admission_open = True, dp_started = [], dp_running = [], dp_watchers = []\<rparr>"

definition dep_init :: "deployment \<Rightarrow> bool" where
  "dep_init d \<longleftrightarrow> (\<exists>limits lane. d = dep_new limits lane)"

definition dep_step :: "lane_params \<Rightarrow> deployment \<Rightarrow> deployment \<Rightarrow> bool" where
  "dep_step p d d' \<longleftrightarrow> (\<exists>op. dep_exec p op d = Some d')"

fun dep_run :: "lane_params \<Rightarrow> dep_op list \<Rightarrow> deployment \<Rightarrow> deployment option" where
  "dep_run p [] d = Some d"
| "dep_run p (op # ops) d = (case dep_exec p op d of None \<Rightarrow> None | Some d' \<Rightarrow> dep_run p ops d')"

end
