(* ===== verification/BB_Submission_Props.thy ===== *)
theory BB_Submission_Props
  imports BB_Submission BB_Lane_Props
begin

text \<open>
  The lane, the registry and the executions agree: what the registry counts as active is what is
  queued or has a runner, everything else that was ever prepared is terminal.  From it: what a
  submission's answer means, what a stop request does to a queued execution, that submitting and
  cancelling leaves the lane as it was, and that closing a lane with cancellation leaves nothing
  unstopped.
\<close>

section \<open>Committing\<close>

definition committed :: "(nat, nat) task_exit \<Rightarrow> exec_core \<Rightarrow> exec_core" where
  "committed exit c =
     (let smry = summary (select_exit (stop_cause (ec_state c)) exit)
      in c\<lparr>ec_state := (ec_state c)\<lparr>public_state := summary_state smry, terminal := Some smry\<rparr>,
           ec_terminal_watch := Some smry\<rparr>)"

definition core_dead :: "exec_core \<Rightarrow> bool" where
  "core_dead c \<longleftrightarrow> terminal (ec_state c) \<noteq> None \<and> ec_terminal_watch c = terminal (ec_state c)"

lemma committed_simps [simp]:
  "ec_execution_id (committed exit c) = ec_execution_id c" "core_dead (committed exit c)"
  "terminal (ec_state (committed exit c)) = Some (summary (select_exit (stop_cause (ec_state c)) exit))"
  by (simp_all add: committed_def core_dead_def Let_def)

lemma put_core_simps [simp]:
  "dp_now (put_core c d) = dp_now d" "dp_lane (put_core c d) = dp_lane d" "dp_lane_id (put_core c d) = dp_lane_id d"
  "dp_admission_open (put_core c d) = dp_admission_open d" "dp_started (put_core c d) = dp_started d"
  "dp_running (put_core c d) = dp_running d" "dp_watchers (put_core c d) = dp_watchers d"
  "reg_active (dp_registry (put_core c d)) = reg_active (dp_registry d)"
  "reg_limits (dp_registry (put_core c d)) = reg_limits (dp_registry d)"
  "reg_history (dp_registry (put_core c d)) = reg_history (dp_registry d)"
  "reg_events (dp_registry (put_core c d)) = reg_events (dp_registry d)"
  "core_of (put_core c d) j = (if j = ec_execution_id c then Some c else core_of d j)"
  by (simp_all add: put_core_def map_of_update)

lemma put_lane_simps [simp]:
  "dp_now (put_lane s d) = dp_now d" "sys_lane (dp_lane (put_lane s d)) = s"
  "sys_monitors (dp_lane (put_lane s d)) = sys_monitors (dp_lane d)" "dp_registry (put_lane s d) = dp_registry d"
  "dp_lane_id (put_lane s d) = dp_lane_id d" "dp_admission_open (put_lane s d) = dp_admission_open d"
  "dp_started (put_lane s d) = dp_started d" "dp_running (put_lane s d) = dp_running d"
  "dp_watchers (put_lane s d) = dp_watchers d"
  by (simp_all add: put_lane_def)

lemma commit_live:
  assumes "terminal (ec_state c) = None"
  shows "commit c None exit = (True, committed exit c, Some (select_exit (stop_cause (ec_state c)) exit),
    if ec_registered c \<and> ec_has_registry c
    then [RegistryFinish (ec_execution_id c) (summary (select_exit (stop_cause (ec_state c)) exit))] else [])"
  using assms by (simp add: commit_def commit_locked_def result_store_def commit_publish_def committed_def Let_def)

lemma commit_exit_live:
  assumes "core_of d i = Some c" and "terminal (ec_state c) = None" and "ec_execution_id c = i"
  shows "commit_exit i exit d =
    (if ec_registered c \<and> ec_has_registry c
     then (put_core (committed exit c) d)\<lparr>dp_registry :=
       registry_finish (dp_now d) (dp_now d) i (summary (select_exit (stop_cause (ec_state c)) exit))
         (dp_registry (put_core (committed exit c) d))\<rparr>
     else put_core (committed exit c) d)"
  using assms by (simp add: commit_exit_def registry_commit_def commit_live put_core_def Let_def)

lemma commit_exit_fields:
  assumes "core_of d i = Some c" and "terminal (ec_state c) = None" and "ec_execution_id c = i"
  shows "core_of (commit_exit i exit d) j = (if j = i then Some (committed exit c) else core_of d j)"
    and "reg_active (dp_registry (commit_exit i exit d))
      = (if ec_registered c \<and> ec_has_registry c then removeAll i (reg_active (dp_registry d)) else reg_active (dp_registry d))"
  by (simp_all add: commit_exit_live [OF assms] assms(3))

lemma commit_exit_simps [simp]:
  "dp_now (commit_exit i exit d) = dp_now d" "dp_lane (commit_exit i exit d) = dp_lane d"
  "dp_lane_id (commit_exit i exit d) = dp_lane_id d" "dp_admission_open (commit_exit i exit d) = dp_admission_open d"
  "dp_started (commit_exit i exit d) = dp_started d" "dp_running (commit_exit i exit d) = dp_running d"
  "dp_watchers (commit_exit i exit d) = dp_watchers d"
  by (simp_all add: commit_exit_def)

section \<open>The lane's part\<close>

lemma queue_entries: "lane_inv p y \<Longrightarrow> set (keys (ls_entries (sys_lane y))) = set (ls_queue (sys_lane y))"
  by (simp add: lane_inv_def state_inv_def queue_inv_def)

lemma decrement_queue [simp]:
  "ls_queue (decrement_ordering_key_refcount key s) = ls_queue s"
  "ls_active (decrement_ordering_key_refcount key s) = ls_active s"
  "ls_runtime_unavailable (decrement_ordering_key_refcount key s) = ls_runtime_unavailable s"
  by (simp_all add: decrement_ordering_key_refcount_def split: option.split)

lemma remove_queued_cases:
  assumes "lane_inv p y" and "remove_queued i (sys_lane y) = (s, signals)"
  shows "i \<notin> set (ls_queue (sys_lane y)) \<and> s = sys_lane y \<and> signals = []
    \<or> i \<in> set (ls_queue (sys_lane y)) \<and> DropStart i \<in> set signals
      \<and> ls_queue s = removeAll i (ls_queue (sys_lane y)) \<and> ls_active s = removeAll i (ls_active (sys_lane y))
      \<and> ls_runtime_unavailable s = ls_runtime_unavailable (sys_lane y)"
proof (cases "map_of (ls_entries (sys_lane y)) i")
  case None
  then have "i \<notin> set (ls_queue (sys_lane y))" using queue_entries [OF assms(1)] by (simp add: map_of_eq_None_iff)
  with None assms(2) show ?thesis by (simp add: remove_queued_def remove_queued_locked_def)
next
  case (Some e)
  then have "i \<in> set (ls_queue (sys_lane y))" using queue_entries [OF assms(1)] by (force dest: map_of_SomeD)
  moreover have "filter (\<lambda>j. j \<noteq> i) xs = removeAll i xs" for xs :: "execution_id list" by (induction xs) auto
  ultimately show ?thesis
    using Some assms(2) by (auto simp: remove_queued_def remove_queued_locked_def Let_def
        same_but_permits_fields [OF same_but_permits_ops(1)] split: option.splits)
qed

lemma remove_queued_result:
  assumes "lane_inv p y" and "remove_queued i (sys_lane y) = (s, signals)"
  shows "ls_queue s = removeAll i (ls_queue (sys_lane y))" and "DropStart i \<in> set signals \<longleftrightarrow> i \<in> set (ls_queue (sys_lane y))"
    and "lane_inv p (y\<lparr>sys_lane := s\<rparr>)" and "ls_runtime_unavailable s = ls_runtime_unavailable (sys_lane y)"
    and "set (ls_active s) = set (ls_active (sys_lane y)) - (if i \<in> set (ls_queue (sys_lane y)) then {i} else {})"
  using remove_queued_cases [OF assms] lane_inv_step [OF assms(1) lane_remove [OF assms(2)]] by auto

section \<open>The invariant\<close>

abbreviation queued :: "deployment \<Rightarrow> execution_id set" where
  "queued d \<equiv> set (ls_queue (lane_of d))"

abbreviation with_runner :: "deployment \<Rightarrow> execution_id set" where
  "with_runner d \<equiv> set (dp_started d) \<union> set (dp_running d)"

definition core_live :: "exec_core \<Rightarrow> bool" where
  "core_live c \<longleftrightarrow> ec_registered c \<and> ec_has_registry c \<and> terminal (ec_state c) = None \<and> ec_terminal_watch c = None"

definition core_queued :: "execution_id \<Rightarrow> exec_core \<Rightarrow> bool" where
  "core_queued i c \<longleftrightarrow> core_live c \<and> stop_cause (ec_state c) = None \<and> ec_queued_cancel_hook c = Some (RemoveQueued i)
     \<and> controls (ec_children c) = []"

definition core_ok :: "deployment \<Rightarrow> execution_id \<Rightarrow> exec_core \<Rightarrow> bool" where
  "core_ok d i c \<longleftrightarrow>
     (if i \<in> queued d then core_queued i c
      else if i \<in> with_runner d then core_live c \<and> ec_queued_cancel_hook c = None
      else core_dead c)"

definition deployment_inv :: "lane_params \<Rightarrow> deployment \<Rightarrow> bool" where
  "deployment_inv p d \<longleftrightarrow>
     lane_inv p (dp_lane d) \<and> \<not> ls_runtime_unavailable (lane_of d) \<and> registry_inv (dp_now d, dp_registry d)
     \<and> (\<forall>i c. core_of d i = Some c \<longrightarrow> core_ok d i c)
     \<and> queued d \<union> with_runner d \<union> set (sys_monitors (dp_lane d)) \<subseteq> {i. core_of d i \<noteq> None}
     \<and> distinct (dp_started d) \<and> distinct (dp_running d) \<and> set (dp_started d) \<inter> set (dp_running d) = {}
     \<and> queued d \<inter> with_runner d = {}
     \<and> set (reg_active (dp_registry d)) = queued d \<union> with_runner d"

lemma core_identity: "deployment_inv p d \<Longrightarrow> core_of d i = Some c \<Longrightarrow> ec_execution_id c = i"
  by (simp add: deployment_inv_def registry_inv_def cores_ok_def)

lemma lane_active_cores:
  assumes "deployment_inv p d" and "i \<in> set (ls_active (lane_of d))"
  shows "core_of d i \<noteq> None"
proof -
  have "set (ls_active (lane_of d)) = queued d \<union> set (sys_monitors (dp_lane d))"
    using assms(1) by (simp add: deployment_inv_def lane_inv_def state_inv_def queue_inv_def)
  with assms show ?thesis unfolding deployment_inv_def by blast
qed

text \<open>A step that changes one execution only.\<close>

lemma deployment_inv_change:
  assumes inv: "deployment_inv p d"
    and lane: "lane_inv p (dp_lane d')" "\<not> ls_runtime_unavailable (lane_of d')"
    and reg: "registry_inv (dp_now d', dp_registry d')"
    and others: "\<And>j. j \<noteq> i \<Longrightarrow> core_of d' j = core_of d j" "queued d' - {i} = queued d - {i}"
      "set (dp_started d') - {i} = set (dp_started d) - {i}" "set (dp_running d') - {i} = set (dp_running d) - {i}"
      "set (sys_monitors (dp_lane d')) \<subseteq> set (sys_monitors (dp_lane d))"
      "set (reg_active (dp_registry d')) - {i} = set (reg_active (dp_registry d)) - {i}"
    and distinct: "distinct (dp_started d')" "distinct (dp_running d')"
    and core: "core_of d' i = Some c" "core_ok d' i c"
    and phase: "\<not> (i \<in> set (dp_started d') \<and> i \<in> set (dp_running d'))" "\<not> (i \<in> queued d' \<and> i \<in> with_runner d')"
      "i \<in> set (reg_active (dp_registry d')) \<longleftrightarrow> i \<in> queued d' \<or> i \<in> with_runner d'"
  shows "deployment_inv p d'"
proof -
  have q: "j \<in> queued d' \<longleftrightarrow> j \<in> queued d" and st: "j \<in> set (dp_started d') \<longleftrightarrow> j \<in> set (dp_started d)"
    and ru: "j \<in> set (dp_running d') \<longleftrightarrow> j \<in> set (dp_running d)"
    and ac: "j \<in> set (reg_active (dp_registry d')) \<longleftrightarrow> j \<in> set (reg_active (dp_registry d))" if "j \<noteq> i" for j
    using others(2,3,4,6) that by blast+
  have cores: "\<forall>j c'. core_of d' j = Some c' \<longrightarrow> core_ok d' j c'"
  proof (intro allI impI)
    fix j c' assume that: "core_of d' j = Some c'"
    show "core_ok d' j c'"
    proof (cases "j = i")
      case False
      with that others(1) have "core_of d j = Some c'" by simp
      then have "core_ok d j c'" using inv by (simp add: deployment_inv_def)
      then show ?thesis using q [OF False] st [OF False] ru [OF False] by (simp add: core_ok_def)
    qed (use that core in simp)
  qed
  have dom: "queued d' \<union> with_runner d' \<union> set (sys_monitors (dp_lane d')) \<subseteq> {j. core_of d' j \<noteq> None}"
  proof (intro subsetI CollectI)
    fix j assume that: "j \<in> queued d' \<union> with_runner d' \<union> set (sys_monitors (dp_lane d'))"
    show "core_of d' j \<noteq> None"
    proof (cases "j = i")
      case False
      then have "j \<in> queued d \<union> with_runner d \<union> set (sys_monitors (dp_lane d))"
        using that q st ru others(5) by blast
      with inv have "core_of d j \<noteq> None" unfolding deployment_inv_def by blast
      with others(1) [OF False] show ?thesis by simp
    qed (use core in simp)
  qed
  have disj1: "set (dp_started d') \<inter> set (dp_running d') = {}"
  proof (rule equals0I)
    fix j assume j: "j \<in> set (dp_started d') \<inter> set (dp_running d')"
    have "set (dp_started d) \<inter> set (dp_running d) = {}" using inv by (simp add: deployment_inv_def)
    with j st [of j] ru [of j] phase(1) show False by (cases "j = i") auto
  qed
  have disj2: "queued d' \<inter> with_runner d' = {}"
  proof (rule equals0I)
    fix j assume j: "j \<in> queued d' \<inter> with_runner d'"
    have "queued d \<inter> with_runner d = {}" using inv by (simp add: deployment_inv_def)
    with j q [of j] st [of j] ru [of j] phase(2) show False by (cases "j = i") auto
  qed
  have act: "set (reg_active (dp_registry d')) = queued d' \<union> with_runner d'"
  proof (rule set_eqI)
    have e: "set (reg_active (dp_registry d)) = queued d \<union> with_runner d" using inv by (simp add: deployment_inv_def)
    fix j show "j \<in> set (reg_active (dp_registry d')) \<longleftrightarrow> j \<in> queued d' \<union> with_runner d'"
    proof (cases "j = i")
      case False
      then show ?thesis using q [of j] st [of j] ru [of j] ac [of j] e by auto
    qed (use phase(3) in simp)
  qed
  show ?thesis unfolding deployment_inv_def by (intro conjI lane reg distinct cores dom disj1 disj2 act)
qed

lemma deployment_parts:
  assumes "deployment_inv p d"
  shows "lane_inv p (dp_lane d)" "\<not> ls_runtime_unavailable (lane_of d)" "registry_inv (dp_now d, dp_registry d)"
    "distinct (dp_started d)" "distinct (dp_running d)" "set (dp_started d) \<inter> set (dp_running d) = {}"
    "queued d \<inter> with_runner d = {}" "set (reg_active (dp_registry d)) = queued d \<union> with_runner d"
  using assms by (simp_all add: deployment_inv_def)

lemma deployment_core: "deployment_inv p d \<Longrightarrow> core_of d i = Some c \<Longrightarrow> core_ok d i c"
  by (simp add: deployment_inv_def)

lemma deployment_known:
  "deployment_inv p d \<Longrightarrow> i \<in> queued d \<union> with_runner d \<Longrightarrow> \<exists>c. core_of d i = Some c"
  unfolding deployment_inv_def by blast

lemma deployment_unknown:
  assumes "deployment_inv p d" and "core_of d i = None"
  shows "i \<notin> queued d" "i \<notin> with_runner d" "i \<notin> set (sys_monitors (dp_lane d))"
    "i \<notin> set (reg_active (dp_registry d))" "i \<notin> set (ls_active (lane_of d))"
  using assms deployment_known [OF assms(1)] lane_active_cores [OF assms(1), of i] deployment_parts(8) [OF assms(1)]
  unfolding deployment_inv_def by blast+

text \<open>The live executions are those that are queued or have a runner.\<close>

lemma deployment_live:
  assumes "deployment_inv p d" and "core_of d i = Some c"
  shows "terminal (ec_state c) = None \<longleftrightarrow> i \<in> queued d \<union> with_runner d"
  using deployment_core [OF assms] by (auto simp: core_ok_def core_queued_def core_live_def core_dead_def split: if_splits)

section \<open>Every operation keeps it\<close>

lemma registry_inv_put_core: "registry_inv (t, dp_registry d) \<Longrightarrow> registry_inv (t, dp_registry (put_core c d))"
  by (rule registry_inv_core_update [where i = "ec_execution_id c" and c = c]) (simp_all add: put_core_def)

lemma registry_inv_commit_exit:
  "registry_inv (dp_now d, dp_registry d) \<Longrightarrow> registry_inv (dp_now d, dp_registry (commit_exit i exit d))"
  by (cases "registry_commit (dp_now d) (dp_now d) i None exit (dp_registry d)")
    (simp add: commit_exit_def registry_commit_inv)

lemma registry_inv_events: "registry_inv (t, r) \<Longrightarrow> registry_inv (t, fold record_effect es r)"
  by (simp add: registry_inv_defs)

lemma runner_gone_inv:
  assumes inv: "deployment_inv p d" and i: "i \<in> with_runner d"
  shows "deployment_inv p ((commit_exit i exit d)
    \<lparr>dp_started := removeAll i (dp_started d), dp_running := removeAll i (dp_running d)\<rparr>)" (is "deployment_inv p ?d")
proof -
  obtain c where c: "core_of d i = Some c" using deployment_known [OF inv] i by blast
  have q: "i \<notin> queued d" using deployment_parts(7) [OF inv] i by blast
  with deployment_core [OF inv c] i have live: "core_live c" by (simp add: core_ok_def)
  note commit = commit_exit_fields [OF c _ core_identity [OF inv c], of exit]
  have t: "terminal (ec_state c) = None" and rg: "ec_registered c" "ec_has_registry c" using live by (simp_all add: core_live_def)
  show ?thesis
  proof (rule deployment_inv_change [OF inv, where i = i and c = "committed exit c"])
    show "registry_inv (dp_now ?d, dp_registry ?d)" using registry_inv_commit_exit [OF deployment_parts(3) [OF inv]] by simp
  qed (use deployment_parts [OF inv] q t rg in \<open>auto simp: commit core_ok_def distinct_removeAll\<close>)
qed

lemma started_unchanged [simp]: "dp_started x = l \<Longrightarrow> x\<lparr>dp_started := l, dp_running := m\<rparr> = x\<lparr>dp_running := m\<rparr>"
  and running_unchanged [simp]: "dp_running x = m \<Longrightarrow> x\<lparr>dp_started := l, dp_running := m\<rparr> = x\<lparr>dp_started := l\<rparr>"
  by (cases x; simp)+

lemma runner_ends_inv: "deployment_inv p d \<Longrightarrow> i \<in> set (dp_running d) \<Longrightarrow> deployment_inv p (runner_ends i exit d)"
proof -
  assume inv: "deployment_inv p d" and i: "i \<in> set (dp_running d)"
  then have "removeAll i (dp_started d) = dp_started d"
    using deployment_parts(6) [OF inv] by (intro removeAll_id) blast
  with runner_gone_inv [OF inv, of i exit] i show ?thesis by (simp add: runner_ends_def)
qed

lemma runner_dropped_inv: "deployment_inv p d \<Longrightarrow> i \<in> with_runner d \<Longrightarrow> deployment_inv p (runner_dropped i d)"
  using runner_gone_inv [of p d i] by (simp add: runner_dropped_def drop_start_def)

text \<open>A change of one live core that has its runner.\<close>

lemma put_runner_core_inv:
  assumes inv: "deployment_inv p d" and i: "i \<in> with_runner d" and id: "ec_execution_id c = i"
    and live: "core_live c" "ec_queued_cancel_hook c = None"
    and runners: "set started \<inter> set running = {}" "set started \<union> set running = with_runner d"
      "set started - {i} = set (dp_started d) - {i}" "set running - {i} = set (dp_running d) - {i}"
      "distinct started" "distinct running"
  shows "deployment_inv p ((put_core c d)
    \<lparr>dp_registry := fold record_effect es (dp_registry (put_core c d)), dp_started := started, dp_running := running\<rparr>)"
    (is "deployment_inv p ?d")
proof (rule deployment_inv_change [OF inv, where i = i and c = c])
  show "registry_inv (dp_now ?d, dp_registry ?d)"
    using registry_inv_events [OF registry_inv_put_core [OF deployment_parts(3) [OF inv]]] by simp
  have q: "i \<notin> queued d" using deployment_parts(7) [OF inv] i by blast
  with i live runners(2) show "core_ok ?d i c" by (simp add: core_ok_def)
  show "\<not> (i \<in> queued ?d \<and> i \<in> with_runner ?d)" using q by simp
  show "i \<in> set (reg_active (dp_registry ?d)) \<longleftrightarrow> i \<in> queued ?d \<or> i \<in> with_runner ?d"
    using q i runners(2) deployment_parts(8) [OF inv] by simp
qed (use deployment_parts [OF inv] id runners in auto)

lemma run_events: "fold run_effect (emit_state c) d = d\<lparr>dp_registry := fold record_effect (emit_state c) (dp_registry d)\<rparr>"
  by (simp add: emit_state_def)

lemma runner_claims_inv:
  assumes inv: "deployment_inv p d" and i: "i \<in> set (dp_started d)"
  shows "deployment_inv p (runner_claims i d)"
proof -
  obtain c where c: "core_of d i = Some c" using deployment_known [OF inv] i by blast
  have not: "i \<notin> queued d" "i \<notin> set (dp_running d)"
    using deployment_parts(6,7) [OF inv] i by blast+
  with deployment_core [OF inv c] i have live: "core_live c" "ec_queued_cancel_hook c = None" by (simp_all add: core_ok_def)
  show ?thesis
  proof (cases "stop_cause (ec_state c) = None")
    case True
    let ?c = "c\<lparr>ec_state := (ec_state c)\<lparr>public_state := Running 1\<rparr>\<rparr>"
    have "runner_claims i d = (put_core ?c d)\<lparr>dp_registry := fold record_effect (emit_state ?c) (dp_registry (put_core ?c d)),
        dp_started := removeAll i (dp_started d), dp_running := i # dp_running d\<rparr>"
      using True live c by (simp add: runner_claims_def claim_start_def core_live_def run_events Let_def)
    moreover have "deployment_inv p \<dots>"
      by (rule put_runner_core_inv [OF inv, where i = i])
        (use i not live core_identity [OF inv c] deployment_parts(4-6) [OF inv] in
          \<open>auto simp: core_live_def distinct_removeAll\<close>)
    ultimately show ?thesis by simp
  next
    case False
    then have "runner_claims i d = (commit_exit i (ExecutorStopped StopRunnerCancelled) d)
        \<lparr>dp_started := removeAll i (dp_started d), dp_running := removeAll i (dp_running d)\<rparr>"
      using c not by (simp add: runner_claims_def claim_start_def removeAll_id)
    then show ?thesis using runner_gone_inv [OF inv, of i] i by simp
  qed
qed

section \<open>Stop requests\<close>

definition stopped_core :: "stop_cause \<Rightarrow> exec_core \<Rightarrow> exec_core" where
  "stopped_core cause c = c\<lparr>ec_state := (ec_state c)\<lparr>stop_cause := Some cause, public_state := Stopping cause\<rparr>,
     ec_queued_cancel_hook := None, ec_cancellation := True\<rparr>"

lemma stopped_core_simps [simp]:
  "ec_execution_id (stopped_core cause c) = ec_execution_id c" "core_live (stopped_core cause c) = core_live c"
  "terminal (ec_state (stopped_core cause c)) = terminal (ec_state c)"
  "stop_cause (ec_state (stopped_core cause c)) = Some cause" "ec_queued_cancel_hook (stopped_core cause c) = None"
  "ec_registered (stopped_core cause c) = ec_registered c" "ec_has_registry (stopped_core cause c) = ec_has_registry c"
  by (simp_all add: stopped_core_def core_live_def)

lemma put_core_same: "core_of d (ec_execution_id c) = Some c \<Longrightarrow> put_core c d = d"
  by (simp add: put_core_def update_triv)

lemma stop_not_requested:
  assumes "core_of d i = Some c" and "ec_execution_id c = i"
    and "terminal (ec_state c) \<noteq> None \<or> stop_cause (ec_state c) \<noteq> None"
  shows "snd (stop_execution cause i d) = d"
  using assms by (auto simp: stop_execution_def request_stop_def request_stop_mark_def put_core_same)

lemma run_children: "fold run_effect (map (\<lambda>child. CancelControl child reason) xs) d = d"
  by (induction xs arbitrary: d) simp_all

lemma stop_requested:
  assumes "core_of d i = Some c" and "terminal (ec_state c) = None" and "stop_cause (ec_state c) = None"
  shows "stop_execution cause i d =
    (Requested,
     let d1 = fold run_effect (emit_state (stopped_core cause c)) (put_core (stopped_core cause c) d)
     in case ec_queued_cancel_hook c of None \<Rightarrow> d1 | Some hook \<Rightarrow> run_effect (RunHook hook) d1)"
proof -
  have "stopped_core cause c = c\<lparr>ec_state := (ec_state c)\<lparr>stop_cause := Some cause, public_state := Stopping cause\<rparr>,
      ec_queued_cancel_hook := None, ec_cancellation := True\<rparr>" by (simp add: stopped_core_def)
  with assms show ?thesis
    by (simp add: stop_execution_def request_stop_def request_stop_mark_def request_stop_publish_def Let_def
        run_children map_map [symmetric] o_def del: map_map run_effect.simps split: option.split)
qed

text \<open>A queued execution: its entry goes, and its start is dropped with the cause already recorded.\<close>

lemma stop_queued:
  assumes inv: "deployment_inv p d" and c: "core_of d i = Some c" and i: "i \<in> queued d"
  obtains s signals where "remove_queued i (lane_of d) = (s, signals)"
    and "stop_execution cause i d = (Requested, drop_start i (put_lane s
      ((put_core (stopped_core cause c) d)\<lparr>dp_registry := fold record_effect (emit_state (stopped_core cause c))
          (dp_registry (put_core (stopped_core cause c) d))\<rparr>)))"
proof -
  obtain s signals where r: "remove_queued i (lane_of d) = (s, signals)" by fastforce
  have q: "core_queued i c" using deployment_core [OF inv c] i by (simp add: core_ok_def)
  have "DropStart i \<in> set signals" using remove_queued_result(2) [OF deployment_parts(1) [OF inv] r] i by simp
  with r q show ?thesis
    by (intro that [OF r]) (simp add: stop_requested [OF c] core_queued_def core_live_def run_events unqueue_def Let_def)
qed

lemma stop_queued_result:
  fixes cause
  assumes inv: "deployment_inv p d" and c: "core_of d i = Some c" and i: "i \<in> queued d"
  defines "d' \<equiv> snd (stop_execution cause i d)"
  shows "core_of d' j = (if j = i then Some (committed (ExecutorStopped StopRunnerCancelled) (stopped_core cause c)) else core_of d j)"
    and "lane_of d' = fst (remove_queued i (lane_of d))" and "sys_monitors (dp_lane d') = sys_monitors (dp_lane d)"
    and "reg_active (dp_registry d') = removeAll i (reg_active (dp_registry d))"
    and "dp_started d' = dp_started d" and "dp_running d' = dp_running d" and "dp_now d' = dp_now d"
    and "registry_inv (dp_now d, dp_registry d')" and "lane_inv p (dp_lane d')"
    and "dp_admission_open d' = dp_admission_open d"
proof -
  let ?c = "stopped_core cause c"
  obtain s signals where r: "remove_queued i (lane_of d) = (s, signals)"
    and d': "stop_execution cause i d = (Requested, drop_start i (put_lane s ((put_core ?c d)\<lparr>dp_registry :=
        fold record_effect (emit_state ?c) (dp_registry (put_core ?c d))\<rparr>)))"
    using stop_queued [OF inv c i] by blast
  let ?d1 = "put_lane s ((put_core ?c d)\<lparr>dp_registry := fold record_effect (emit_state ?c) (dp_registry (put_core ?c d))\<rparr>)"
  have live: "core_live c" and id: "ec_execution_id c = i"
    using deployment_core [OF inv c] i core_identity [OF inv c] by (simp_all add: core_ok_def core_queued_def)
  then have c1: "core_of ?d1 i = Some ?c" "terminal (ec_state ?c) = None" "ec_execution_id ?c = i"
    by (simp_all add: core_live_def)
  have d'': "d' = commit_exit i (ExecutorStopped StopRunnerCancelled) ?d1" by (simp add: d'_def d' drop_start_def)
  note f = commit_exit_fields [OF c1, of "ExecutorStopped StopRunnerCancelled"]
  show "core_of d' j = (if j = i then Some (committed (ExecutorStopped StopRunnerCancelled) ?c) else core_of d j)"
    using f(1) [of j] id by (simp add: d'')
  show "reg_active (dp_registry d') = removeAll i (reg_active (dp_registry d))"
    using f(2) live by (simp add: d'' core_live_def)
  show "registry_inv (dp_now d, dp_registry d')"
    using registry_inv_commit_exit [of ?d1 i] registry_inv_events [OF registry_inv_put_core [OF deployment_parts(3) [OF inv]]]
    by (simp add: d'')
  show "lane_inv p (dp_lane d')"
    using remove_queued_result(3) [OF deployment_parts(1) [OF inv] r] by (simp add: d'' put_lane_def)
  show "lane_of d' = fst (remove_queued i (lane_of d))" "sys_monitors (dp_lane d') = sys_monitors (dp_lane d)"
    "dp_started d' = dp_started d" "dp_running d' = dp_running d" "dp_now d' = dp_now d"
    "dp_admission_open d' = dp_admission_open d"
    by (simp_all add: d'' r)
qed

lemma stop_execution_inv:
  assumes inv: "deployment_inv p d"
  shows "deployment_inv p (snd (stop_execution cause i d))"
proof (cases "core_of d i")
  case None
  with inv show ?thesis by (simp add: stop_execution_def)
next
  case (Some c)
  note id = core_identity [OF inv Some]
  show ?thesis
  proof (cases "terminal (ec_state c) = None \<and> stop_cause (ec_state c) = None")
    case False
    with stop_not_requested [OF Some id] inv show ?thesis by simp
  next
    case go: True
    note ok = deployment_core [OF inv Some]
    show ?thesis
    proof (cases "i \<in> queued d")
      case True
      let ?d = "snd (stop_execution cause i d)"
      note r = stop_queued_result [OF inv Some True, where cause = cause]
      have rq: "queued ?d = queued d - {i}" "\<not> ls_runtime_unavailable (lane_of ?d)"
        using remove_queued_result(1,4) [OF deployment_parts(1) [OF inv], of i] deployment_parts(2) [OF inv]
        by (cases "remove_queued i (lane_of d)"; simp add: r(2))+
      have nr: "i \<notin> with_runner d" using deployment_parts(7) [OF inv] True by blast
      show ?thesis
      proof (rule deployment_inv_change [OF inv, where i = i
            and c = "committed (ExecutorStopped StopRunnerCancelled) (stopped_core cause c)"])
        show "core_of ?d j = core_of d j" if "j \<noteq> i" for j using r(1) [of j] that by simp
        show "core_of ?d i = Some (committed (ExecutorStopped StopRunnerCancelled) (stopped_core cause c))"
          using r(1) [of i] by simp
      qed (use deployment_parts [OF inv] r(3-9) rq nr in \<open>auto simp: core_ok_def\<close>)
    next
      case False
      with ok go have w: "i \<in> with_runner d" and live: "core_live c" "ec_queued_cancel_hook c = None"
        by (auto simp: core_ok_def core_dead_def split: if_splits)
      let ?c = "stopped_core cause c"
      have "snd (stop_execution cause i d) = (put_core ?c d)
          \<lparr>dp_registry := fold record_effect (emit_state ?c) (dp_registry (put_core ?c d)), dp_started := dp_started d, dp_running := dp_running d\<rparr>"
        using stop_requested [OF Some] go live by (simp add: run_events Let_def)
      moreover have "deployment_inv p \<dots>"
        by (rule put_runner_core_inv [OF inv w]) (use live id deployment_parts(4-6) [OF inv] in simp_all)
      ultimately show ?thesis by simp
    qed
  qed
qed

lemma cancel_all_of_inv: "deployment_inv p d \<Longrightarrow> deployment_inv p (cancel_all_of reason is d)"
  unfolding cancel_all_of_def by (induction "is" arbitrary: d) (simp_all add: stop_execution_inv)

section \<open>Submissions\<close>

definition core_fresh :: "execution_id \<Rightarrow> exec_core \<Rightarrow> bool" where
  "core_fresh i c \<longleftrightarrow> ec_execution_id c = i \<and> ec_has_registry c \<and> \<not> ec_registered c \<and> terminal (ec_state c) = None
     \<and> stop_cause (ec_state c) = None \<and> ec_terminal_watch c = None \<and> ec_queued_cancel_hook c = None
     \<and> controls (ec_children c) = []"

lemmas prepare_defs = prepare_spec_def prepare_exit_future_def prepare_future_def prepare_future_internal_def
  prepare_recurring_def prepare_retry_def prepare_service_def set_abort_policy_def set_kind_def future_config_root_def
  task_spec_new_def core_new_def new_child_set_def

lemma prepare_fresh: "core_fresh i (prepare i sub)" "core_fresh i (fst (prepare_retry i spec limit))"
  "core_fresh i (fst (prepare_service i srv))" "core_fresh i (with_scope scope c) = core_fresh i c"
  by (cases sub) (auto simp: core_fresh_def prepare_defs with_scope_def set_scope_of_def split: option.split)

lemma core_register_result:
  assumes "core_of d i = Some c" and "ec_has_registry c" "\<not> ec_registered c" "ec_execution_id c = i"
    and "core_register i (dp_registry d) = (res, r)"
  shows "case res of
      Inl error \<Rightarrow> map_of (reg_cores r) = map_of (reg_cores (dp_registry d)) \<and> reg_active r = reg_active (dp_registry d)
    | Inr u \<Rightarrow> map_of (reg_cores r) = (map_of (reg_cores (dp_registry d)))(i \<mapsto> c\<lparr>ec_registered := True\<rparr>)
        \<and> set (reg_active r) = insert i (set (reg_active (dp_registry d)))"
proof -
  have "c\<lparr>ec_registered := False\<rparr> = c" using assms(3) by (cases c) simp
  with assms show ?thesis
    by (auto simp: core_register_def registry_register_def Let_def update_conv' fun_upd_idem split: if_splits option.splits)
qed

lemma put_core_twice: "ec_execution_id c' = ec_execution_id c \<Longrightarrow> put_core c' (put_core c d) = put_core c' d"
  by (simp add: put_core_def)

lemma put_lane_same: "put_lane (lane_of d) d = d"
  by (simp add: put_lane_def)

definition lane_core :: "deployment \<Rightarrow> exec_core \<Rightarrow> exec_core" where
  "lane_core d core = install_queued_cancel_hook (RemoveQueued (ec_execution_id core)) (set_lane_id (dp_lane_id d) core)"

lemma lane_core_simps [simp]:
  "ec_execution_id (lane_core d c) = ec_execution_id c" "ec_has_registry (lane_core d c) = ec_has_registry c"
  "ec_registered (lane_core d c) = ec_registered c" "ec_state (lane_core d c) = ec_state c"
  "ec_terminal_watch (lane_core d c) = ec_terminal_watch c" "ec_children (lane_core d c) = ec_children c"
  "ec_queued_cancel_hook (lane_core d c) = Some (RemoveQueued (ec_execution_id c))"
  "ec_lane_id (lane_core d c) = Some (dp_lane_id d)"
  by (simp_all add: lane_core_def install_queued_cancel_hook_def set_lane_id_def)

text \<open>Refused by the lane: the lane and the registry's index are untouched, the execution is terminal.\<close>

lemma insert_refused:
  assumes "core_fresh i core" and "insert_locked p i options ticket (lane_of d) = (Inl error, s)"
  shows "insert_submission p core options ticket d
    = (Inl error, put_core (committed (ExecutorStopped StopRunnerCancelled) (lane_core d core)) d)"
proof -
  from assms(1) have id: "ec_execution_id core = i" and t: "terminal (ec_state (lane_core d core)) = None"
    and nr: "\<not> ec_registered (lane_core d core)" by (simp_all add: core_fresh_def)
  from insert_locked_error [OF assms(2)] have "s = lane_of d" .
  then have l: "put_lane s (put_core (lane_core d core) d) = put_core (lane_core d core) d"
    using put_lane_same [of "put_core (lane_core d core) d"] by simp
  have "drop_start i (put_core (lane_core d core) d)
      = put_core (committed (ExecutorStopped StopRunnerCancelled) (lane_core d core)) d"
    using commit_exit_live [of "put_core (lane_core d core) d" i "lane_core d core"] id t nr
    by (simp add: drop_start_def put_core_twice)
  with l assms(2) id show ?thesis by (simp add: insert_submission_def lane_core_def Let_def)
qed

lemma insert_locked_queue:
  assumes "insert_locked p i options ticket s = (Inr u, s')"
  shows "ls_queue s' = ls_queue s @ [i]" "ls_runtime_unavailable s' = ls_runtime_unavailable s"
    "\<not> ls_closing s" "\<not> ls_runtime_unavailable s" "length (ls_entries s) < unat (cfg_capacity (lp_config p))"
  using assms by (auto simp: insert_locked_def split: if_splits sum.splits option.splits)

text \<open>Accepted by the lane: what the registry answers decides.\<close>

lemma insert_registered:
  assumes "core_fresh i core" and "insert_locked p i options ticket (lane_of d) = (Inr u, s)"
    and "core_register i (dp_registry (put_core (lane_core d core) d)) = (Inr v, r)"
  shows "insert_submission p core options ticket d = (Inr i, (put_lane s (put_core (lane_core d core) d))\<lparr>dp_registry := r\<rparr>)"
  using assms by (simp add: core_fresh_def insert_submission_def lane_core_def Let_def)

lemma insert_unregistered:
  assumes "core_fresh i core" and "insert_locked p i options ticket (lane_of d) = (Inr u, s)"
    and "core_register i (dp_registry (put_core (lane_core d core) d)) = (Inl error, r)"
  shows "insert_submission p core options ticket d
    = (Inl (spawn_error_from error), unqueue i ((put_lane s (put_core (lane_core d core) d))\<lparr>dp_registry := r\<rparr>))"
  using assms by (simp add: core_fresh_def insert_submission_def lane_core_def Let_def)

lemma insert_submission_inv:
  assumes inv: "deployment_inv p d" and new: "core_of d i = None" and fresh: "core_fresh i core"
    and prio: "opt_priority options \<le> highest_priority"
  shows "deployment_inv p (snd (insert_submission p core options ticket d))" (is "deployment_inv p ?d")
proof -
  let ?c = "lane_core d core"
  have id: "ec_execution_id core = i" and t: "terminal (ec_state core) = None" and f: "ec_has_registry core" "\<not> ec_registered core"
    using fresh by (simp_all add: core_fresh_def)
  note u = deployment_unknown [OF inv new]
  have reg0: "registry_inv (dp_now d, dp_registry (put_core ?c d))"
    by (rule registry_inv_put_core [OF deployment_parts(3) [OF inv]])
  obtain res s where ins: "insert_locked p i options ticket (lane_of d) = (res, s)" by fastforce
  have lane: "lane_inv p (dp_lane d\<lparr>sys_lane := s\<rparr>)"
    by (rule lane_inv_step [OF deployment_parts(1) [OF inv]], rule lane_step.lane_insert [OF u(5,3) prio ins])
  obtain res2 r where rg: "core_register i (dp_registry (put_core ?c d)) = (res2, r)" by fastforce
  have reg1: "registry_inv (dp_now d, r)" by (rule core_register_inv [OF reg0 rg])
  note rr = core_register_result [of "put_core ?c d" i ?c res2 r, simplified id, simplified, OF f id rg]
  consider error where "res = Inl error" | v error where "res = Inr v" "res2 = Inl error" | v w where "res = Inr v" "res2 = Inr w"
    by (cases res; cases res2) auto
  then show ?thesis
  proof cases
    case 1
    then have d': "?d = put_core (committed (ExecutorStopped StopRunnerCancelled) ?c) d"
      using insert_refused [OF fresh, of p options ticket d error s] ins by simp
    show ?thesis unfolding d'
      by (rule deployment_inv_change [OF inv, where i = i and c = "committed (ExecutorStopped StopRunnerCancelled) ?c"])
        (use deployment_parts [OF inv] u id in \<open>auto simp: core_ok_def registry_inv_put_core\<close>)
  next
    case 2
    let ?d1 = "(put_lane s (put_core ?c d))\<lparr>dp_registry := r\<rparr>"
    have d': "?d = unqueue i ?d1"
      using insert_unregistered [OF fresh, of p options ticket d v s error r] ins rg 2 by simp
    have same: "map_of (reg_cores r) = map_of (reg_cores (dp_registry (put_core ?c d)))" "reg_active r = reg_active (dp_registry d)"
      using rr 2 by simp_all
    then have c1: "core_of ?d1 i = Some ?c" "terminal (ec_state ?c) = None" "ec_execution_id ?c = i"
      using id t by simp_all
    obtain s2 signals where rq: "remove_queued i s = (s2, signals)" by fastforce
    have q: "ls_queue s = ls_queue (lane_of d) @ [i]" "ls_runtime_unavailable s = ls_runtime_unavailable (lane_of d)"
      using insert_locked_queue [of p i options ticket "lane_of d" v s] ins 2 by simp_all
    note rm = remove_queued_result [OF lane, simplified, OF rq]
    have d'': "?d = commit_exit i (ExecutorStopped StopRunnerCancelled) (put_lane s2 ?d1)"
      using rm(2) q rq by (simp add: d' unqueue_def drop_start_def)
    have c2: "core_of (put_lane s2 ?d1) i = Some ?c" using c1(1) by simp
    note cf = commit_exit_fields [OF c2 c1(2,3), of "ExecutorStopped StopRunnerCancelled"]
    have lane2: "lane_inv p (dp_lane ?d)" using rm(3) by (simp add: d'' put_lane_def)
    have reg2: "registry_inv (dp_now ?d, dp_registry ?d)"
      using registry_inv_commit_exit [of "put_lane s2 ?d1"] reg1 by (simp add: d'')
    have queue2: "queued ?d = queued d" using rm(1) q u(1) by (auto simp: d'')
    show ?thesis
    proof (rule deployment_inv_change [OF inv, where i = i and c = "committed (ExecutorStopped StopRunnerCancelled) ?c"])
      show "core_of ?d j = core_of d j" if "j \<noteq> i" for j using cf(1) [of j] that same id by (simp add: d'')
      show "core_of ?d i = Some (committed (ExecutorStopped StopRunnerCancelled) ?c)" using cf(1) [of i] by (simp add: d'')
      show "\<not> ls_runtime_unavailable (lane_of ?d)" using rm(4) q(2) deployment_parts(2) [OF inv] by (simp add: d'')
      show "core_ok ?d i (committed (ExecutorStopped StopRunnerCancelled) ?c)"
        using queue2 u(1,2) by (simp add: core_ok_def d'')
      have "reg_active (dp_registry ?d) = reg_active (dp_registry d)" using cf(2) f same by (simp add: d'')
      then show "set (reg_active (dp_registry ?d)) - {i} = set (reg_active (dp_registry d)) - {i}"
        "i \<in> set (reg_active (dp_registry ?d)) \<longleftrightarrow> i \<in> queued ?d \<or> i \<in> with_runner ?d"
        using u queue2 by (simp_all add: d'')
    qed (use lane2 reg2 queue2 deployment_parts [OF inv] u in \<open>simp_all add: d''\<close>)
  next
    case 3
    then have d': "?d = (put_lane s (put_core ?c d))\<lparr>dp_registry := r\<rparr>"
      using insert_registered [OF fresh, of p options ticket d v s w r] ins rg by simp
    have q: "ls_queue s = ls_queue (lane_of d) @ [i]" "ls_runtime_unavailable s = ls_runtime_unavailable (lane_of d)"
      using insert_locked_queue [of p i options ticket "lane_of d" v s] ins 3 by simp_all
    have now: "map_of (reg_cores r) = (map_of (reg_cores (dp_registry (put_core ?c d))))(i \<mapsto> ?c\<lparr>ec_registered := True\<rparr>)"
      "set (reg_active r) = insert i (set (reg_active (dp_registry d)))"
      using rr 3 by simp_all
    have "core_queued i (?c\<lparr>ec_registered := True\<rparr>)"
      using fresh by (simp add: core_queued_def core_live_def core_fresh_def)
    moreover have "lane_inv p (dp_lane ?d)" using lane by (simp add: d' put_lane_def)
    ultimately show ?thesis
      using deployment_parts [OF inv] u q now reg1 id unfolding d'
      by (intro deployment_inv_change [OF inv, where i = i and c = "?c\<lparr>ec_registered := True\<rparr>"])
        (auto simp: core_ok_def d')
  qed
qed

lemma submit_inv:
  assumes "deployment_inv p d" and "core_of d i = None" and "opt_priority options \<le> highest_priority"
  shows "deployment_inv p (snd (submit p i sub scope options ticket d))"
  using assms insert_submission_inv [OF assms(1,2) _ assms(3), of "with_scope scope (prepare i sub)" ticket]
  by (auto simp: submit_def prepare_fresh split: sum.split)

lemma watchers_inv [simp]: "deployment_inv p (d\<lparr>dp_watchers := w\<rparr>) = deployment_inv p d"
  by (simp add: deployment_inv_def core_ok_def)

lemma submit_retry_inv:
  assumes "deployment_inv p d" and "core_of d i = None"
  shows "deployment_inv p (snd (submit_retry p i spec scope accepted_at now1 now2 ticket d))"
proof (cases "deadline_at spec accepted_at")
  case (Inr limit)
  obtain core watchers where pr: "prepare_retry i spec limit = (core, watchers)" by fastforce
  have "opt_priority default_options \<le> highest_priority" by (simp add: default_options_def highest_priority_def normal_priority_def)
  with assms insert_submission_inv [of p "d\<lparr>dp_watchers := watchers @ dp_watchers d\<rparr>" i "with_scope scope core"
      default_options ticket] prepare_fresh(2) [of i spec limit]
  have "deployment_inv p (snd (insert_submission p (with_scope scope core) default_options ticket
      (d\<lparr>dp_watchers := watchers @ dp_watchers d\<rparr>)))" by (simp add: prepare_fresh pr)
  with Inr assms(1) show ?thesis by (simp add: submit_retry_def pr split: sum.split)
qed (use assms in \<open>simp add: submit_retry_def\<close>)

lemma spawn_prepared_inv:
  assumes inv: "deployment_inv p d" and new: "core_of d i = None" and fresh: "core_fresh i core"
  shows "deployment_inv p (snd (spawn_prepared runtime_ok core d))" (is "deployment_inv p ?d")
proof -
  have id: "ec_execution_id core = i" and t: "terminal (ec_state core) = None" and f: "ec_has_registry core" "\<not> ec_registered core"
    using fresh by (simp_all add: core_fresh_def)
  note u = deployment_unknown [OF inv new]
  obtain res r where rg: "core_register i (dp_registry (put_core core d)) = (res, r)" by fastforce
  let ?d1 = "(put_core core d)\<lparr>dp_registry := r\<rparr>"
  have reg1: "registry_inv (dp_now d, r)"
    by (rule core_register_inv [OF registry_inv_put_core [OF deployment_parts(3) [OF inv]] rg])
  have "core_of (put_core core d) i = Some core" using id by simp
  note rr = core_register_result [OF this f id rg]
  show ?thesis
  proof (cases res)
    case (Inl error)
    have d': "?d = commit_exit i (ExecutorStopped StopRunnerCancelled) ?d1"
      using rg Inl id by (simp add: spawn_prepared_def drop_start_def Let_def)
    have same: "map_of (reg_cores r) = map_of (reg_cores (dp_registry (put_core core d)))" "reg_active r = reg_active (dp_registry d)"
      using rr Inl by simp_all
    then have c1: "core_of ?d1 i = Some core" using id by simp
    note cf = commit_exit_fields [OF c1 t id, of "ExecutorStopped StopRunnerCancelled"]
    show ?thesis
    proof (rule deployment_inv_change [OF inv, where i = i and c = "committed (ExecutorStopped StopRunnerCancelled) core"])
      show "registry_inv (dp_now ?d, dp_registry ?d)" using registry_inv_commit_exit [of ?d1 i] reg1 by (simp add: d')
    qed (use deployment_parts [OF inv] u cf same f id in \<open>auto simp: core_ok_def d'\<close>)
  next
    case (Inr v)
    let ?c = "clear_queued_cancel_hook (core\<lparr>ec_registered := True\<rparr>)"
    have now: "map_of (reg_cores r) = (map_of (reg_cores (dp_registry (put_core core d))))(i \<mapsto> core\<lparr>ec_registered := True\<rparr>)"
      "set (reg_active r) = insert i (set (reg_active (dp_registry d)))"
      using rr Inr by simp_all
    have c: "ec_execution_id ?c = i" "terminal (ec_state ?c) = None" "core_live ?c" "ec_queued_cancel_hook ?c = None"
      using fresh by (simp_all add: core_fresh_def core_live_def clear_queued_cancel_hook_def)
    let ?d2 = "put_core ?c ?d1"
    have reg2: "registry_inv (dp_now d, dp_registry ?d2)" using registry_inv_put_core [of "dp_now d" ?d1] reg1 by simp
    have d': "?d = (if runtime_ok then ?d2\<lparr>dp_started := i # dp_started d\<rparr> else commit_exit i (ExecutorStopped StopRunnerCancelled) ?d2)"
      using rg Inr id now by (simp add: spawn_prepared_def start_execution_def drop_start_def Let_def)
    have others: "core_of ?d2 j = (if j = i then Some ?c else core_of d j)" for j using now(1) c(1) id by simp
    show ?thesis
    proof (cases runtime_ok)
      case True
      then have d'': "?d = ?d2\<lparr>dp_started := i # dp_started d\<rparr>" using d' by simp
      show ?thesis
      proof (rule deployment_inv_change [OF inv, where i = i and c = ?c])
        show "core_of ?d j = core_of d j" if "j \<noteq> i" for j using others [of j] that by (simp add: d'')
        show "core_of ?d i = Some ?c" using others [of i] by (simp add: d'')
      qed (use deployment_parts [OF inv] u now(2) c(3,4) reg2 in \<open>auto simp: core_ok_def d''\<close>)
    next
      case False
      then have d'': "?d = commit_exit i (ExecutorStopped StopRunnerCancelled) ?d2" using d' by simp
      have "core_of ?d2 i = Some ?c" using c(1) by simp
      note cf = commit_exit_fields [OF this c(2,1), of "ExecutorStopped StopRunnerCancelled"]
      show ?thesis
      proof (rule deployment_inv_change [OF inv, where i = i and c = "committed (ExecutorStopped StopRunnerCancelled) ?c"])
        show "registry_inv (dp_now ?d, dp_registry ?d)" using registry_inv_commit_exit [of ?d2 i] reg2 by (simp add: d'')
        show "core_of ?d j = core_of d j" if "j \<noteq> i" for j using cf(1) [of j] others [of j] that by (simp add: d'')
        show "core_of ?d i = Some (committed (ExecutorStopped StopRunnerCancelled) ?c)" using cf(1) [of i] by (simp add: d'')
      qed (use deployment_parts [OF inv] u cf(2) c(3) now in \<open>auto simp: core_ok_def core_live_def d''\<close>)
    qed
  qed
qed

section \<open>The lane's worker\<close>

lemma start_all:
  assumes "cores_ok (dp_registry d)" and "\<forall>i \<in> set is. core_of d i \<noteq> None" and "distinct is"
  defines "d' \<equiv> fold (start_execution True) is d"
  shows "core_of d' j = (if j \<in> set is then map_option clear_queued_cancel_hook (core_of d j) else core_of d j)
    \<and> dp_started d' = rev is @ dp_started d \<and> cores_ok (dp_registry d')
    \<and> reg_active (dp_registry d') = reg_active (dp_registry d) \<and> reg_history (dp_registry d') = reg_history (dp_registry d)
    \<and> reg_limits (dp_registry d') = reg_limits (dp_registry d) \<and> reg_subscribers (dp_registry d') = reg_subscribers (dp_registry d)
    \<and> dp_lane d' = dp_lane d \<and> dp_running d' = dp_running d \<and> dp_now d' = dp_now d"
  unfolding d'_def using assms(1-3)
proof (induction "is" arbitrary: d)
  case (Cons i rest)
  then obtain c where c: "core_of d i = Some c" by auto
  with Cons.prems(1) have id: "ec_execution_id c = i" by (simp add: cores_ok_def)
  let ?c = "clear_queued_cancel_hook c"
  have idc: "ec_execution_id ?c = i" using id by (simp add: clear_queued_cancel_hook_def)
  define d1 where "d1 = start_execution True i d"
  have d1: "d1 = (put_core ?c d)\<lparr>dp_started := i # dp_started d\<rparr>" using c by (simp add: d1_def start_execution_def Let_def)
  have "cores_ok (dp_registry d1)"
    by (rule cores_ok_update [OF Cons.prems(1) idc]) (simp add: d1 put_core_def idc)
  moreover have "\<forall>k \<in> set rest. core_of d1 k \<noteq> None" using Cons.prems(2) by (simp add: d1)
  ultimately have "core_of (fold (start_execution True) rest d1) j
      = (if j \<in> set rest then map_option clear_queued_cancel_hook (core_of d1 j) else core_of d1 j)
    \<and> dp_started (fold (start_execution True) rest d1) = rev rest @ dp_started d1
    \<and> cores_ok (dp_registry (fold (start_execution True) rest d1))
    \<and> reg_active (dp_registry (fold (start_execution True) rest d1)) = reg_active (dp_registry d1)
    \<and> reg_history (dp_registry (fold (start_execution True) rest d1)) = reg_history (dp_registry d1)
    \<and> reg_limits (dp_registry (fold (start_execution True) rest d1)) = reg_limits (dp_registry d1)
    \<and> reg_subscribers (dp_registry (fold (start_execution True) rest d1)) = reg_subscribers (dp_registry d1)
    \<and> dp_lane (fold (start_execution True) rest d1) = dp_lane d1 \<and> dp_running (fold (start_execution True) rest d1) = dp_running d1
    \<and> dp_now (fold (start_execution True) rest d1) = dp_now d1"
    using Cons.IH [of d1] Cons.prems(3) by simp
  moreover have "reg_subscribers (dp_registry d1) = reg_subscribers (dp_registry d)" by (simp add: d1 put_core_def)
  ultimately show ?case using Cons.prems(3) c idc by (auto simp: d1_def [symmetric] d1)
qed simp

lemma dispatch_loop_available:
  assumes "state_inv p ms s" and "dispatch_loop p s = (starts, s')"
  shows "ls_runtime_unavailable s' = ls_runtime_unavailable s"
  using assms by (induction rule: dispatch_loop_induct) (simp_all add: dispatched_fields)

lemma take_startable_available:
  assumes "state_inv p ms s" and "take_startable p s = (starts, should_exit, s', signals)"
  shows "ls_runtime_unavailable s' = ls_runtime_unavailable s"
  using assms dispatch_loop_available [OF assms(1)] same_but_permits_fields [OF same_but_permits_ops(1)]
  by (auto simp: take_startable_def Let_def split: prod.splits if_splits)

lemma dispatch_result:
  assumes inv: "deployment_inv p d" and t: "take_startable p (lane_of d) = (starts, should_exit, s, signals)"
  defines "d' \<equiv> dispatch p d"
  shows "core_of d' j = (if j \<in> set starts then map_option clear_queued_cancel_hook (core_of d j) else core_of d j)"
    and "dp_started d' = rev starts @ dp_started d" and "dp_running d' = dp_running d" and "dp_now d' = dp_now d"
    and "reg_active (dp_registry d') = reg_active (dp_registry d)"
    and "dp_lane d' = (dp_lane d)\<lparr>sys_lane := s, sys_monitors := sys_monitors (dp_lane d) @ starts,
      sys_dispatches := sys_dispatches (dp_lane d) + length starts\<rparr>"
    and "registry_inv (dp_now d', dp_registry d')"
proof -
  let ?l = "(dp_lane d)\<lparr>sys_lane := s, sys_monitors := sys_monitors (dp_lane d) @ starts,
      sys_dispatches := sys_dispatches (dp_lane d) + length starts\<rparr>"
  let ?d1 = "d\<lparr>dp_lane := ?l\<rparr>"
  have st: "state_inv p (sys_monitors (dp_lane d)) (lane_of d)" using deployment_parts(1) [OF inv] by (simp add: lane_inv_def)
  from take_startable_result [OF st t] have sub: "distinct starts" "set starts \<subseteq> queued d" by simp_all
  have ok: "cores_ok (dp_registry ?d1)" using deployment_parts(3) [OF inv] by (simp add: registry_inv_def)
  have "core_of ?d1 i \<noteq> None" if "i \<in> set starts" for i
    using deployment_known [OF inv, of i] sub(2) that by auto
  then have "\<forall>i \<in> set starts. core_of ?d1 i \<noteq> None" by blast
  note r = start_all [OF ok this sub(1)]
  have d': "d' = fold (start_execution True) starts ?d1" by (simp add: d'_def dispatch_def t)
  from r show "core_of d' j = (if j \<in> set starts then map_option clear_queued_cancel_hook (core_of d j) else core_of d j)"
    "dp_started d' = rev starts @ dp_started d" "dp_running d' = dp_running d" "dp_now d' = dp_now d"
    "reg_active (dp_registry d') = reg_active (dp_registry d)" "dp_lane d' = ?l"
    unfolding d' by simp_all
  from r deployment_parts(3) [OF inv] show "registry_inv (dp_now d', dp_registry d')"
    unfolding d' by (simp add: registry_inv_def active_ok_def history_ok_def subscribers_ok_def)
qed

lemma dispatch_inv:
  assumes inv: "deployment_inv p d"
  shows "deployment_inv p (dispatch p d)"
proof -
  obtain starts should_exit s signals where t: "take_startable p (lane_of d) = (starts, should_exit, s, signals)"
    using prod_cases4 by blast
  have st: "state_inv p (sys_monitors (dp_lane d)) (lane_of d)" using deployment_parts(1) [OF inv] by (simp add: lane_inv_def)
  note tr = take_startable_result [OF st t] and r = dispatch_result [OF inv t] and parts = deployment_parts [OF inv]
  have lane: "lane_inv p (dp_lane (dispatch p d))"
    unfolding r(6) by (rule lane_inv_step [OF parts(1)], rule lane_step.lane_take [OF parts(2) t])
  have qu: "queued (dispatch p d) = queued d - set starts" using tr by (auto simp: r(6))
  have wr: "set (dp_started (dispatch p d)) = set starts \<union> set (dp_started d)" by (simp add: r(2))
  have sub: "set starts \<subseteq> queued d" "distinct starts" using tr by simp_all
  have cores: "\<forall>j c'. core_of (dispatch p d) j = Some c' \<longrightarrow> core_ok (dispatch p d) j c'"
  proof (intro allI impI)
    fix j c' assume c': "core_of (dispatch p d) j = Some c'"
    show "core_ok (dispatch p d) j c'"
    proof (cases "j \<in> set starts")
      case True
      with c' r(1) obtain c where c: "core_of d j = Some c" "c' = clear_queued_cancel_hook c" by auto
      with deployment_core [OF inv c(1)] True sub(1) have "core_queued j c" by (auto simp: core_ok_def)
      with c(2) True qu wr show ?thesis
        by (simp add: core_ok_def core_queued_def core_live_def clear_queued_cancel_hook_def)
    next
      case False
      with c' r(1) deployment_core [OF inv, of j c'] qu wr r(3) show ?thesis by (simp add: core_ok_def)
    qed
  qed
  have dom: "queued (dispatch p d) \<union> with_runner (dispatch p d) \<union> set (sys_monitors (dp_lane (dispatch p d)))
      \<subseteq> {j. core_of (dispatch p d) j \<noteq> None}"
  proof (intro subsetI CollectI)
    fix j assume "j \<in> queued (dispatch p d) \<union> with_runner (dispatch p d) \<union> set (sys_monitors (dp_lane (dispatch p d)))"
    then have "j \<in> queued d \<union> with_runner d \<union> set (sys_monitors (dp_lane d))" using qu wr r(3,6) sub by auto
    then have "core_of d j \<noteq> None" using inv unfolding deployment_inv_def by blast
    then show "core_of (dispatch p d) j \<noteq> None" using r(1) [of j] by simp
  qed
  have "set starts \<inter> with_runner d = {}" using sub(1) parts(7) by blast
  then show ?thesis
    unfolding deployment_inv_def using parts sub qu wr
    by (intro conjI lane r(7) cores dom)
      (auto simp: r(2,3,5,6) take_startable_available [OF st t])
qed

lemma monitor_reports_inv:
  assumes inv: "deployment_inv p d" and i: "i \<in> set (sys_monitors (dp_lane d))"
  shows "deployment_inv p (monitor_reports i d)"
proof -
  obtain s signals where f: "execution_finished i (lane_of d) = (s, signals)" by fastforce
  have d': "monitor_reports i d = d\<lparr>dp_lane := (dp_lane d)\<lparr>sys_lane := s, sys_monitors := removeAll i (sys_monitors (dp_lane d))\<rparr>\<rparr>"
    (is "_ = ?d") by (simp add: monitor_reports_def f)
  note parts = deployment_parts [OF inv]
  have "lane_inv p (dp_lane ?d)"
    using lane_inv_step [OF parts(1) lane_step.lane_finished [OF i f]] by simp
  moreover have "ls_queue s = ls_queue (lane_of d)" "ls_runtime_unavailable s = ls_runtime_unavailable (lane_of d)"
    using f by (auto simp: execution_finished_def Let_def split: option.splits if_splits)
  ultimately show ?thesis
    using inv unfolding d' deployment_inv_def core_ok_def by auto
qed

lemma lane_close_inv:
  assumes inv: "deployment_inv p d"
  shows "deployment_inv p (snd (lane_close d))"
proof -
  obtain listed s signals where l: "lane_request_close (lane_of d) = (listed, s, signals)" using prod_cases3 by blast
  have "lane_inv p (dp_lane d\<lparr>sys_lane := s\<rparr>)"
    by (rule lane_inv_step [OF deployment_parts(1) [OF inv]], rule lane_step.lane_close [OF l])
  moreover have "ls_queue s = ls_queue (lane_of d)" "ls_runtime_unavailable s = ls_runtime_unavailable (lane_of d)"
    using l same_but_permits_fields [OF same_but_permits_ops(2)] by (auto simp: lane_request_close_def Let_def)
  ultimately show ?thesis
    using inv by (simp add: lane_close_def l put_lane_def deployment_inv_def core_ok_def)
qed

section \<open>Waiting producers\<close>

text \<open>A change of the waiting queue alone.\<close>

lemma put_lane_inv:
  assumes inv: "deployment_inv p d" and step: "lane_step p (dp_lane d) (dp_lane d\<lparr>sys_lane := s\<rparr>)"
    and same: "ls_queue s = ls_queue (lane_of d)" "ls_runtime_unavailable s = ls_runtime_unavailable (lane_of d)"
  shows "deployment_inv p (put_lane s d)"
proof -
  have "lane_inv p (dp_lane d\<lparr>sys_lane := s\<rparr>)" by (rule lane_inv_step [OF deployment_parts(1) [OF inv] step])
  with inv same show ?thesis by (simp add: put_lane_def deployment_inv_def core_ok_def)
qed

lemma waiter_fields:
  "waiter_new p s = (res, s') \<Longrightarrow> ls_queue s' = ls_queue s \<and> ls_runtime_unavailable s' = ls_runtime_unavailable s"
  "waiter_finish p ticket s = (s', signals) \<Longrightarrow> ls_queue s' = ls_queue s \<and> ls_runtime_unavailable s' = ls_runtime_unavailable s"
  "ls_queue (consume_permit ticket s) = ls_queue s" "ls_runtime_unavailable (consume_permit ticket s) = ls_runtime_unavailable s"
  using same_but_permits_fields [OF same_but_permits_ops(3)] same_but_permits_fields [OF same_but_permits_notify]
  by (auto simp: waiter_new_def waiter_finish_def waiter_finish_locked_def Let_def split: if_splits option.splits)

lemma leave_waiting_inv:
  assumes "deployment_inv p d"
  shows "deployment_inv p (leave_waiting p waiter d)"
proof (cases waiter)
  case (Some ticket)
  obtain s signals where w: "waiter_finish p ticket (lane_of d) = (s, signals)" by fastforce
  from put_lane_inv [OF assms lane_step.lane_waiter_finish [OF w]] waiter_fields(2) [OF w] Some w
  show ?thesis by (simp add: leave_waiting_def)
qed (use assms in \<open>simp add: leave_waiting_def\<close>)

lemma after_attempt_inv:
  assumes "deployment_inv p d"
  shows "deployment_inv p (snd (after_attempt p waiter answer d))"
proof -
  obtain res s where w: "waiter_new p (lane_of d) = (res, s)" by fastforce
  from put_lane_inv [OF assms lane_step.lane_waiter_new [OF w]] waiter_fields(1) [OF w]
  have "deployment_inv p (put_lane s d)" by simp
  with assms w leave_waiting_inv show ?thesis
    by (auto simp: after_attempt_def split: sum.split option.split)
qed

lemma spawn_turn_inv:
  assumes "deployment_inv p d" and "core_of d i = None" and "opt_priority options \<le> highest_priority"
  shows "deployment_inv p (snd (spawn_turn p i sub options waiter d))"
proof -
  obtain answer d' where a: "submit p i sub None options waiter d = (answer, d')" by fastforce
  with submit_inv [OF assms, of sub None waiter] after_attempt_inv [of p d'] show ?thesis by (simp add: spawn_turn_def)
qed

lemma spawn_retry_turn_inv:
  assumes "deployment_inv p d" and "core_of d i = None"
  shows "deployment_inv p (snd (spawn_retry_turn p i spec accepted_at now0 now1 now2 waiter d))"
proof -
  obtain answer d' where a: "submit_retry p i spec None accepted_at now1 now2 waiter d = (answer, d')" by fastforce
  with submit_retry_inv [OF assms, of spec None accepted_at now1 now2 waiter] after_attempt_inv [of p d']
    leave_waiting_inv [OF assms(1)] assms(1)
  show ?thesis by (simp add: spawn_retry_turn_def split: sum.split)
qed

lemma spawn_wait_inv: "deployment_inv p d \<Longrightarrow> deployment_inv p (snd (spawn_wait p limit timer_ok now ticket d))"
  using put_lane_inv [OF _ lane_step.lane_waiter_wakes, of p d ticket]
  by (auto simp: spawn_wait_def leave_waiting_inv waiter_fields)

lemma spawn_timeout_turn_inv:
  assumes "deployment_inv p d" and "core_of d i = None"
  shows "deployment_inv p (snd (spawn_timeout_turn p limit now i spec waiter d))"
proof -
  obtain turn d' where t: "spawn_turn p i (SubmitSpec spec) default_options waiter d = (turn, d')" by fastforce
  have "opt_priority default_options \<le> highest_priority" by (simp add: default_options_def highest_priority_def normal_priority_def)
  with spawn_turn_inv [OF assms] t have "deployment_inv p d'" by (metis snd_conv)
  with t leave_waiting_inv show ?thesis by (auto simp: spawn_timeout_turn_def split: turn_answer.split)
qed

section \<open>The invariant holds\<close>

lemma deployment_inv_init: "dep_init d \<Longrightarrow> deployment_inv p d"
proof -
  assume "dep_init d"
  then obtain limits lane where d: "d = dep_new limits lane" by (auto simp: dep_init_def)
  have "lane_inv p (dp_lane d)" by (rule lane_inv_init) (simp add: d dep_new_def lane_init_def)
  then show ?thesis
    by (simp add: d dep_new_def deployment_inv_def registry_new_def registry_inv_defs lane_state_new_def core_ok_def)
qed

lemma tick_inv: "deployment_inv p d \<Longrightarrow> deployment_inv p (d\<lparr>dp_now := dp_now d + t\<rparr>)"
  by (auto simp: deployment_inv_def core_ok_def registry_inv_defs)

lemma admission_inv [simp]: "deployment_inv p (d\<lparr>dp_admission_open := b\<rparr>) = deployment_inv p d"
  by (simp add: deployment_inv_def core_ok_def)

lemma close_and_cancel_inv: "deployment_inv p d \<Longrightarrow> deployment_inv p (close_and_cancel reason d)"
  using lane_close_inv [of p d] by (cases "lane_close d") (simp add: close_and_cancel_def cancel_all_of_inv)

lemma dep_exec_inv:
  assumes "deployment_inv p d" and "dep_exec p op d = Some d'"
  shows "deployment_inv p d'"
  using assms
  by (cases op) (auto simp: lane_cancel_snapshot_def prepare_fresh split: if_splits
      intro: spawn_turn_inv spawn_retry_turn_inv spawn_timeout_turn_inv spawn_wait_inv leave_waiting_inv
        close_and_cancel_inv tick_inv submit_inv submit_retry_inv spawn_prepared_inv stop_execution_inv cancel_all_of_inv dispatch_inv
        runner_claims_inv runner_ends_inv runner_dropped_inv monitor_reports_inv lane_close_inv)

interpretation deployment: invariant_system dep_init "dep_step p" "deployment_inv p"
  by unfold_locales (auto simp: dep_step_def intro: deployment_inv_init dep_exec_inv)

end
