(* ===== verification/BB_Submission_Claims.thy ===== *)
theory BB_Submission_Claims
  imports BB_Submission_Props
begin

text \<open>
  What callers of a lane may rely on, from the agreement of lane, registry and executions: the
  agreement itself, the truth of a submission's answer, the exact undoing of a submission by a stop
  request, the finality of a terminal execution under every operation, and closing with cancellation.
\<close>

section \<open>Inserting and removing\<close>

lemma refcount_positive:
  assumes "key_inv p s" and "map_of (ls_ordering_key_refcounts s) key = Some count"
  shows "count \<noteq> 0"
proof -
  from assms(1) have r: "\<forall>k. map_of (ls_ordering_key_refcounts s) k = None \<longleftrightarrow> key_uses s k = 0"
    "\<forall>k c. map_of (ls_ordering_key_refcounts s) k = Some c \<longrightarrow> unat c = key_uses s k"
    by (simp_all add: key_inv_def refcounts_ok_def)
  from r(1) [rule_format, of key] r(2) [rule_format, OF assms(2)] assms(2) show ?thesis by auto
qed

text \<open>Taking the reference back gives the counts as they were.\<close>

lemma refcount_roundtrip:
  assumes "key_inv p s" and "next_key_refcount p options s = Inr (Some (key, count))"
    and "ls_ordering_key_refcounts s' = AList.update key count (ls_ordering_key_refcounts s)"
  shows "decrement_ordering_key_refcount key s' = s'\<lparr>ls_ordering_key_refcounts := ls_ordering_key_refcounts s\<rparr>"
proof (cases "map_of (ls_ordering_key_refcounts s) key")
  case None
  with assms(2) have "count = 1" by (auto simp: next_key_refcount_def split: option.splits if_splits)
  moreover have "AList.delete key (ls_ordering_key_refcounts s) = ls_ordering_key_refcounts s"
    using None by (simp add: delete_idem map_of_eq_None_iff)
  ultimately show ?thesis
    using assms(3) by (simp add: decrement_ordering_key_refcount_def map_of_update checked_sub_def delete_update_same)
next
  case (Some n)
  with assms(2) have c: "checked_add n 1 = Some count" by (auto simp: next_key_refcount_def split: option.splits if_splits)
  then have "count = n + 1" by (auto simp: checked_add_def split: if_splits)
  moreover have "1 \<le> count" using c unat_checked_add [OF c] by (simp add: word_le_nat_alt)
  ultimately have "checked_sub count 1 = Some n" by (simp add: checked_sub_def)
  with Some refcount_positive [OF assms(1) Some] assms(3) show ?thesis
    by (simp add: decrement_ordering_key_refcount_def map_of_update update_triv)
qed

lemma insert_remove_roundtrip:
  assumes inv: "state_inv p ms s" and new: "i \<notin> set (ls_active s)"
    and ins: "insert_locked p i options ticket s = (Inr u, s1)" and rem: "remove_queued i s1 = (s2, signals)"
  shows "same_but_permits (s\<lparr>ls_next_sequence := ls_next_sequence s + 1\<rparr>) s2"
proof -
  from ins obtain key_count n where kc: "next_key_refcount p options s = Inr key_count"
    and avail: "\<not> ls_runtime_unavailable s" and n: "checked_add (ls_next_sequence s) 1 = Some n"
    and s1: "s1 = s\<lparr>ls_next_sequence := n,
       ls_ordering_key_refcounts := (case key_count of None \<Rightarrow> ls_ordering_key_refcounts s
          | Some (key, count) \<Rightarrow> AList.update key count (ls_ordering_key_refcounts s)),
       ls_active := List.insert i (ls_active s),
       ls_entries := AList.update i \<lparr>qe_options = options, qe_sequence = ls_next_sequence s\<rparr> (ls_entries s),
       ls_queue := ls_queue s @ [i]\<rparr>"
    by (auto simp: insert_locked_def split: if_splits sum.splits option.splits)
  have n1: "n = ls_next_sequence s + 1" using n by (auto simp: checked_add_def split: if_splits)
  have q: "i \<notin> set (ls_queue s)" "i \<notin> set (keys (ls_entries s))"
    using inv new avail by (auto simp: state_inv_def queue_inv_def)
  have undo: "AList.delete i (AList.update i e (ls_entries s)) = ls_entries s" for e
    using q(2) by (simp add: delete_update_same delete_idem)
  have undo_active: "removeAll i (List.insert i (ls_active s)) = ls_active s" using new by (simp add: List.insert_def removeAll_id)
  have undo_queue: "filter (\<lambda>j. j \<noteq> i) (ls_queue s) = ls_queue s"
    using q(1) by (auto simp: filter_id_conv)
  have ki: "key_inv p s" using inv by (simp add: state_inv_def)
  have "s2 = notify_waiting_head (s\<lparr>ls_next_sequence := n\<rparr>)"
  proof (cases "opt_ordering_key options")
    case None
    with kc have "key_count = None" by (simp add: next_key_refcount_def)
    with rem None show ?thesis
      by (simp add: remove_queued_def remove_queued_locked_def s1 map_of_update undo undo_active undo_queue Let_def)
  next
    case (Some key)
    then obtain count where k: "key_count = Some (key, count)"
      using kc by (auto simp: next_key_refcount_def split: option.splits if_splits)
    let ?s = "s\<lparr>ls_next_sequence := n, ls_ordering_key_refcounts := AList.update key count (ls_ordering_key_refcounts s)\<rparr>"
    have "decrement_ordering_key_refcount key ?s = ?s\<lparr>ls_ordering_key_refcounts := ls_ordering_key_refcounts s\<rparr>"
      by (rule refcount_roundtrip [OF ki, of options key count ?s]) (simp_all add: kc k)
    also have "\<dots> = s\<lparr>ls_next_sequence := n\<rparr>" by simp
    finally have restored: "decrement_ordering_key_refcount key ?s = s\<lparr>ls_next_sequence := n\<rparr>" .
    have gone: "s1\<lparr>ls_entries := AList.delete i (ls_entries s1), ls_queue := filter (\<lambda>j. j \<noteq> i) (ls_queue s1),
        ls_active := removeAll i (ls_active s1)\<rparr> = ?s"
      by (simp add: s1 undo undo_active undo_queue k)
    have "map_of (ls_entries s1) i = Some \<lparr>qe_options = options, qe_sequence = ls_next_sequence s\<rparr>"
      by (simp add: s1 map_of_update)
    then have "remove_queued_locked i s1 = (True, s\<lparr>ls_next_sequence := n\<rparr>)"
      unfolding remove_queued_locked_def by (simp only: option.case Let_def gone queue_entry.select_convs Some restored)
    with rem show ?thesis by (simp add: remove_queued_def)
  qed
  then show ?thesis using same_but_permits_ops(1) n1 by simp
qed

section \<open>One execution at a time\<close>

lemma commit_exit_frame: "i \<noteq> j \<Longrightarrow> core_of (commit_exit j exit d) i = core_of d i"
  by (auto simp: commit_exit_def registry_commit_def map_of_update Let_def split: option.split prod.split
      list.split exec_effect.split)

lemma unqueue_frame: "i \<noteq> j \<Longrightarrow> core_of (unqueue j d) i = core_of d i"
  by (simp add: unqueue_def drop_start_def commit_exit_frame split: prod.split)

lemma register_frame: "i \<noteq> j \<Longrightarrow> core_register j r = (res, r') \<Longrightarrow> map_of (reg_cores r') i = map_of (reg_cores r) i"
  by (auto simp: core_register_def registry_register_def map_of_update Let_def split: option.splits if_splits)

lemma stop_frame:
  assumes inv: "deployment_inv p d" and "i \<noteq> j"
  shows "core_of (snd (stop_execution cause j d)) i = core_of d i"
proof (cases "core_of d j")
  case (Some c)
  note id = core_identity [OF inv Some]
  show ?thesis
  proof (cases "terminal (ec_state c) = None \<and> stop_cause (ec_state c) = None")
    case True
    show ?thesis
    proof (cases "j \<in> queued d")
      case True
      with stop_queued_result(1) [OF inv Some True] assms(2) show ?thesis by simp
    next
      case False
      then have "ec_queued_cancel_hook c = None"
        using deployment_core [OF inv Some] True by (auto simp: core_ok_def core_dead_def split: if_splits)
      with True id assms(2) show ?thesis by (simp add: stop_requested [OF Some] run_events Let_def)
    qed
  qed (use stop_not_requested [OF Some id] in auto)
qed (simp add: stop_execution_def)

text \<open>A terminal execution is left alone by every operation.\<close>

lemma dead_stop:
  assumes "deployment_inv p d" and "core_of d i = Some c" and "terminal (ec_state c) \<noteq> None"
  shows "core_of (snd (stop_execution cause j d)) i = Some c"
  using assms stop_frame [OF assms(1), of i j cause] stop_not_requested [OF assms(2) core_identity [OF assms(1,2)]]
  by (cases "i = j") auto

lemma dead_cancel_all:
  assumes "deployment_inv p d" and "core_of d i = Some c" and "terminal (ec_state c) \<noteq> None"
  shows "core_of (cancel_all_of reason js d) i = Some c"
  using assms unfolding cancel_all_of_def
proof (induction js arbitrary: d)
  case (Cons j js)
  from Cons.IH [OF stop_execution_inv [OF Cons.prems(1)] dead_stop [OF Cons.prems] Cons.prems(3)] show ?case by simp
qed simp

lemma insert_frame:
  assumes "core_fresh j core" and "i \<noteq> j"
  shows "core_of (snd (insert_submission p core options ticket d)) i = core_of d i"
proof -
  have id: "ec_execution_id core = j" using assms(1) by (simp add: core_fresh_def)
  obtain res s where ins: "insert_locked p j options ticket (lane_of d) = (res, s)" by fastforce
  obtain res2 r where rg: "core_register j (dp_registry (put_core (lane_core d core) d)) = (res2, r)" by fastforce
  have same: "map_of (reg_cores r) i = core_of d i" using register_frame [OF assms(2) rg] id assms(2) by simp
  show ?thesis
  proof (cases res)
    case (Inl error)
    with insert_refused [OF assms(1), of p options ticket d error s] ins id assms(2) show ?thesis by simp
  next
    case (Inr u)
    with insert_registered [OF assms(1), of p options ticket d u s] insert_unregistered [OF assms(1), of p options ticket d u s]
      ins rg same assms(2) show ?thesis
      by (cases res2) (simp_all add: unqueue_frame)
  qed
qed

lemma submit_frame: "i \<noteq> j \<Longrightarrow> core_of (snd (submit p j sub scope options ticket d)) i = core_of d i"
  using insert_frame [of j "with_scope scope (prepare j sub)"]
  by (simp add: submit_def prepare_fresh split: sum.split)

lemma submit_retry_frame:
  assumes "i \<noteq> j"
  shows "core_of (snd (submit_retry p j spec scope accepted_at now1 now2 ticket d)) i = core_of d i"
proof (cases "deadline_at spec accepted_at")
  case (Inr limit)
  obtain core watchers where pr: "prepare_retry j spec limit = (core, watchers)" by fastforce
  with prepare_fresh(2) [of j spec limit] assms Inr insert_frame [of j "with_scope scope core"] show ?thesis
    by (simp add: submit_retry_def prepare_fresh split: sum.split)
qed (simp add: submit_retry_def)

lemma spawn_frame:
  assumes "core_fresh j core" and "i \<noteq> j"
  shows "core_of (snd (spawn_prepared runtime_ok core d)) i = core_of d i"
proof -
  have id: "ec_execution_id core = j" using assms(1) by (simp add: core_fresh_def)
  obtain res r where rg: "core_register j (dp_registry (put_core core d)) = (res, r)" by fastforce
  have same: "map_of (reg_cores r) i = core_of d i" using register_frame [OF assms(2) rg] id assms(2) by simp
  have "core_of (start_execution runtime_ok j x) i = core_of x i" if "core_of x j = None \<or> (\<exists>c. core_of x j = Some c \<and> ec_execution_id c = j)" for x
    using that assms(2) by (auto simp: start_execution_def Let_def clear_queued_cancel_hook_def drop_start_def commit_exit_frame)
  moreover have "\<exists>c. map_of (reg_cores r) j = Some c \<and> ec_execution_id c = j"
    using core_register_result [of "put_core core d" j core res r] rg assms(1)
    by (cases res) (auto simp: core_fresh_def)
  ultimately show ?thesis
    using rg id same assms(2) by (simp add: spawn_prepared_def drop_start_def commit_exit_frame Let_def split: sum.split)
qed

lemma put_lane_frame [simp]: "core_of (put_lane s d) = core_of d"
  by simp

lemma leave_waiting_frame [simp]: "core_of (leave_waiting p waiter d) = core_of d"
  by (simp add: leave_waiting_def split: option.split)

lemma after_attempt_frame [simp]: "core_of (snd (after_attempt p waiter answer d)) = core_of d"
  by (auto simp: after_attempt_def split: sum.split option.split prod.split)

lemma spawn_wait_frame [simp]: "core_of (snd (spawn_wait p limit timer_ok now ticket d)) = core_of d"
  by (simp add: spawn_wait_def)

lemma turn_frames:
  assumes "i \<noteq> j"
  shows "core_of (snd (spawn_turn p j sub options waiter d)) i = core_of d i"
    and "core_of (snd (spawn_retry_turn p j spec accepted_at now0 now1 now2 waiter d)) i = core_of d i"
    and "core_of (snd (spawn_timeout_turn p limit now j work waiter d)) i = core_of d i"
proof -
  have turn: "core_of (snd (spawn_turn p j sub options waiter d)) i = core_of d i" for sub options
    using submit_frame [OF assms, of p sub None options waiter d]
    by (cases "submit p j sub None options waiter d") (simp add: spawn_turn_def)
  then show "core_of (snd (spawn_turn p j sub options waiter d)) i = core_of d i" .
  show "core_of (snd (spawn_retry_turn p j spec accepted_at now0 now1 now2 waiter d)) i = core_of d i"
    using submit_retry_frame [OF assms, of p spec None accepted_at now1 now2 waiter d]
    by (cases "submit_retry p j spec None accepted_at now1 now2 waiter d") (simp add: spawn_retry_turn_def split: sum.split)
  show "core_of (snd (spawn_timeout_turn p limit now j work waiter d)) i = core_of d i"
    using turn [of "SubmitSpec work" default_options]
    by (auto simp: spawn_timeout_turn_def split: turn_answer.split prod.split)
qed

lemmas prepared_frames = turn_frames submit_frame submit_retry_frame spawn_frame [OF prepare_fresh(1)]

lemma terminal_stays:
  assumes inv: "deployment_inv p d" and c: "core_of d i = Some c" "terminal (ec_state c) \<noteq> None"
    and step: "dep_exec p op d = Some d'"
  shows "core_of d' i = Some c"
proof -
  have out: "i \<notin> queued d" "i \<notin> with_runner d" using deployment_live [OF inv c(1)] c(2) by auto
  have ne: "i \<noteq> j" if "core_of d j = None" for j using that c(1) by auto
  have nr: "i \<noteq> j" if "j \<in> with_runner d" for j using that out(2) by auto
  show ?thesis
  proof (cases op)
    case (OpClaim j)
    then have j: "j \<in> with_runner d" and d': "d' = runner_claims j d" using step by (auto split: if_splits)
    obtain cj where cj: "core_of d j = Some cj" using deployment_known [OF inv] j by blast
    from cj core_identity [OF inv cj] nr [OF j] c(1) show ?thesis
      by (auto simp: d' runner_claims_def claim_start_def run_events commit_exit_frame Let_def)
  next
    case OpDispatch
    obtain starts should_exit s signals where t: "take_startable p (lane_of d) = (starts, should_exit, s, signals)"
      using prod_cases4 by blast
    have "state_inv p (sys_monitors (dp_lane d)) (lane_of d)" using deployment_parts(1) [OF inv] by (simp add: lane_inv_def)
    with take_startable_result [OF _ t] out(1) have "i \<notin> set starts" by blast
    with dispatch_result(1) [OF inv t] step OpDispatch c(1) show ?thesis by auto
  next
    case (OpLaneCloseAndCancel reason)
    obtain listed d1 where l: "lane_close d = (listed, d1)" by fastforce
    then have "core_of d1 i = Some c" and "deployment_inv p d1"
      using c(1) lane_close_inv [OF inv] by (auto simp: lane_close_def split: prod.splits)
    with dead_cancel_all c(2) step OpLaneCloseAndCancel l show ?thesis by (auto simp: close_and_cancel_def)
  next
    case OpLaneClose
    with step c(1) show ?thesis by (auto simp: lane_close_def split: prod.splits)
  next
    case (OpMonitor j)
    with step c(1) show ?thesis by (auto simp: monitor_reports_def split: prod.splits if_splits)
  qed (use step c ne nr in \<open>auto simp: prepared_frames dead_stop [OF inv]
        dead_cancel_all [OF inv] runner_ends_def runner_dropped_def drop_start_def commit_exit_frame lane_cancel_snapshot_def
        split: if_splits\<close>)
qed

section \<open>A concrete deployment\<close>

text \<open>Two submissions, the first from a scope; the second has the higher priority and is dispatched and claimed.\<close>

definition dep0 where "dep0 = dep_new demo_limits 9"
definition dep1 where "dep1 = snd (submit demo_params 1 (SubmitFuture 10) (Some (0, 1)) default_options None dep0)"
definition dep2 where "dep2 = snd (submit demo_params 2 (SubmitFuture 10) None keyed None dep1)"
definition dep3 where "dep3 = dispatch demo_params dep2"
definition dep4 where "dep4 = runner_claims 2 dep3"

definition demo_core1 :: exec_core where
  "demo_core1 = (core_new 1 10 True None [])\<lparr>ec_lane_id := Some 9, ec_scope_id := Some 0, ec_scope_generation := Some 1,
     ec_queued_cancel_hook := Some (RemoveQueued 1), ec_registered := True\<rparr>"

lemmas submit_compute = submit_def check_try_admission_for_def insert_submission_def core_register_def registry_register_def emit_def
  put_core_def put_lane_def install_queued_cancel_hook_def set_lane_id_def with_scope_def set_scope_of_def prepare_defs
  should_capture_event_snapshot_def registry_new_def dep_new_def

lemma dep1_state: "dep1 = dep0\<lparr>dp_registry := (registry_new demo_limits)\<lparr>reg_cores := [(1, demo_core1)], reg_active := [1]\<rparr>,
    dp_lane := \<lparr>sys_lane = sys_lane lane1, sys_monitors = [], sys_dispatches = 0\<rparr>\<rparr>"
  by (simp add: dep1_def dep0_def submit_compute lane_compute lane_state1 demo_limits_def default_limits_def demo_core1_def)


definition demo_core2 :: exec_core where
  "demo_core2 = (core_new 2 10 True None [])\<lparr>ec_lane_id := Some 9,
     ec_queued_cancel_hook := Some (RemoveQueued 2), ec_registered := True\<rparr>"

lemma dep2_state: "dep2 = dep0\<lparr>dp_registry := (registry_new demo_limits)\<lparr>reg_cores := [(1, demo_core1), (2, demo_core2)], reg_active := [1, 2]\<rparr>,
    dp_lane := \<lparr>sys_lane = sys_lane lane2, sys_monitors = [], sys_dispatches = 0\<rparr>\<rparr>"
  by (simp add: dep2_def dep1_state dep0_def submit_compute lane_state1 lane_state2)
    (simp add: lane_compute demo_limits_def default_limits_def demo_core1_def demo_core2_def submit_compute)

lemma dep3_state: "dep3 = dep2\<lparr>dp_registry := (dp_registry dep2)\<lparr>reg_cores := [(1, demo_core1), (2, clear_queued_cancel_hook demo_core2)]\<rparr>,
    dp_lane := \<lparr>sys_lane = sys_lane lane3, sys_monitors = [2], sys_dispatches = 1\<rparr>, dp_started := [2]\<rparr>"
  by (simp add: dep3_def dep2_state dispatch_def lane_take2 lane_state3 start_execution_def put_core_def
      clear_queued_cancel_hook_def demo_core2_def core_new_def dep0_def dep_new_def)

lemma dep4_state: "dep4 = dep3\<lparr>dp_registry := (dp_registry dep3)\<lparr>reg_cores := [(1, demo_core1),
      (2, (clear_queued_cancel_hook demo_core2)\<lparr>ec_state := \<lparr>public_state = Running 1, stop_cause = None, terminal = None\<rparr>\<rparr>)]\<rparr>,
    dp_started := [], dp_running := [2]\<rparr>"
  by (simp add: dep4_def dep3_state dep2_state runner_claims_def claim_start_def run_events emit_state_def emit_def put_core_def Let_def registry_new_def
      clear_queued_cancel_hook_def demo_core2_def core_new_def dep0_def dep_new_def)

lemma dep_reach: "reach dep_init (dep_step demo_params) dep0" "reach dep_init (dep_step demo_params) dep1"
  "reach dep_init (dep_step demo_params) dep2" "reach dep_init (dep_step demo_params) dep3" "reach dep_init (dep_step demo_params) dep4"
proof -
  show r0: "reach dep_init (dep_step demo_params) dep0" by (rule reach_init) (auto simp: dep0_def dep_init_def)
  have "dep_exec demo_params (OpSubmit 1 (SubmitFuture 10) (Some (0, 1)) default_options None) dep0 = Some dep1"
    by (simp add: dep1_def dep0_def dep_new_def registry_new_def lane_compute)
  then show r1: "reach dep_init (dep_step demo_params) dep1" using reach_step [OF r0] unfolding dep_step_def by blast
  have "dep_exec demo_params (OpSubmit 2 (SubmitFuture 10) None keyed None) dep1 = Some dep2"
    by (simp add: dep2_def dep1_state lane_compute)
  then show r2: "reach dep_init (dep_step demo_params) dep2" using reach_step [OF r1] unfolding dep_step_def by blast
  have "dep_exec demo_params OpDispatch dep2 = Some dep3" by (simp add: dep3_def)
  then show r3: "reach dep_init (dep_step demo_params) dep3" using reach_step [OF r2] unfolding dep_step_def by blast
  have "dep_exec demo_params (OpClaim 2) dep3 = Some dep4" by (simp add: dep4_def dep3_state)
  then show "reach dep_init (dep_step demo_params) dep4" using reach_step [OF r3] unfolding dep_step_def by blast
qed

definition dep5 where "dep5 = snd (stop_execution (CancelCause UserRequested) 1 dep1)"

lemma dep1_answer: "fst (submit demo_params 1 (SubmitFuture 10) (Some (0, 1)) default_options None dep0) = Inr 1"
  by (simp add: dep0_def submit_compute lane_compute lane_state1 demo_limits_def default_limits_def demo_core1_def)



section \<open>The result of an insertion\<close>

lemma register_history:
  "core_register i r = (res, r') \<Longrightarrow> reg_history r' = reg_history r"
  by (auto simp: core_register_def registry_register_def Let_def split: option.splits if_splits)

lemma insert_result:
  assumes inv: "deployment_inv p d" and new: "core_of d i = None" and fresh: "core_fresh i core"
    and prio: "opt_priority options \<le> highest_priority" and ins: "insert_submission p core options ticket d = (answer, d')"
  shows "(\<forall>j. j \<noteq> i \<longrightarrow> core_of d' j = core_of d j) \<and> dp_started d' = dp_started d \<and> dp_running d' = dp_running d
    \<and> reg_history (dp_registry d') = reg_history (dp_registry d)
    \<and> (case answer of
         Inr j \<Rightarrow> j = i \<and> ls_queue (lane_of d') = ls_queue (lane_of d) @ [i]
           \<and> set (reg_active (dp_registry d')) = insert i (set (reg_active (dp_registry d)))
           \<and> core_of d' i = Some ((lane_core d core)\<lparr>ec_registered := True\<rparr>)
           \<and> (\<exists>u. insert_locked p i options ticket (lane_of d) = (Inr u, lane_of d'))
       | Inl error \<Rightarrow>
           (\<exists>n wq. lane_of d' = (lane_of d)\<lparr>ls_next_sequence := n, ls_waiting_queue := wq\<rparr>)
           \<and> set (reg_active (dp_registry d')) = set (reg_active (dp_registry d))
           \<and> core_of d' i = Some (committed (ExecutorStopped StopRunnerCancelled) (lane_core d core)))"
proof -
  let ?c = "lane_core d core" and ?x = "ExecutorStopped StopRunnerCancelled"
  have id: "ec_execution_id core = i" and t: "terminal (ec_state core) = None" and f: "ec_has_registry core" "\<not> ec_registered core"
    using fresh by (simp_all add: core_fresh_def)
  note u = deployment_unknown [OF inv new]
  have frame: "\<forall>j. j \<noteq> i \<longrightarrow> core_of d' j = core_of d j" using insert_frame [OF fresh] ins by (metis snd_conv)
  obtain res s where l: "insert_locked p i options ticket (lane_of d) = (res, s)" by fastforce
  have st: "state_inv p (sys_monitors (dp_lane d)) (lane_of d)" using deployment_parts(1) [OF inv] by (simp add: lane_inv_def)
  have lane: "lane_inv p (dp_lane d\<lparr>sys_lane := s\<rparr>)"
    by (rule lane_inv_step [OF deployment_parts(1) [OF inv]], rule lane_step.lane_insert [OF u(5,3) prio l])
  obtain res2 r where rg: "core_register i (dp_registry (put_core ?c d)) = (res2, r)" by fastforce
  have "core_of (put_core ?c d) i = Some ?c" using id by simp
  from core_register_result [OF this _ _ _ rg] f id have rr: "case res2 of
      Inl error \<Rightarrow> map_of (reg_cores r) = map_of (reg_cores (dp_registry (put_core ?c d))) \<and> reg_active r = reg_active (dp_registry d)
    | Inr w \<Rightarrow> map_of (reg_cores r) = (map_of (reg_cores (dp_registry (put_core ?c d))))(i \<mapsto> ?c\<lparr>ec_registered := True\<rparr>)
        \<and> set (reg_active r) = insert i (set (reg_active (dp_registry d)))" by (simp split: sum.splits)
  have h: "reg_history r = reg_history (dp_registry d)" using register_history [OF rg] by simp
  consider error where "res = Inl error" | v error where "res = Inr v" "res2 = Inl error" | v w where "res = Inr v" "res2 = Inr w"
    by (cases res; cases res2) auto
  then show ?thesis
  proof cases
    case 1
    then have d': "answer = Inl error" "d' = put_core (committed ?x ?c) d"
      using insert_refused [OF fresh, of p options ticket d error s] l ins by simp_all
    have "lane_of d = (lane_of d)\<lparr>ls_next_sequence := ls_next_sequence (lane_of d), ls_waiting_queue := ls_waiting_queue (lane_of d)\<rparr>"
      by simp
    then have "\<exists>n wq. lane_of d = (lane_of d)\<lparr>ls_next_sequence := n, ls_waiting_queue := wq\<rparr>" by blast
    then show ?thesis using frame id by (simp add: d')
  next
    case 2
    let ?d1 = "(put_lane s (put_core ?c d))\<lparr>dp_registry := r\<rparr>"
    have d': "answer = Inl (spawn_error_from error)" "d' = unqueue i ?d1"
      using insert_unregistered [OF fresh, of p options ticket d v s error r] l rg ins 2 by simp_all
    have c1: "map_of (reg_cores r) i = Some ?c" using rr 2 id by simp
    obtain s2 signals where rq: "remove_queued i s = (s2, signals)" by fastforce
    have "DropStart i \<in> set signals"
      using remove_queued_result(2) [OF lane, simplified, OF rq] insert_locked_queue(1) [of p i options ticket "lane_of d" v s] l 2 by simp
    with rq have d'': "d' = commit_exit i ?x (put_lane s2 ?d1)" by (simp add: d' unqueue_def drop_start_def)
    have "core_of (put_lane s2 ?d1) i = Some ?c" "terminal (ec_state ?c) = None" "ec_execution_id ?c = i" using c1 t id by simp_all
    note cl = commit_exit_live [OF this, of ?x] and cf = commit_exit_fields [OF this, of ?x]
    have "same_but_permits ((lane_of d)\<lparr>ls_next_sequence := ls_next_sequence (lane_of d) + 1\<rparr>) s2"
      using insert_remove_roundtrip [OF st u(5) _ rq, of options ticket v] l 2 by simp
    then have "\<exists>n wq. s2 = (lane_of d)\<lparr>ls_next_sequence := n, ls_waiting_queue := wq\<rparr>"
      unfolding same_but_permits_def by auto
    moreover have "reg_history (dp_registry d') = reg_history (dp_registry d)" using cl f h by (simp add: d'')
    moreover have "core_of d' i = Some (committed ?x ?c)" using cf(1) [of i] by (simp add: d'')
    moreover have "set (reg_active (dp_registry d')) = set (reg_active (dp_registry d))" using cf(2) f rr 2 by (simp add: d'')
    ultimately show ?thesis using frame d'(1) by (simp add: d'')
  next
    case 3
    then have d': "answer = Inr i" "d' = (put_lane s (put_core ?c d))\<lparr>dp_registry := r\<rparr>"
      using insert_registered [OF fresh, of p options ticket d v s w r] l rg ins by simp_all
    show ?thesis using frame rr 3 l h insert_locked_queue(1) [of p i options ticket "lane_of d" v s] by (simp add: d')
  qed
qed

section \<open>Cancelling many\<close>

definition told_to_stop :: "deployment \<Rightarrow> execution_id \<Rightarrow> bool" where
  "told_to_stop d i \<longleftrightarrow> (\<forall>c. core_of d i = Some c \<longrightarrow> stop_cause (ec_state c) \<noteq> None \<or> terminal (ec_state c) \<noteq> None)"

lemma remove_queued_closing: "ls_closing (fst (remove_queued i s)) = ls_closing s"
  by (simp add: remove_queued_def remove_queued_locked_def decrement_ordering_key_refcount_def Let_def
      same_but_permits_fields [OF same_but_permits_ops(1)] split: option.split)

lemma stop_result:
  fixes i cause
  assumes inv: "deployment_inv p d"
  defines "d' \<equiv> snd (stop_execution cause i d)"
  shows "told_to_stop d' i \<and> (core_of d i \<noteq> None \<longrightarrow> core_of d' i \<noteq> None)
    \<and> queued d' \<subseteq> queued d \<and> ls_closing (lane_of d') = ls_closing (lane_of d)"
proof (cases "core_of d i")
  case None
  then show ?thesis by (simp add: d'_def stop_execution_def told_to_stop_def)
next
  case (Some c)
  note id = core_identity [OF inv Some]
  show ?thesis
  proof (cases "terminal (ec_state c) = None \<and> stop_cause (ec_state c) = None")
    case False
    with stop_not_requested [OF Some id, of cause] Some show ?thesis by (auto simp: d'_def told_to_stop_def)
  next
    case go: True
    show ?thesis
    proof (cases "i \<in> queued d")
      case True
      note r = stop_queued_result [OF inv Some True, of cause]
      have "queued d' \<subseteq> queued d"
        using remove_queued_result(1) [OF deployment_parts(1) [OF inv], of i]
        by (cases "remove_queued i (lane_of d)") (auto simp: d'_def r(2))
      then show ?thesis
        using r(1) [of i] by (simp add: d'_def told_to_stop_def r(2) remove_queued_closing)
    next
      case False
      then have "ec_queued_cancel_hook c = None"
        using deployment_core [OF inv Some] go by (auto simp: core_ok_def core_dead_def split: if_splits)
      with go id show ?thesis
        by (simp add: d'_def stop_requested [OF Some] run_events Let_def told_to_stop_def)
    qed
  qed
qed

lemma told_stays:
  assumes "deployment_inv p d" and "told_to_stop d i"
  shows "told_to_stop (snd (stop_execution cause j d)) i"
  using assms stop_frame [OF assms(1), of i j cause] stop_result [OF assms(1), where i = j and cause = cause]
  by (cases "i = j") (simp_all add: told_to_stop_def)

lemma cancel_all_result:
  assumes "deployment_inv p d"
  shows "(\<forall>i \<in> set is. told_to_stop (cancel_all_of reason is d) i)
    \<and> (\<forall>i. told_to_stop d i \<longrightarrow> told_to_stop (cancel_all_of reason is d) i)
    \<and> (\<forall>i. core_of d i \<noteq> None \<longrightarrow> core_of (cancel_all_of reason is d) i \<noteq> None)
    \<and> queued (cancel_all_of reason is d) \<subseteq> queued d \<and> ls_closing (lane_of (cancel_all_of reason is d)) = ls_closing (lane_of d)"
  using assms
proof (induction "is" arbitrary: d)
  case (Cons j rest)
  let ?d = "snd (stop_execution (CancelCause reason) j d)"
  have step: "cancel_all_of reason (j # rest) d = cancel_all_of reason rest ?d" by (simp add: cancel_all_of_def)
  have "deployment_inv p ?d" by (rule stop_execution_inv [OF Cons.prems])
  note IH = Cons.IH [OF this]
  note one = stop_result [OF Cons.prems, where i = j and cause = "CancelCause reason"]
  have known: "core_of ?d i \<noteq> None" if "core_of d i \<noteq> None" for i
    using that one stop_frame [OF Cons.prems, of i j "CancelCause reason"] by (cases "i = j") simp_all
  have stays: "told_to_stop ?d i" if "told_to_stop d i" for i using told_stays [OF Cons.prems that] .
  show ?case unfolding step using IH one known stays by (intro conjI allI impI ballI) auto
qed (simp add: cancel_all_of_def)

lemma later_inv:
  assumes "deployment_inv p d" and "core_of d i = Some c" and "terminal (ec_state c) \<noteq> None" and "(dep_step p)\<^sup>*\<^sup>* d d'"
  shows "deployment_inv p d' \<and> core_of d' i = Some c"
  using assms(4,1,2)
proof induction
  case (step d1 d2)
  then obtain op where "dep_exec p op d1 = Some d2" by (auto simp: dep_step_def)
  with step.IH step.prems terminal_stays assms(3) dep_exec_inv show ?case by blast
qed simp

section \<open>Properties\<close>







text \<open>
  C3. Submitting and cancelling is the identity on the lane.  A stop request that reaches a submitted
  execution while it is queued is accepted and leaves the lane exactly as before the submission - queue,
  entries, active set, reference counts of the ordering keys - but for the sequence number used and
  the producers woken; the registry is as before and the execution has ended with the cause.
\<close>

theorem submit_cancel_roundtrip:
  assumes "reach dep_init (dep_step p) d" and "core_of d i = None" and "opt_priority options \<le> highest_priority"
    and "submit p i sub scope options ticket d = (Inr i, d1)" and "stop_execution cause i d1 = (outcome, d2)"
  shows "outcome = Requested
    \<and> (\<exists>wq. lane_of d2 = (lane_of d)\<lparr>ls_next_sequence := ls_next_sequence (lane_of d) + 1, ls_waiting_queue := wq\<rparr>
         \<and> map fst wq = map fst (ls_waiting_queue (lane_of d)))
    \<and> set (reg_active (dp_registry d2)) = set (reg_active (dp_registry d))
    \<and> dp_started d2 = dp_started d \<and> dp_running d2 = dp_running d
    \<and> (\<forall>j. j \<noteq> i \<longrightarrow> core_of d2 j = core_of d j)
    \<and> (\<exists>c. core_of d2 i = Some c
         \<and> terminal (ec_state c) = Some (case cause of CancelCause reason \<Rightarrow> SumCancelled reason | DeadlineCause \<Rightarrow> SumFailed))"
proof -
  have inv: "deployment_inv p d" by (rule deployment.reach_inv [OF assms(1)])
  have fresh: "core_fresh i (with_scope scope (prepare i sub))" by (simp add: prepare_fresh)
  have ins: "insert_submission p (with_scope scope (prepare i sub)) options ticket d = (Inr i, d1)"
    using assms(4) by (auto simp: submit_def split: sum.splits)
  obtain u where l1: "insert_locked p i options ticket (lane_of d) = (Inr u, lane_of d1)"
    and c1: "core_of d1 i = Some ((lane_core d (with_scope scope (prepare i sub)))\<lparr>ec_registered := True\<rparr>)"
    and q1: "i \<in> queued d1" and same: "dp_started d1 = dp_started d" "dp_running d1 = dp_running d"
      "\<forall>j. j \<noteq> i \<longrightarrow> core_of d1 j = core_of d j" "set (reg_active (dp_registry d1)) = insert i (set (reg_active (dp_registry d)))"
    using insert_result [OF inv assms(2) fresh assms(3) ins] by auto
  have inv1: "deployment_inv p d1" using submit_inv [OF inv assms(2,3), of sub scope ticket] assms(4) by simp
  note r = stop_queued_result [OF inv1 c1 q1, of cause]
  obtain s signals where rm: "remove_queued i (lane_of d1) = (s, signals)" by fastforce
  have d2: "d2 = snd (stop_execution cause i d1)" and out: "outcome = Requested"
    using assms(5) stop_queued [OF inv1 c1 q1, of cause] by auto
  have "state_inv p (sys_monitors (dp_lane d)) (lane_of d)" using deployment_parts(1) [OF inv] by (simp add: lane_inv_def)
  from insert_remove_roundtrip [OF this deployment_unknown(5) [OF inv assms(2)] l1 rm]
  have lane: "\<exists>wq. lane_of d2 = (lane_of d)\<lparr>ls_next_sequence := ls_next_sequence (lane_of d) + 1, ls_waiting_queue := wq\<rparr>
      \<and> map fst wq = map fst (ls_waiting_queue (lane_of d))"
    using r(2) rm by (auto simp: same_but_permits_def d2)
  have "summary (select_exit (Some cause) (ExecutorStopped StopRunnerCancelled) :: (nat, nat) task_exit)
      = (case cause of CancelCause reason \<Rightarrow> SumCancelled reason | DeadlineCause \<Rightarrow> SumFailed)"
    by (cases cause) simp_all
  then have "\<exists>c. core_of d2 i = Some c
      \<and> terminal (ec_state c) = Some (case cause of CancelCause reason \<Rightarrow> SumCancelled reason | DeadlineCause \<Rightarrow> SumFailed)"
    using r(1) [of i] by (simp add: d2)
  moreover have "\<forall>j. j \<noteq> i \<longrightarrow> core_of d2 j = core_of d j" using r(1) same(3) by (simp add: d2)
  moreover have "set (reg_active (dp_registry d2)) = set (reg_active (dp_registry d))"
    using r(4) same(4) deployment_unknown(4) [OF inv assms(2)] by (auto simp: d2)
  ultimately show ?thesis using out lane r(5,6) same(1,2) by (simp add: d2)
qed

theorem submit_cancel_roundtrip_witness:
  "fst (stop_execution (CancelCause UserRequested) 1 dep1) = Requested \<and> ls_queue (lane_of dep5) = []"
proof -
  have s: "submit demo_params 1 (SubmitFuture 10) (Some (0, 1)) default_options None dep0 = (Inr 1, dep1)"
    using dep1_answer by (simp add: prod_eq_iff dep1_def)
  have "stop_execution (CancelCause UserRequested) 1 dep1 = (fst (stop_execution (CancelCause UserRequested) 1 dep1), dep5)"
    by (simp add: dep5_def)
  from submit_cancel_roundtrip [OF dep_reach(1) _ _ s this]
  have "fst (stop_execution (CancelCause UserRequested) 1 dep1) = Requested
    \<and> (\<exists>wq. lane_of dep5 = (lane_of dep0)\<lparr>ls_next_sequence := ls_next_sequence (lane_of dep0) + 1, ls_waiting_queue := wq\<rparr>)"
    by (auto simp: dep0_def dep_new_def registry_new_def default_options_def normal_priority_def highest_priority_def)
  then show ?thesis by (auto simp: dep0_def dep_new_def lane_state_new_def)
qed

text \<open>
  Cancelling a queued execution is final.  The request is accepted, and in every later state the
  execution has ended with the cause of that request, was never claimed, and has no runner.
\<close>

theorem cancelled_while_queued_never_runs:
  assumes "reach dep_init (dep_step p) d" and "i \<in> set (ls_queue (lane_of d))"
    and "stop_execution cause i d = (outcome, d1)" and "(dep_step p)\<^sup>*\<^sup>* d1 d2"
  shows "outcome = Requested \<and> i \<notin> set (dp_started d2) \<and> i \<notin> set (dp_running d2)
    \<and> (\<exists>c. core_of d2 i = Some c
         \<and> terminal (ec_state c) = Some (case cause of CancelCause reason \<Rightarrow> SumCancelled reason | DeadlineCause \<Rightarrow> SumFailed))"
proof -
  have inv: "deployment_inv p d" by (rule deployment.reach_inv [OF assms(1)])
  obtain c where c: "core_of d i = Some c" using deployment_known [OF inv] assms(2) by blast
  have d1: "d1 = snd (stop_execution cause i d)" and out: "outcome = Requested"
    using assms(3) stop_queued [OF inv c assms(2), of cause] by auto
  let ?c = "committed (ExecutorStopped StopRunnerCancelled) (stopped_core cause c)"
  have c1: "core_of d1 i = Some ?c" using stop_queued_result(1) [OF inv c assms(2), of cause i] by (simp add: d1)
  have "dep_exec p (OpStop cause i) d = Some d1" by (simp add: d1)
  then have "reach dep_init (dep_step p) d1" using reach_step [OF assms(1)] unfolding dep_step_def by blast
  from later_inv [OF deployment.reach_inv [OF this] c1 _ assms(4)]
  have d2: "deployment_inv p d2" "core_of d2 i = Some ?c" by simp_all
  have "i \<notin> with_runner d2" using deployment_live [OF d2] by simp
  moreover have "summary (select_exit (Some cause) (ExecutorStopped StopRunnerCancelled) :: (nat, nat) task_exit)
      = (case cause of CancelCause reason \<Rightarrow> SumCancelled reason | DeadlineCause \<Rightarrow> SumFailed)"
    by (cases cause) simp_all
  ultimately show ?thesis using out d2(2) by simp
qed

theorem cancelled_while_queued_never_runs_witness:
  "2 \<notin> set (dp_started (dispatch demo_params (snd (stop_execution DeadlineCause 2 dep2))))"
proof -
  let ?d = "snd (stop_execution DeadlineCause 2 dep2)"
  have "dep_step demo_params ?d (dispatch demo_params ?d)" unfolding dep_step_def by (rule exI [of _ OpDispatch]) simp
  then have "(dep_step demo_params)\<^sup>*\<^sup>* ?d (dispatch demo_params ?d)" by blast
  moreover have "2 \<in> set (ls_queue (lane_of dep2))" by (simp add: dep2_state lane_state2)
  ultimately show ?thesis
    using cancelled_while_queued_never_runs [OF dep_reach(3), of 2 DeadlineCause "fst (stop_execution DeadlineCause 2 dep2)" ?d] by simp
qed

text \<open>
  Closing a lane with cancellation reaches everything in it.  Afterwards the queue is empty, every
  execution the lane held has been told to stop or has ended, and no submission gets in.
\<close>

theorem close_and_cancel_reaches_all:
  assumes "reach dep_init (dep_step p) d"
  shows "ls_closing (lane_of (close_and_cancel reason d)) \<and> ls_queue (lane_of (close_and_cancel reason d)) = []
    \<and> (\<forall>i \<in> set (ls_active (lane_of d)). \<exists>c. core_of (close_and_cancel reason d) i = Some c
         \<and> (stop_cause (ec_state c) \<noteq> None \<or> terminal (ec_state c) \<noteq> None))
    \<and> fst (submit p i sub scope options ticket (close_and_cancel reason d))
        = Inl (if dp_admission_open (close_and_cancel reason d) then SpLaneClosing else SpExecutorShuttingDown)"
proof -
  have inv: "deployment_inv p d" by (rule deployment.reach_inv [OF assms])
  obtain listed d1 where l: "lane_close d = (listed, d1)" by fastforce
  have inv1: "deployment_inv p d1" using lane_close_inv [OF inv] l by simp
  have listed: "listed = ls_active (lane_of d)" and cl: "ls_closing (lane_of d1)" and q: "ls_queue (lane_of d1) = ls_queue (lane_of d)"
    and same: "core_of d1 = core_of d"
    using l same_but_permits_fields [OF same_but_permits_ops(2)]
    by (auto simp: lane_close_def lane_request_close_def Let_def)
  let ?d = "close_and_cancel reason d"
  have d': "?d = cancel_all_of reason listed d1" by (simp add: close_and_cancel_def l)
  have inv2: "deployment_inv p ?d" by (rule close_and_cancel_inv [OF inv])
  note all = cancel_all_result [OF inv1, of listed reason, folded d']
  have told: "\<exists>c. core_of ?d i = Some c \<and> (stop_cause (ec_state c) \<noteq> None \<or> terminal (ec_state c) \<noteq> None)"
    if "i \<in> set (ls_active (lane_of d))" for i
    using all that lane_active_cores [OF inv that] unfolding listed same told_to_stop_def by fastforce
  have "i \<notin> queued ?d" for i
  proof
    assume i: "i \<in> queued ?d"
    then have "i \<in> queued d" using all q by auto
    then have "i \<in> set (ls_active (lane_of d))"
      using deployment_parts(1,2) [OF inv] by (simp add: lane_inv_def state_inv_def queue_inv_def)
    then obtain c where c: "core_of ?d i = Some c" "stop_cause (ec_state c) \<noteq> None \<or> terminal (ec_state c) \<noteq> None"
      using told by blast
    with deployment_core [OF inv2 c(1)] i show False by (simp add: core_ok_def core_queued_def core_live_def)
  qed
  then have "queued ?d = {}" by (simp add: set_eq_iff)
  moreover have closing: "ls_closing (lane_of ?d)" using all cl by simp
  moreover have "fst (submit p i sub scope options ticket ?d)
      = Inl (if dp_admission_open ?d then SpLaneClosing else SpExecutorShuttingDown)"
    using closing deployment_parts(2) [OF inv2] by (simp add: submit_def check_try_admission_for_def)
  ultimately show ?thesis using told by auto
qed

theorem close_and_cancel_reaches_all_witness:
  "ls_queue (lane_of (close_and_cancel ExecutorShutdown dep4)) = []
   \<and> (\<exists>c. core_of (close_and_cancel ExecutorShutdown dep4) 2 = Some c
        \<and> (stop_cause (ec_state c) \<noteq> None \<or> terminal (ec_state c) \<noteq> None))"
  using close_and_cancel_reaches_all [OF dep_reach(5), of ExecutorShutdown]
  by (simp add: dep4_state dep3_state lane_state3)

end
