(* ===== verification/BB_Scope_Lane.thy ===== *)
theory BB_Scope_Lane
  imports BB_Scope_Tree BB_Submission_Claims
begin

text \<open>
  Scopes over a lane: the scope store of \<open>scope.rs\<close> and the deployment of a lane, its registry and its
  executions, as one system.  A scope submits through the lane and tracks what was admitted, its
  cancellations are stop requests to the executions, and its monitors report what really ended.  The
  results join the two: what a live execution says of its scope is what the scope tracks, cancelling a
  scope stops its work in the lane, and a strictly rotated scope has live work of one generation only.
\<close>

section \<open>The joint system\<close>

record world =
  w_scopes :: scope_store
  w_dep :: deployment

datatype (plugins only: size) scoped_work =
    ScopedWork submission
  | ScopedRetry "unit retry_spec" instant instant

definition lane_scoped ::
  "lane_params \<Rightarrow> execution_id \<Rightarrow> scoped_work \<Rightarrow> scope_id \<Rightarrow> u64 \<Rightarrow> deployment
   \<Rightarrow> (spawn_error + execution_id) \<times> deployment" where
  "lane_scoped p fresh work g number d =
     (case work of
        ScopedWork sub \<Rightarrow> submit p fresh sub (Some (g, number)) default_options None d
      | ScopedRetry spec accepted_at now \<Rightarrow> try_spawn_retry_scoped p fresh spec g number accepted_at now d)"

text \<open>The scope's lock is held from the check to the tracking.\<close>

definition generation_try_spawn ::
  "lane_params \<Rightarrow> execution_id \<Rightarrow> scoped_work \<Rightarrow> scope_id \<Rightarrow> world \<Rightarrow> (scope_spawn_error + execution_id) \<times> world" where
  "generation_try_spawn p fresh work g w =
     (let st = w_scopes w; core = gen_of st g in
      case check_current g core (scope_of st (st_family st ! g)) of
        Inl error \<Rightarrow> (Inl error, w)
      | Inr _ \<Rightarrow>
          (case lane_scoped p fresh work g (gen_number core) (w_dep w) of
             (answer, d) \<Rightarrow>
               (fst (scope_try_spawn g core (scope_of st (st_family st ! g)) answer),
                \<lparr>w_scopes = do_spawn g answer st, w_dep = d\<rparr>)))"

text \<open>What a step of the scope store added to the cancelled executions, as stop requests.\<close>

definition stop_new :: "cancel_reason \<Rightarrow> scope_store \<Rightarrow> scope_store \<Rightarrow> deployment \<Rightarrow> deployment" where
  "stop_new reason st st' d =
     cancel_all_of reason (take (length (st_cancelled st') - length (st_cancelled st)) (st_cancelled st')) d"

datatype (plugins only: size) world_op =
    WorldScope
  | WorldChild nat
  | WorldSpawn scope_id execution_id scoped_work
  | WorldEnded execution_id
  | WorldUntrack scope_id execution_id
  | WorldRotate "execution_id list option" nat rotation_policy
  | WorldCancelPending nat
  | WorldRotation "nat list" nat
  | WorldCancel cancel_reason "nat list" nat
  | WorldClose nat
  | WorldLane dep_op

fun scope_free :: "dep_op \<Rightarrow> bool" where
  "scope_free (OpSubmit i sub scope options ticket) = (scope = None)"
| "scope_free (OpSubmitRetry i spec scope accepted_at now1 now2 ticket) = (scope = None)"
| "scope_free _ = True"

definition on_scopes :: "scope_op \<Rightarrow> world \<Rightarrow> world option" where
  "on_scopes op w = map_option (\<lambda>st. w\<lparr>w_scopes := st\<rparr>) (scope_exec op (w_scopes w))"

definition on_both :: "cancel_reason \<Rightarrow> scope_op \<Rightarrow> world \<Rightarrow> world option" where
  "on_both reason op w =
     map_option (\<lambda>st. \<lparr>w_scopes = st, w_dep = stop_new reason (w_scopes w) st (w_dep w)\<rparr>) (scope_exec op (w_scopes w))"

fun world_exec :: "lane_params \<Rightarrow> world_op \<Rightarrow> world \<Rightarrow> world option" where
  "world_exec p WorldScope w = on_scopes OpScope w"
| "world_exec p (WorldChild f) w = on_scopes (OpChild f) w"
| "world_exec p (WorldSpawn g i work) w =
     (if g < length (st_generations (w_scopes w)) \<and> core_of (w_dep w) i = None
      then Some (snd (generation_try_spawn p i work g w)) else None)"
| "world_exec p (WorldEnded i) w =
     (if \<exists>c \<in> set_option (core_of (w_dep w) i). ec_terminal_watch c \<noteq> None then on_scopes (OpScopedEnd i) w else None)"
| "world_exec p (WorldUntrack g i) w = on_scopes (OpUntrack g i) w"
| "world_exec p (WorldRotate path f policy) w = on_scopes (OpRotate path f policy) w"
| "world_exec p (WorldCancelPending r) w = on_scopes (OpCancelPending r) w"
| "world_exec p (WorldRotation dead r) w = on_both ScopeCancelled (OpRotation dead r) w"
| "world_exec p (WorldCancel reason dead f) w = on_both reason (OpCancelScope dead f) w"
| "world_exec p (WorldClose f) w = on_scopes (OpCloseScope f) w"
| "world_exec p (WorldLane op) w =
     (if scope_free op then map_option (\<lambda>d. w\<lparr>w_dep := d\<rparr>) (dep_exec p op (w_dep w)) else None)"

definition world_init :: "world \<Rightarrow> bool" where
  "world_init w \<longleftrightarrow> w_scopes w = scope_store_new \<and> dep_init (w_dep w)"

definition world_step :: "lane_params \<Rightarrow> world \<Rightarrow> world \<Rightarrow> bool" where
  "world_step p w w' \<longleftrightarrow> (\<exists>op. world_exec p op w = Some w')"

section \<open>What operations of the lane leave alone\<close>

text \<open>Executions never lose their scope or their exit, and operations outside a scope prepare executions of no scope.\<close>

definition keeps :: "deployment \<Rightarrow> deployment \<Rightarrow> bool" where
  "keeps d d' \<longleftrightarrow> (\<forall>i. case core_of d i of
     None \<Rightarrow> \<forall>c'. core_of d' i = Some c' \<longrightarrow> ec_scope_id c' = None
   | Some c \<Rightarrow> \<exists>c'. core_of d' i = Some c' \<and> ec_scope_id c' = ec_scope_id c
       \<and> (terminal (ec_state c) \<noteq> None \<longrightarrow> terminal (ec_state c') \<noteq> None))"

lemma keeps_same: "core_of d' = core_of d \<Longrightarrow> keeps d d'"
  by (simp add: keeps_def split: option.split)

lemma keeps_trans:
  assumes "keeps d d1" and "keeps d1 d2"
  shows "keeps d d2"
  unfolding keeps_def
proof
  fix i
  from assms have 1: "case core_of d i of
     None \<Rightarrow> \<forall>c'. core_of d1 i = Some c' \<longrightarrow> ec_scope_id c' = None
   | Some c \<Rightarrow> \<exists>c'. core_of d1 i = Some c' \<and> ec_scope_id c' = ec_scope_id c
       \<and> (terminal (ec_state c) \<noteq> None \<longrightarrow> terminal (ec_state c') \<noteq> None)"
    and 2: "case core_of d1 i of
     None \<Rightarrow> \<forall>c'. core_of d2 i = Some c' \<longrightarrow> ec_scope_id c' = None
   | Some c \<Rightarrow> \<exists>c'. core_of d2 i = Some c' \<and> ec_scope_id c' = ec_scope_id c
       \<and> (terminal (ec_state c) \<noteq> None \<longrightarrow> terminal (ec_state c') \<noteq> None)"
    unfolding keeps_def by blast+
  show "case core_of d i of
     None \<Rightarrow> \<forall>c'. core_of d2 i = Some c' \<longrightarrow> ec_scope_id c' = None
   | Some c \<Rightarrow> \<exists>c'. core_of d2 i = Some c' \<and> ec_scope_id c' = ec_scope_id c
       \<and> (terminal (ec_state c) \<noteq> None \<longrightarrow> terminal (ec_state c') \<noteq> None)"
    using 1 2 by (cases "core_of d i"; cases "core_of d1 i") auto
qed

lemma keeps_change:
  assumes "\<And>j. j \<noteq> i \<Longrightarrow> core_of d' j = core_of d j" and "core_of d i = Some c" and "core_of d' i = Some c'"
    and "ec_scope_id c' = ec_scope_id c" and "terminal (ec_state c) \<noteq> None \<Longrightarrow> terminal (ec_state c') \<noteq> None"
  shows "keeps d d'"
  unfolding keeps_def
proof
  fix j show "case core_of d j of
     None \<Rightarrow> \<forall>c'. core_of d' j = Some c' \<longrightarrow> ec_scope_id c' = None
   | Some c \<Rightarrow> \<exists>c'. core_of d' j = Some c' \<and> ec_scope_id c' = ec_scope_id c
       \<and> (terminal (ec_state c) \<noteq> None \<longrightarrow> terminal (ec_state c') \<noteq> None)"
    using assms by (cases "j = i") (auto split: option.split)
qed

lemma keeps_fresh:
  assumes "\<And>j. j \<noteq> i \<Longrightarrow> core_of d' j = core_of d j" and "core_of d i = None"
    and "\<And>c'. core_of d' i = Some c' \<Longrightarrow> ec_scope_id c' = None"
  shows "keeps d d'"
  unfolding keeps_def
proof
  fix j show "case core_of d j of
     None \<Rightarrow> \<forall>c'. core_of d' j = Some c' \<longrightarrow> ec_scope_id c' = None
   | Some c \<Rightarrow> \<exists>c'. core_of d' j = Some c' \<and> ec_scope_id c' = ec_scope_id c
       \<and> (terminal (ec_state c) \<noteq> None \<longrightarrow> terminal (ec_state c') \<noteq> None)"
    using assms by (cases "j = i") (auto split: option.split)
qed

lemma kept_scope [simp]:
  "ec_scope_id (committed exit c) = ec_scope_id c" "ec_scope_id (stopped_core cause c) = ec_scope_id c"
  "ec_scope_id (lane_core d c) = ec_scope_id c" "ec_scope_id (clear_queued_cancel_hook c) = ec_scope_id c"
  by (simp_all add: committed_def stopped_core_def lane_core_def install_queued_cancel_hook_def set_lane_id_def
      clear_queued_cancel_hook_def Let_def)

lemma commit_kept: "commit c cell exit = (won, c', cell', effects) \<Longrightarrow>
  ec_scope_id c' = ec_scope_id c \<and> terminal (ec_state c') \<noteq> None"
  by (auto simp: commit_def commit_locked_def commit_publish_def Let_def split: if_splits prod.splits)

lemma keeps_commit: "keeps d (commit_exit i exit d)"
proof (cases "core_of d i")
  case None
  then have "commit_exit i exit d = d" by (simp add: commit_exit_def registry_commit_def)
  then show ?thesis by (simp add: keeps_same)
next
  case (Some c)
  obtain won c' cell' effects where c: "commit c None exit = (won, c', cell' :: (nat, nat) result_cell, effects)"
    using prod_cases4 by blast
  have "core_of (commit_exit i exit d) i = Some c'"
    using Some c by (auto simp: commit_exit_def registry_commit_def map_of_update Let_def split: list.split exec_effect.split)
  with commit_kept [OF c] show ?thesis
    by (intro keeps_change [where i = i and c = c and c' = c']) (simp_all add: commit_exit_frame Some)
qed

lemma keeps_unqueue: "keeps d (unqueue i d)"
  using keeps_trans [OF keeps_same keeps_commit, of "put_lane s d" d for s]
  by (auto simp: unqueue_def drop_start_def keeps_same split: prod.split)

lemma keeps_stop:
  assumes inv: "deployment_inv p d"
  shows "keeps d (snd (stop_execution cause i d))"
proof (cases "core_of d i")
  case None
  then show ?thesis by (simp add: stop_execution_def keeps_same)
next
  case (Some c)
  note id = core_identity [OF inv Some]
  show ?thesis
  proof (cases "terminal (ec_state c) = None \<and> stop_cause (ec_state c) = None")
    case go: True
    show ?thesis
    proof (rule keeps_change [where i = i, OF stop_frame [OF inv] Some], assumption)
      show "core_of (snd (stop_execution cause i d)) i = Some (if i \<in> queued d
          then committed (ExecutorStopped StopRunnerCancelled) (stopped_core cause c) else stopped_core cause c)"
      proof (cases "i \<in> queued d")
        case True
        with stop_queued_result(1) [OF inv Some True, of cause i] show ?thesis by simp
      next
        case False
        then have "ec_queued_cancel_hook c = None"
          using deployment_core [OF inv Some] go by (auto simp: core_ok_def core_dead_def split: if_splits)
        with go id False show ?thesis by (simp add: stop_requested [OF Some] run_events Let_def)
      qed
    qed (use go in simp_all)
  qed (use stop_not_requested [OF Some id] in \<open>auto simp: keeps_same\<close>)
qed

lemma keeps_cancel_all:
  assumes "deployment_inv p d"
  shows "keeps d (cancel_all_of reason is d)"
  using assms unfolding cancel_all_of_def
proof (induction "is" arbitrary: d)
  case (Cons j rest)
  from keeps_trans [OF keeps_stop [OF Cons.prems] Cons.IH [OF stop_execution_inv [OF Cons.prems]]] show ?case by simp
qed (simp add: keeps_same)

lemma prepare_scope [simp]: "ec_scope_id (prepare i sub) = None" "ec_scope_id (fst (prepare_retry i spec limit)) = None"
  by (cases sub) (simp_all add: prepare_defs)

text \<open>The scope of a freshly inserted execution is the one it was prepared with; refused ones have ended.\<close>

lemma insert_scope:
  assumes "deployment_inv p d" and "core_of d i = None" and "core_fresh i core" and "opt_priority options \<le> highest_priority"
    and "insert_submission p core options ticket d = (answer, d')"
  shows "\<exists>c'. core_of d' i = Some c' \<and> ec_scope_id c' = ec_scope_id core
    \<and> (answer = Inr i \<and> terminal (ec_state c') = None \<or> (\<exists>error. answer = Inl error) \<and> terminal (ec_state c') \<noteq> None)"
  using insert_result [OF assms] assms(3) by (cases answer) (auto simp: core_fresh_def)

lemma keeps_insert:
  assumes "deployment_inv p d" and "core_of d i = None" and "core_fresh i core" and "opt_priority options \<le> highest_priority"
    and "ec_scope_id core = None"
  shows "keeps d (snd (insert_submission p core options ticket d))"
proof (rule keeps_fresh [where i = i, OF insert_frame [OF assms(3)] assms(2)], assumption)
  fix c' assume "core_of (snd (insert_submission p core options ticket d)) i = Some c'"
  with insert_scope [OF assms(1-4), of ticket] assms(5) show "ec_scope_id c' = None"
    by (cases "insert_submission p core options ticket d") auto
qed

lemma keeps_submit:
  assumes "deployment_inv p d" and "core_of d i = None" and "opt_priority options \<le> highest_priority"
  shows "keeps d (snd (submit p i sub None options ticket d))"
  using keeps_insert [OF assms(1,2) _ assms(3), of "prepare i sub" ticket]
  by (simp add: submit_def with_scope_def prepare_fresh keeps_same split: sum.split)

lemma keeps_submit_retry:
  assumes "deployment_inv p d" and "core_of d i = None"
  shows "keeps d (snd (submit_retry p i spec None accepted_at now1 now2 ticket d))"
proof (cases "deadline_at spec accepted_at")
  case (Inr limit)
  obtain core watchers where pr: "prepare_retry i spec limit = (core, watchers)" by fastforce
  let ?d = "d\<lparr>dp_watchers := watchers @ dp_watchers d\<rparr>"
  have "keeps ?d (snd (insert_submission p core default_options ticket ?d))"
    using keeps_insert [of p ?d i core default_options ticket] assms prepare_fresh(2) [of i spec limit]
      prepare_scope(2) [of i spec limit] pr
    by (simp add: default_options_def highest_priority_def normal_priority_def)
  moreover have "keeps d ?d" by (simp add: keeps_same)
  ultimately have "keeps d (snd (insert_submission p core default_options ticket ?d))" using keeps_trans by blast
  with Inr pr show ?thesis by (simp add: submit_retry_def with_scope_def keeps_same split: sum.split)
qed (simp add: submit_retry_def keeps_same)

lemma keeps_spawn:
  assumes fresh: "core_fresh i core" and new: "core_of d i = None" and scope: "ec_scope_id core = None"
  shows "keeps d (snd (spawn_prepared runtime_ok core d))" (is "keeps d ?d")
proof (rule keeps_fresh [where i = i, OF spawn_frame [OF fresh] new], assumption)
  fix c' assume c': "core_of ?d i = Some c'"
  have id: "ec_execution_id core = i" and f: "ec_has_registry core" "\<not> ec_registered core"
    using fresh by (simp_all add: core_fresh_def)
  obtain res r where rg: "core_register i (dp_registry (put_core core d)) = (res, r)" by fastforce
  let ?d1 = "(put_core core d)\<lparr>dp_registry := r\<rparr>"
  have "core_of (put_core core d) i = Some core" using id by simp
  note rr = core_register_result [OF this f id rg]
  then have c1: "\<exists>c. core_of ?d1 i = Some c \<and> ec_scope_id c = None \<and> ec_execution_id c = i"
    using scope id by (cases res) auto
  have kept: "ec_scope_id c' = None" if "keeps ?d1 x" "core_of x i = Some c'" for x
    using c1 that unfolding keeps_def by (auto dest: spec [of _ i])
  have start: "keeps ?d1 (start_execution runtime_ok i ?d1)"
  proof -
    obtain c where c: "core_of ?d1 i = Some c" "ec_scope_id c = None" "ec_execution_id c = i" using c1 by blast
    let ?d2 = "put_core (clear_queued_cancel_hook c) ?d1"
    have idc: "ec_execution_id (clear_queued_cancel_hook c) = i" using c(3) by (simp add: clear_queued_cancel_hook_def)
    have "keeps ?d1 ?d2"
      by (rule keeps_change [where i = i and c = c and c' = "clear_queued_cancel_hook c"])
        (use c idc in \<open>simp_all add: clear_queued_cancel_hook_def\<close>)
    then have "keeps ?d1 (?d2\<lparr>dp_started := i # dp_started ?d1\<rparr>)" "keeps ?d1 (drop_start i ?d2)"
      using keeps_trans [OF _ keeps_same] keeps_trans [OF _ keeps_commit] by (simp_all add: drop_start_def)
    with c(1) show ?thesis by (simp add: start_execution_def Let_def)
  qed
  show "ec_scope_id c' = None"
    using kept [OF start] kept [OF keeps_commit] c' rg id
    by (auto simp: spawn_prepared_def drop_start_def Let_def split: sum.splits)
qed

lemma keeps_claim:
  assumes inv: "deployment_inv p d"
  shows "keeps d (runner_claims i d)"
proof (cases "core_of d i")
  case (Some c)
  note id = core_identity [OF inv Some]
  show ?thesis
  proof (cases "fst (claim_start c)")
    case True
    then have "terminal (ec_state c) = None" by (auto simp: claim_start_def split: if_splits)
    with True Some id show ?thesis
      by (intro keeps_change [where i = i and c = c and c' = "fst (snd (claim_start c))"])
        (auto simp: runner_claims_def claim_start_def run_events Let_def split: if_splits)
  next
    case False
    then have "core_of (runner_claims i d) = core_of (commit_exit i (ExecutorStopped StopRunnerCancelled) d)"
      using Some by (auto simp: runner_claims_def claim_start_def Let_def split: if_splits)
    with keeps_trans [OF keeps_commit keeps_same] show ?thesis by blast
  qed
qed (simp add: runner_claims_def keeps_same)

lemma keeps_dispatch:
  assumes inv: "deployment_inv p d"
  shows "keeps d (dispatch p d)"
proof -
  obtain starts should_exit s signals where t: "take_startable p (lane_of d) = (starts, should_exit, s, signals)"
    using prod_cases4 by blast
  show ?thesis
    unfolding keeps_def dispatch_result(1) [OF inv t] by (auto simp: clear_queued_cancel_hook_def split: option.split)
qed

lemma keeps_exec:
  assumes inv: "deployment_inv p d" and free: "scope_free op" and step: "dep_exec p op d = Some d'"
  shows "keeps d d'"
proof (cases op)
  case (OpLaneCloseAndCancel reason)
  obtain listed d1 where l: "lane_close d = (listed, d1)" by fastforce
  then have "keeps d d1" "deployment_inv p d1"
    using lane_close_inv [OF inv] by (auto simp: lane_close_def keeps_same split: prod.splits)
  with keeps_trans keeps_cancel_all step OpLaneCloseAndCancel l show ?thesis by (fastforce simp: close_and_cancel_def)
next
  case OpLaneClose
  with step show ?thesis by (auto simp: lane_close_def keeps_same split: prod.splits)
next
  case (OpMonitor i)
  with step show ?thesis by (auto simp: monitor_reports_def keeps_same split: prod.splits if_splits)
next
  case (OpSpawnTurn i sub options waiter)
  then have "core_of d' = core_of (snd (submit p i sub None options waiter d))"
    using step by (cases "submit p i sub None options waiter d") (auto simp: spawn_turn_def split: if_splits)
  with keeps_trans [OF keeps_submit keeps_same] inv step OpSpawnTurn show ?thesis by (auto split: if_splits)
next
  case (OpSpawnTimeoutTurn limit i spec waiter)
  have o: "opt_priority default_options \<le> highest_priority" by (simp add: default_options_def highest_priority_def normal_priority_def)
  have new: "core_of d i = None" using step OpSpawnTimeoutTurn by (auto split: if_splits)
  have "core_of d' = core_of (snd (submit p i (SubmitSpec spec) None default_options waiter d))"
    using step OpSpawnTimeoutTurn
    by (cases "submit p i (SubmitSpec spec) None default_options waiter d")
      (auto simp: spawn_timeout_turn_def spawn_turn_def split: if_splits prod.splits turn_answer.splits
        dest: arg_cong [where f = "\<lambda>x. core_of (snd x)"])
  with keeps_trans [OF keeps_submit [OF inv new o] keeps_same] show ?thesis by blast
next
  case (OpSpawnRetryTurn i spec accepted_at now0 now1 now2 waiter)
  have new: "core_of d i = None" using step OpSpawnRetryTurn by (auto split: if_splits)
  have "core_of d' = core_of d \<or> core_of d' = core_of (snd (submit_retry p i spec None accepted_at now1 now2 waiter d))"
    using step OpSpawnRetryTurn
    by (cases "submit_retry p i spec None accepted_at now1 now2 waiter d")
      (auto simp: spawn_retry_turn_def split: if_splits sum.splits)
  with keeps_trans [OF keeps_submit_retry [OF inv new] keeps_same] keeps_same show ?thesis by blast
qed (use step free inv in \<open>auto simp: keeps_submit keeps_submit_retry keeps_spawn [OF prepare_fresh(1)] keeps_stop keeps_cancel_all
      keeps_claim keeps_dispatch keeps_same lane_cancel_snapshot_def runner_ends_def runner_dropped_def drop_start_def
      intro: keeps_trans [OF keeps_commit keeps_same] keeps_trans [OF keeps_stop keeps_same] split: if_splits\<close>)

section \<open>The invariant of the joint system\<close>

text \<open>
  What the store records as admitted was prepared; a live execution of a generation is recorded as
  admitted there; what the store records as ended has ended.
\<close>

definition links_ok :: "scope_store \<Rightarrow> deployment \<Rightarrow> bool" where
  "links_ok st d \<longleftrightarrow>
     (\<forall>(i, g) \<in> set (st_admitted st). core_of d i \<noteq> None)
     \<and> (\<forall>i c g. core_of d i = Some c \<and> ec_scope_id c = Some g \<and> terminal (ec_state c) = None \<longrightarrow> (i, g) \<in> set (st_admitted st))
     \<and> (\<forall>i \<in> set (st_ended st). \<exists>c. core_of d i = Some c \<and> terminal (ec_state c) \<noteq> None)"

definition world_inv :: "lane_params \<Rightarrow> world \<Rightarrow> bool" where
  "world_inv p w \<longleftrightarrow> (scope_inv (w_scopes w) \<and> children_ok (w_scopes w)) \<and> deployment_inv p (w_dep w)
     \<and> links_ok (w_scopes w) (w_dep w)"

lemma links_ended: "links_ok st d \<Longrightarrow> i \<in> set (st_ended st) \<Longrightarrow> \<exists>c. core_of d i = Some c \<and> terminal (ec_state c) \<noteq> None"
  by (simp add: links_ok_def)

lemma links_known: "links_ok st d \<Longrightarrow> (i, g) \<in> set (st_admitted st) \<Longrightarrow> core_of d i \<noteq> None"
  by (fastforce simp: links_ok_def)

lemma links_live: "links_ok st d \<Longrightarrow> core_of d i = Some c \<Longrightarrow> ec_scope_id c = Some g \<Longrightarrow> terminal (ec_state c) = None
    \<Longrightarrow> (i, g) \<in> set (st_admitted st)"
  by (simp add: links_ok_def)

lemma links_keeps:
  assumes links: "links_ok st d" and keeps: "keeps d d'"
  shows "links_ok st d'"
proof -
  have old: "\<exists>c'. core_of d' i = Some c' \<and> ec_scope_id c' = ec_scope_id c \<and> (terminal (ec_state c) \<noteq> None \<longrightarrow> terminal (ec_state c') \<noteq> None)"
    if "core_of d i = Some c" for i c using keeps [unfolded keeps_def, rule_format, of i] that by simp
  have new: "ec_scope_id c' = None" if "core_of d i = None" "core_of d' i = Some c'" for i c'
    using keeps [unfolded keeps_def, rule_format, of i] that by simp
  have "(i, g) \<in> set (st_admitted st)" if c': "core_of d' i = Some c'" "ec_scope_id c' = Some g" "terminal (ec_state c') = None" for i c' g
  proof -
    obtain c where c: "core_of d i = Some c" using new c'(1,2) by fastforce
    with old [OF this] c' have "ec_scope_id c = Some g" "terminal (ec_state c) = None" by auto
    with links c show ?thesis unfolding links_ok_def by blast
  qed
  moreover have "\<exists>c. core_of d' i = Some c \<and> terminal (ec_state c) \<noteq> None" if "i \<in> set (st_ended st)" for i
    using links that old unfolding links_ok_def by blast
  moreover have "core_of d' i \<noteq> None" if "(i, g) \<in> set (st_admitted st)" for i g
  proof -
    have "core_of d i \<noteq> None" using links that unfolding links_ok_def by blast
    then show ?thesis using old by fastforce
  qed
  ultimately show ?thesis unfolding links_ok_def by blast
qed

text \<open>A step of the scope store that admits nothing; an execution recorded as ended has ended.\<close>

lemma links_scopes:
  assumes "links_ok st d" and "set (st_admitted st') = set (st_admitted st)"
    and "\<And>i. i \<in> set (st_ended st') \<Longrightarrow> i \<in> set (st_ended st) \<or> (\<exists>c. core_of d i = Some c \<and> terminal (ec_state c) \<noteq> None)"
  shows "links_ok st' d"
  using assms unfolding links_ok_def by blast

definition admits_nothing :: "scope_op \<Rightarrow> bool" where
  "admits_nothing op \<longleftrightarrow> (\<forall>g answer. op \<noteq> scope_op.OpSpawn g answer) \<and> (\<forall>i. op \<noteq> OpScopedEnd i)"

lemma quiet_scope_step:
  assumes "admits_nothing op" and "scope_exec op st = Some st'"
  shows "st_admitted st' = st_admitted st \<and> st_ended st' = st_ended st"
proof (cases op)
  case (OpRotation dead r)
  then have run: "run_rotation (\<lambda>c. c \<notin> set dead) r st = Some st'" using assms(2) by simp
  have "closes st1 st2 \<Longrightarrow> st_admitted st2 = st_admitted st1 \<and> st_ended st2 = st_ended st1" for st1 st2
    by (simp add: closes_def)
  with run show ?thesis
    by (auto simp: run_rotation_def rotation_start_def rotation_finish_def Let_def close_gen_def dest!: closes_collect_all
        split: if_splits rotation_pc.splits list.splits prod.splits rotation_outcome.splits)
next
  case (OpCancelScope dead f)
  then show ?thesis using assms(2) by (auto dest!: closes_collect_all simp: closes_def split: if_splits prod.splits)
qed (use assms in \<open>auto simp: admits_nothing_def new_scope_def do_child_def do_rotate_def close_gen_def untrack_def Let_def
      split: if_splits sum.splits prod.splits\<close>)

lemma scopes_step:
  "scope_inv st \<and> children_ok st \<Longrightarrow> scope_exec op st = Some st' \<Longrightarrow> scope_inv st' \<and> children_ok st'"
  using scope_trees.step_inv unfolding scope_step_def by blast

lemma on_scopes_inv:
  assumes inv: "world_inv p w" and quiet: "admits_nothing op" and step: "on_scopes op w = Some w'"
  shows "world_inv p w'"
proof -
  obtain st where st: "scope_exec op (w_scopes w) = Some st" "w' = w\<lparr>w_scopes := st\<rparr>" using step by (auto simp: on_scopes_def)
  from quiet_scope_step [OF quiet st(1)] inv have "links_ok st (w_dep w)"
    by (auto simp: world_inv_def intro: links_scopes)
  with scopes_step [OF _ st(1)] inv show ?thesis by (simp add: world_inv_def st(2))
qed

lemma on_both_inv:
  assumes inv: "world_inv p w" and quiet: "admits_nothing op" and step: "on_both reason op w = Some w'"
  shows "world_inv p w'"
proof -
  obtain st where st: "scope_exec op (w_scopes w) = Some st" "w' = \<lparr>w_scopes = st, w_dep = stop_new reason (w_scopes w) st (w_dep w)\<rparr>"
    using step by (auto simp: on_both_def)
  from quiet_scope_step [OF quiet st(1)] inv have "links_ok st (w_dep w)"
    by (auto simp: world_inv_def intro: links_scopes)
  moreover have dep: "deployment_inv p (w_dep w)" using inv by (simp add: world_inv_def)
  ultimately have "links_ok st (stop_new reason (w_scopes w) st (w_dep w))"
    unfolding stop_new_def using links_keeps keeps_cancel_all by blast
  with scopes_step [OF _ st(1)] inv dep show ?thesis
    by (simp add: world_inv_def st(2) stop_new_def cancel_all_of_inv)
qed

lemma default_priority: "opt_priority default_options \<le> highest_priority"
  by (simp add: default_options_def highest_priority_def normal_priority_def)

lemma insert_scoped:
  assumes inv: "deployment_inv p d" and new: "core_of d i = None" and fresh: "core_fresh i core"
    and ins: "insert_submission p (with_scope (Some (g, number)) core) default_options ticket d = (answer, d')"
  shows "deployment_inv p d' \<and> (\<forall>j. j \<noteq> i \<longrightarrow> core_of d' j = core_of d j)
    \<and> (case answer of Inr j \<Rightarrow> j = i \<and> (\<exists>c. core_of d' i = Some c \<and> ec_scope_id c = Some g)
       | Inl error \<Rightarrow> \<forall>c. core_of d' i = Some c \<longrightarrow> terminal (ec_state c) \<noteq> None)"
proof -
  let ?core = "with_scope (Some (g, number)) core"
  have fresh': "core_fresh i ?core" using fresh by (simp add: prepare_fresh)
  have "ec_scope_id ?core = Some g" by (simp add: with_scope_def set_scope_of_def)
  with insert_scope [OF inv new fresh' default_priority ins] insert_frame [OF fresh', of _ p default_options ticket d]
    insert_submission_inv [OF inv new fresh' default_priority, of ticket] ins
  show ?thesis by (cases answer) auto
qed

lemma lane_scoped_result:
  assumes inv: "deployment_inv p d" and new: "core_of d i = None" and sp: "lane_scoped p i work g number d = (answer, d')"
  shows "deployment_inv p d' \<and> (\<forall>j. j \<noteq> i \<longrightarrow> core_of d' j = core_of d j)
    \<and> (case answer of Inr j \<Rightarrow> j = i \<and> (\<exists>c. core_of d' i = Some c \<and> ec_scope_id c = Some g)
       | Inl error \<Rightarrow> \<forall>c. core_of d' i = Some c \<longrightarrow> terminal (ec_state c) \<noteq> None)"
proof (cases work)
  case (ScopedWork sub)
  with sp have "submit p i sub (Some (g, number)) default_options None d = (answer, d')" by (simp add: lane_scoped_def)
  with inv new insert_scoped [OF inv new prepare_fresh(1), of g number sub None answer d'] show ?thesis
    by (auto simp: submit_def split: sum.splits)
next
  case (ScopedRetry spec accepted_at now)
  with sp have r: "submit_retry p i spec (Some (g, number)) accepted_at now now None d = (answer, d')"
    by (simp add: lane_scoped_def try_spawn_retry_scoped_def)
  obtain limit core watchers where "deadline_at spec accepted_at = Inr limit \<longrightarrow> prepare_retry i spec limit = (core, watchers)"
    by (cases "deadline_at spec accepted_at") (auto simp: prepare_retry_def)
  show ?thesis
  proof (cases "\<exists>error. answer = Inl error \<and> d' = d")
    case True
    with inv new show ?thesis by auto
  next
    case False
    with r obtain limit core watchers where lim: "deadline_at spec accepted_at = Inr limit" "prepare_retry i spec limit = (core, watchers)"
      and ins: "insert_submission p (with_scope (Some (g, number)) core) default_options None
        (d\<lparr>dp_watchers := watchers @ dp_watchers d\<rparr>) = (answer, d')"
      by (cases "deadline_at spec accepted_at") (auto simp: submit_retry_def split: if_splits sum.splits prod.splits)
    have "core_fresh i core" using prepare_fresh(2) [of i spec limit] lim(2) by simp
    from insert_scoped [OF _ _ this ins] inv new show ?thesis by simp
  qed
qed

lemma generation_try_spawn_inv:
  assumes inv: "world_inv p w" and g: "g < gen_count (w_scopes w)" and new: "core_of (w_dep w) i = None"
  shows "world_inv p (snd (generation_try_spawn p i work g w))"
proof -
  let ?st = "w_scopes w" and ?d = "w_dep w"
  let ?core = "gen_of ?st g"
  from inv have scopes: "scope_inv ?st \<and> children_ok ?st" and dep: "deployment_inv p ?d" and links: "links_ok ?st ?d"
    by (simp_all add: world_inv_def)
  show ?thesis
  proof (cases "check_current g ?core (scope_of ?st (fam ?st g))")
    case (Inl error)
    with inv show ?thesis by (simp add: generation_try_spawn_def Let_def)
  next
    case (Inr v)
    obtain answer d' where sp: "lane_scoped p i work g (gen_number ?core) ?d = (answer, d')" by fastforce
    note r = lane_scoped_result [OF dep new sp]
    have w': "snd (generation_try_spawn p i work g w) = \<lparr>w_scopes = do_spawn g answer ?st, w_dep = d'\<rparr>"
      using Inr sp by (simp add: generation_try_spawn_def Let_def)
    have "i \<notin> set (admitted_ids ?st)" using links new unfolding links_ok_def admitted_ids_def by fastforce
    moreover have "answer = Inr j \<Longrightarrow> j = i" for j using r by simp
    ultimately have "scope_exec (scope_op.OpSpawn g answer) ?st = Some (do_spawn g answer ?st)" using g by auto
    from scopes_step [OF scopes this] have scopes': "scope_inv (do_spawn g answer ?st) \<and> children_ok (do_spawn g answer ?st)" .
    have store: "st_ended (do_spawn g answer ?st) = st_ended ?st"
      "st_admitted (do_spawn g answer ?st) = (case answer of Inr j \<Rightarrow> (j, g) # st_admitted ?st | Inl error \<Rightarrow> st_admitted ?st)"
      using Inr by (auto simp: do_spawn_def scope_try_spawn_def split: sum.splits)
    have same: "core_of d' j = core_of ?d j" if "j \<noteq> i" for j using r that by blast
    have known: "core_of d' j \<noteq> None" if "(j, h) \<in> set (st_admitted (do_spawn g answer ?st))" for j h
    proof (cases "j = i")
      case True
      with that r links new show ?thesis unfolding links_ok_def store by (cases answer) auto
    next
      case False
      with that r same [OF False] links show ?thesis unfolding links_ok_def store by (cases answer) auto
    qed
    have live: "(j, h) \<in> set (st_admitted (do_spawn g answer ?st))"
      if "core_of d' j = Some c" "ec_scope_id c = Some h" "terminal (ec_state c) = None" for j c h
    proof (cases "j = i")
      case True
      with that r show ?thesis unfolding store by (cases answer) auto
    next
      case False
      with that same [OF False] links have "(j, h) \<in> set (st_admitted ?st)" unfolding links_ok_def by auto
      then show ?thesis unfolding store by (cases answer) auto
    qed
    have ended: "\<exists>c. core_of d' j = Some c \<and> terminal (ec_state c) \<noteq> None" if j: "j \<in> set (st_ended ?st)" for j
    proof -
      obtain c where c: "core_of ?d j = Some c" "terminal (ec_state c) \<noteq> None" using links_ended [OF links j] by blast
      then have "j \<noteq> i" using new by auto
      with c same show ?thesis by auto
    qed
    have "links_ok (do_spawn g answer ?st) d'" unfolding links_ok_def store(1) using known live ended by blast
    with scopes' r show ?thesis unfolding w' world_inv_def by simp
  qed
qed

lemma world_ended_inv:
  assumes inv: "world_inv p w" and c: "core_of (w_dep w) i = Some c" "ec_terminal_watch c \<noteq> None"
    and step: "on_scopes (OpScopedEnd i) w = Some w'"
  shows "world_inv p w'"
proof -
  obtain st where st: "scope_exec (OpScopedEnd i) (w_scopes w) = Some st" "w' = w\<lparr>w_scopes := st\<rparr>"
    using step by (auto simp: on_scopes_def)
  have dep: "deployment_inv p (w_dep w)" using inv by (simp add: world_inv_def)
  have "terminal (ec_state c) \<noteq> None"
    using deployment_core [OF dep c(1)] c(2)
    by (auto simp: core_ok_def core_queued_def core_live_def core_dead_def split: if_splits)
  then have out: "\<exists>c. core_of (w_dep w) i = Some c \<and> terminal (ec_state c) \<noteq> None" using c(1) by blast
  have st': "st = (w_scopes w)\<lparr>st_ended := i # st_ended (w_scopes w)\<rparr>" using st(1) by (simp split: if_splits)
  have "links_ok (w_scopes w) (w_dep w)" using inv by (simp add: world_inv_def)
  then have "links_ok st (w_dep w)"
  proof (rule links_scopes)
    show "j \<in> set (st_ended (w_scopes w)) \<or> (\<exists>c. core_of (w_dep w) j = Some c \<and> terminal (ec_state c) \<noteq> None)"
      if "j \<in> set (st_ended st)" for j using that out by (cases "j = i") (simp_all add: st')
  qed (simp add: st')
  with scopes_step [OF _ st(1)] inv show ?thesis by (simp add: world_inv_def st(2))
qed

lemma world_lane_inv:
  assumes inv: "world_inv p w" and "scope_free op" and "dep_exec p op (w_dep w) = Some d"
  shows "world_inv p (w\<lparr>w_dep := d\<rparr>)"
proof -
  have dep: "deployment_inv p (w_dep w)" using inv by (simp add: world_inv_def)
  from links_keeps [OF _ keeps_exec [OF dep assms(2,3)]] dep_exec_inv [OF dep assms(3)] inv show ?thesis
    by (simp add: world_inv_def)
qed

lemma world_exec_inv:
  assumes "world_inv p w" and "world_exec p op w = Some w'"
  shows "world_inv p w'"
proof (cases op)
  case (WorldEnded i)
  with assms world_ended_inv show ?thesis by (fastforce split: if_splits option.splits)
next
  case (WorldLane op')
  with assms world_lane_inv show ?thesis by (auto split: if_splits)
next
  case (WorldSpawn g i work)
  with assms generation_try_spawn_inv show ?thesis by (auto split: if_splits)
qed (use assms in \<open>auto simp: admits_nothing_def intro: on_scopes_inv [OF assms(1), where op = "OpChild f" for f]
      on_scopes_inv [OF assms(1), where op = OpScope] on_scopes_inv [OF assms(1), where op = "OpUntrack g i" for g i]
      on_scopes_inv [OF assms(1), where op = "OpRotate path f policy" for path f policy]
      on_scopes_inv [OF assms(1), where op = "OpCancelPending r" for r]
      on_scopes_inv [OF assms(1), where op = "OpCloseScope f" for f]
      on_both_inv [OF assms(1), where op = "OpRotation dead r" for dead r]
      on_both_inv [OF assms(1), where op = "OpCancelScope dead f" for dead f]\<close>)

lemma world_inv_init: "world_init w \<Longrightarrow> world_inv p w"
  using scope_trees.init_inv [of "w_scopes w"] deployment_inv_init [of "w_dep w" p]
  by (auto simp: world_init_def world_inv_def scope_init_def links_ok_def scope_store_new_def dep_init_def dep_new_def registry_new_def)

interpretation worlds: invariant_system world_init "world_step p" "world_inv p"
  by unfold_locales (auto simp: world_step_def intro: world_inv_init world_exec_inv)

end
