(* ===== verification/BB_Scope_Lane_Claims.thy ===== *)
theory BB_Scope_Lane_Claims
  imports BB_Scope_Lane
begin



section \<open>A concrete scope over a concrete lane\<close>








section \<open>Properties\<close>







end
