(* ===== verification/BB_Shutdown.thy ===== *)
theory BB_Shutdown
  imports BB_Types
begin

text \<open>
  The shutdown process (\<open>shutdown.rs\<close>) and its supervisor (\<open>run_shutdown_supervisor\<close> and its guard in
  \<open>beaver.rs\<close>).  What the supervisor observes of executions, dams and workers, and whether the
  deadline or the completion is first, is a \<open>shutdown_env\<close>; what it does to them is a list of effects.
\<close>

section \<open>Options\<close>

datatype (plugins only: size) shutdown_timeout_action = ReportAndKeepTracked | AbortAllowed | WaitAction

datatype (plugins only: size) shutdown_mode = CancelAllMode | DrainFinite

record shutdown_options =
  so_mode :: shutdown_mode
  so_grace_period :: duration
  so_on_timeout :: shutdown_timeout_action

definition default_shutdown_options :: shutdown_options where
  "default_shutdown_options =
     \<lparr>so_mode = CancelAllMode, so_grace_period = 5 * nanos_per_sec, so_on_timeout = ReportAndKeepTracked\<rparr>"

section \<open>Reports\<close>

text \<open>\<open>WorkerFailure\<close> and \<open>CallbackFailure\<close> are their messages.\<close>

record progress_record =
  pr_execution :: execution_id
  pr_snapshot :: task_snapshot
  pr_exceeded :: bool
  pr_forced :: bool
  pr_final_exit :: "task_exit_summary option"
  pr_cleanup :: cleanup_progress

record shutdown_record =
  sd_execution :: execution_id
  sd_snapshot :: task_snapshot
  sd_exceeded :: bool
  sd_forced :: bool
  sd_final_exit :: task_exit_summary
  sd_cleanup :: cleanup_outcome

record report_snapshot =
  rs_tasks :: "progress_record list"
  rs_callback_failures :: "string list"
  rs_worker_failures :: "string list"
  rs_elapsed :: duration

record shutdown_report =
  rp_tasks :: "shutdown_record list"
  rp_callback_failures :: "string list"
  rp_worker_failures :: "string list"
  rp_elapsed :: duration

section \<open>The process\<close>

datatype (plugins only: size) grace_completion =
    GraceTimedOut report_snapshot "execution_id list"
  | GraceStopped shutdown_report
  | GraceTimerUnavailable
  | GraceFailed beaver_error

record shutdown_process =
  sp_options :: shutdown_options
  sp_accepted_at :: instant
  sp_grace_deadline :: instant
  sp_grace :: "grace_completion option"
  sp_final :: "(beaver_error + shutdown_report) option"

datatype (plugins only: size) shutdown_error =
    ShutdownConfigConflict shutdown_options
  | InvalidGracePeriod
  | ShutdownLockPoisoned

definition validate_options :: "instant \<Rightarrow> shutdown_options \<Rightarrow> shutdown_error + unit" where
  "validate_options now options =
     (case instant_checked_add now (so_grace_period options) of None \<Rightarrow> Inl InvalidGracePeriod | Some _ \<Rightarrow> Inr ())"

definition shutdown_process_new :: "instant \<Rightarrow> shutdown_options \<Rightarrow> shutdown_error + shutdown_process" where
  "shutdown_process_new now options =
     (case instant_checked_add now (so_grace_period options) of
        None \<Rightarrow> Inl InvalidGracePeriod
      | Some deadline \<Rightarrow> Inr \<lparr>sp_options = options, sp_accepted_at = now, sp_grace_deadline = deadline,
                             sp_grace = None, sp_final = None\<rparr>)"

definition publish_timeout :: "report_snapshot \<Rightarrow> execution_id list \<Rightarrow> shutdown_process \<Rightarrow> shutdown_process" where
  "publish_timeout snap pending p = p\<lparr>sp_grace := Some (GraceTimedOut snap pending)\<rparr>"

definition publish_grace :: "grace_completion \<Rightarrow> shutdown_process \<Rightarrow> shutdown_process" where
  "publish_grace completion p = (if sp_grace p = None then p\<lparr>sp_grace := Some completion\<rparr> else p)"

definition publish_final :: "shutdown_report \<Rightarrow> shutdown_process \<Rightarrow> shutdown_process" where
  "publish_final report p = (publish_grace (GraceStopped report) p)\<lparr>sp_final := Some (Inr report)\<rparr>"

definition publish_timer_unavailable :: "shutdown_process \<Rightarrow> shutdown_process" where
  "publish_timer_unavailable p = publish_grace GraceTimerUnavailable p"

definition publish_failure :: "beaver_error \<Rightarrow> shutdown_process \<Rightarrow> shutdown_process" where
  "publish_failure error p = (publish_grace (GraceFailed error) p)\<lparr>sp_final := Some (Inl error)\<rparr>"

section \<open>Waiting\<close>

datatype (plugins only: size) shutdown_outcome =
    ShutdownStopped shutdown_report
  | ShutdownOutcomeTimedOut report_snapshot "execution_id list"

datatype (plugins only: size) shutdown_wait_error =
    SupervisorFailed beaver_error
  | ShutdownSupervisorUnavailable
  | ShutdownTimerUnavailable

text \<open>One look at the channels; None waits on.\<close>

definition wait_grace_poll :: "shutdown_process \<Rightarrow> (shutdown_wait_error + shutdown_outcome) option" where
  "wait_grace_poll p =
     map_option (\<lambda>completion. case completion of
         GraceTimedOut snap pending \<Rightarrow> Inr (ShutdownOutcomeTimedOut snap pending)
       | GraceStopped report \<Rightarrow> Inr (ShutdownStopped report)
       | GraceTimerUnavailable \<Rightarrow> Inl ShutdownTimerUnavailable
       | GraceFailed error \<Rightarrow> Inl (SupervisorFailed error)) (sp_grace p)"

definition wait_final_poll :: "shutdown_process \<Rightarrow> (shutdown_wait_error + shutdown_report) option" where
  "wait_final_poll p =
     map_option (\<lambda>final. case final of Inl error \<Rightarrow> Inl (SupervisorFailed error) | Inr report \<Rightarrow> Inr report) (sp_final p)"

section \<open>What the supervisor sees and does\<close>

datatype (plugins only: size) grace_timer = TimerPanics | CompletionFirst | DeadlineFirst

record shutdown_env =
  en_initial :: "(execution_id \<times> task_snapshot) list"
  en_timer :: grace_timer
  en_terminal :: "execution_id \<Rightarrow> bool"
  en_forced :: "execution_id \<Rightarrow> forced_cancellation_error + forced_cancellation_outcome"
  en_exit_at :: "execution_id \<Rightarrow> task_exit_summary option"
  en_cleanup_at :: "execution_id \<Rightarrow> cleanup_progress"
  en_terminal_after :: "execution_id \<Rightarrow> bool"
  en_callbacks_at :: "string list"
  en_elapsed_at :: duration
  en_summary :: "execution_id \<Rightarrow> task_exit_summary"
  en_workers :: "string option list"
  en_cleanup :: "execution_id \<Rightarrow> cleanup_progress"
  en_callbacks :: "string list"
  en_elapsed :: duration

datatype (plugins only: size) shutdown_effect =
    ReleaseDam nat
  | CloseLane lane_id
  | CloseAndCancelLane lane_id
  | CancelExecution execution_id cancel_reason
  | ForceExecution execution_id

definition shutdown_begin :: "shutdown_mode \<Rightarrow> nat list \<Rightarrow> lane_id list \<Rightarrow> (execution_id \<times> task_snapshot) list \<Rightarrow> shutdown_effect list" where
  "shutdown_begin mode dams lanes initial =
     map ReleaseDam dams
     @ (case mode of
          CancelAllMode \<Rightarrow> map CloseAndCancelLane lanes @ map (\<lambda>(i, snap). CancelExecution i ExecutorShutdown) initial
        | DrainFinite \<Rightarrow> map CloseLane lanes
            @ map (\<lambda>(i, snap). CancelExecution i ExecutorShutdown) (filter (\<lambda>(i, snap). snap_kind snap \<noteq> Finite) initial))"

text \<open>The cleanup of a progress record; a progress that needs none is pending until the execution ended.\<close>

definition progress_cleanup :: "bool \<Rightarrow> cleanup_progress \<Rightarrow> cleanup_progress" where
  "progress_cleanup terminal progress =
     (case progress of
        ProgressNotRequired \<Rightarrow> if terminal then Finished CleanupNotRequired else Pending WorkerJoin
      | _ \<Rightarrow> progress)"

definition deadline_snapshot :: "shutdown_env \<Rightarrow> execution_id list \<Rightarrow> execution_id list \<Rightarrow> report_snapshot" where
  "deadline_snapshot env exceeded forced =
     \<lparr>rs_tasks = map (\<lambda>(i, snap). \<lparr>pr_execution = i, pr_snapshot = snap, pr_exceeded = i \<in> set exceeded,
        pr_forced = i \<in> set forced, pr_final_exit = en_exit_at env i,
        pr_cleanup = progress_cleanup (en_terminal_after env i) (en_cleanup_at env i)\<rparr>) (en_initial env),
      rs_callback_failures = en_callbacks_at env, rs_worker_failures = [], rs_elapsed = en_elapsed_at env\<rparr>"

text \<open>
  The grace phase: the process, the executions that exceeded the deadline and those that were forced,
  and the effects.
\<close>

definition grace_phase ::
  "shutdown_env \<Rightarrow> shutdown_process \<Rightarrow> shutdown_process \<times> execution_id list \<times> execution_id list \<times> shutdown_effect list" where
  "grace_phase env p =
     (let action = so_on_timeout (sp_options p) in
      if action = WaitAction then (p, [], [], [])
      else case en_timer env of
        TimerPanics \<Rightarrow> (publish_timer_unavailable p, [], [], [])
      | CompletionFirst \<Rightarrow> (p, [], [], [])
      | DeadlineFirst \<Rightarrow>
          let pending = filter (\<lambda>i. \<not> en_terminal env i) (map fst (en_initial env));
              asked = (if action = AbortAllowed then pending else []);
              forced = filter (\<lambda>i. en_forced env i = Inr ForcedRequested \<or> en_forced env i = Inr ForcedAlreadyRequested) asked in
          (publish_timeout (deadline_snapshot env pending forced) pending p, pending, forced, map ForceExecution asked))"

fun phase_name :: "cleanup_phase \<Rightarrow> string" where
  "phase_name TrackedChildren = ''TrackedChildren''"
| "phase_name LegacyCallback = ''LegacyCallback''"
| "phase_name ShutdownHookPhase = ''ShutdownHook''"
| "phase_name WorkerJoin = ''WorkerJoin''"

primrec final_cleanup_outcome :: "cleanup_progress \<Rightarrow> cleanup_outcome" where
  "final_cleanup_outcome ProgressNotRequired = CleanupNotRequired"
| "final_cleanup_outcome (Finished outcome) = outcome"
| "final_cleanup_outcome (Pending phase) = CleanupFailed (''cleanup remained pending in phase '' @ phase_name phase)"

text \<open>
  The records of the final report; a summary that is missing is waited for again, and the second
  result is what was left over of the summaries.
\<close>

fun final_records ::
  "shutdown_env \<Rightarrow> execution_id list \<Rightarrow> execution_id list \<Rightarrow> task_exit_summary list \<Rightarrow> (execution_id \<times> task_snapshot) list
   \<Rightarrow> shutdown_record list \<times> task_exit_summary list" where
  "final_records env exceeded forced summaries [] = ([], summaries)"
| "final_records env exceeded forced summaries ((i, snap) # initial) =
     (let (exit, rest) = (case summaries of s # rest \<Rightarrow> (s, rest) | [] \<Rightarrow> (en_summary env i, []));
          record = \<lparr>sd_execution = i, sd_snapshot = snap, sd_exceeded = i \<in> set exceeded, sd_forced = i \<in> set forced,
            sd_final_exit = exit, sd_cleanup = final_cleanup_outcome (en_cleanup env i)\<rparr>;
          (records, rest') = final_records env exceeded forced rest initial in
      (record # records, rest'))"

definition completion_summaries :: "shutdown_env \<Rightarrow> task_exit_summary list" where
  "completion_summaries env = map (\<lambda>(i, snap). en_summary env i) (en_initial env)"

definition final_report :: "shutdown_env \<Rightarrow> execution_id list \<Rightarrow> execution_id list \<Rightarrow> shutdown_report" where
  "final_report env exceeded forced =
     \<lparr>rp_tasks = sort_key sd_execution
        (fst (final_records env exceeded forced (completion_summaries env) (en_initial env))),
      rp_callback_failures = en_callbacks env,
      rp_worker_failures = map the (filter (\<lambda>w. w \<noteq> None) (en_workers env)),
      rp_elapsed = en_elapsed env\<rparr>"

text \<open>What the guard publishes when the supervisor's future is dropped before it has finished.\<close>

definition supervisor_cancelled :: beaver_error where
  "supervisor_cancelled = WorkerFailed ''shutdown supervisor was cancelled by its runtime''"

definition guard_drop :: "shutdown_process \<Rightarrow> shutdown_process" where
  "guard_drop p = publish_failure supervisor_cancelled p"

text \<open>The supervisor can be dropped where it waits: while it releases the dams, before or after the deadline.\<close>

datatype (plugins only: size) supervisor_end = DroppedReleasing nat | DroppedWaiting | DroppedAfterGrace | RanToEnd

definition run_shutdown_supervisor ::
  "shutdown_env \<Rightarrow> supervisor_end \<Rightarrow> nat list \<Rightarrow> lane_id list \<Rightarrow> shutdown_process \<Rightarrow> shutdown_process \<times> shutdown_effect list" where
  "run_shutdown_supervisor env stop dams lanes p =
     (let begin_effects = shutdown_begin (so_mode (sp_options p)) dams lanes (en_initial env);
          (p1, exceeded, forced, effects) = grace_phase env p in
      case stop of
        DroppedReleasing n \<Rightarrow> (guard_drop p, map ReleaseDam (take n dams))
      | DroppedWaiting \<Rightarrow> (guard_drop p, begin_effects)
      | DroppedAfterGrace \<Rightarrow> (guard_drop p1, begin_effects @ effects)
      | RanToEnd \<Rightarrow> (publish_final (final_report env exceeded forced) p1, begin_effects @ effects))"

end
