(* ===== verification/BB_Display.thy ===== *)
theory BB_Display
  imports BB_Registry BB_Recurring BB_Service BB_Slot BB_Scope BB_Shutdown
begin

text \<open>
  What the errors print: the \<open>Display\<close> implementations of all error types, the conversions between
  error types and the causes that \<open>source\<close> returns.  Integers are printed in decimal; an identity
  prints as its UUID, which is the argument \<open>show_id\<close>.  Decimal numerals can be
  read back, so a number that an error carries is not lost in its message.
\<close>

section \<open>Numbers and quotes\<close>

fun decimal :: "nat \<Rightarrow> string" where
  "decimal n = (if n < 10 then [char_of (48 + n)] else decimal (n div 10) @ [char_of (48 + n mod 10)])"

declare decimal.simps [simp del]

definition read_digit :: "nat \<Rightarrow> char \<Rightarrow> nat" where
  "read_digit n c = 10 * n + (of_char c - 48)"

definition read_decimal :: "string \<Rightarrow> nat" where
  "read_decimal s = foldl read_digit 0 s"

definition is_digit :: "char \<Rightarrow> bool" where
  "is_digit c \<longleftrightarrow> 48 \<le> (of_char c :: nat) \<and> (of_char c :: nat) \<le> 57"

lemma of_char_digit [simp]: "d < 10 \<Longrightarrow> (of_char (char_of (48 + d :: nat)) :: nat) = 48 + d"
  by simp

lemma read_decimal_decimal [simp]: "read_decimal (decimal n) = n"
proof (induction n rule: decimal.induct)
  case (1 n)
  show ?case
  proof (cases "n < 10")
    case True
    then show ?thesis by (simp add: decimal.simps [of n] read_decimal_def read_digit_def)
  next
    case False
    with 1 have "foldl read_digit 0 (decimal (n div 10)) = n div 10" by (simp add: read_decimal_def)
    with False show ?thesis by (simp add: decimal.simps [of n] read_decimal_def read_digit_def)
  qed
qed

lemma decimal_inject [simp]: "decimal m = decimal n \<longleftrightarrow> m = n"
  using read_decimal_decimal [of m] read_decimal_decimal [of n] by metis

lemma decimal_digits: "c \<in> set (decimal n) \<Longrightarrow> is_digit c"
proof (induction n rule: decimal.induct)
  case (1 n)
  show ?case
  proof (cases "n < 10")
    case True
    with 1(2) show ?thesis by (auto simp: decimal.simps [of n] is_digit_def)
  next
    case False
    with 1(2) consider "c \<in> set (decimal (n div 10))" | "c = char_of (48 + n mod 10)"
      by (auto simp: decimal.simps [of n])
    then show ?thesis using 1(1) False by cases (auto simp: is_digit_def)
  qed
qed

definition quoted :: "string \<Rightarrow> string" where
  "quoted s = CHR 0x27 # s @ [CHR 0x27]"

section \<open>Library errors\<close>

primrec beaver_error_display :: "beaver_error \<Rightarrow> string" where
  "beaver_error_display (BuilderMissingField field) = ''builder missing required field: '' @ field"
| "beaver_error_display QueueFull = ''task queue is full''"
| "beaver_error_display DamReleased = ''execution thread has been released''"
| "beaver_error_display LockPoisoned = ''internal lock poisoned''"
| "beaver_error_display NoDam = ''no execution thread available''"
| "beaver_error_display ExecutorShuttingDown = ''executor is shutting down''"
| "beaver_error_display ShutdownTimedOut = ''executor shutdown deadline was exceeded''"
| "beaver_error_display (WorkerFailed message) = ''executor worker failed: '' @ message"
| "beaver_error_display InvalidLaneCapacity = ''lane queue capacity must be at least one''"
| "beaver_error_display InvalidLaneConcurrency = ''lane concurrency must be at least one''"
| "beaver_error_display (LaneConfigConflict name) =
     ''lane '' @ quoted name @ '' already exists with a different configuration''"
| "beaver_error_display (ScopeConfigConflict name) =
     ''scope '' @ quoted name @ '' already exists on a different lane''"
| "beaver_error_display (SlotConfigConflict key) =
     ''task slot '' @ quoted key @ '' already exists on a different lane''"
| "beaver_error_display (ResourceLimitExceeded resource) = ''resource limit exceeded: '' @ resource"
| "beaver_error_display (InvalidResourceLimit field) = ''resource limit '' @ quoted field @ '' must be non-zero''"
| "beaver_error_display RuntimeUnavailable = ''no Tokio runtime is available for executor construction''"
| "beaver_error_display (RangeIntervalRangesExceedTotal total_retries ranges_count) =
     ''range interval ranges count ('' @ decimal (unat ranges_count) @ '') exceeds total retry count ('' @
     decimal (unat total_retries) @ '')''"

primrec runtime_error_display :: "runtime_error \<Rightarrow> string" where
  "runtime_error_display RtLockPoisoned = ''internal lock poisoned during execution''"
| "runtime_error_display (TaskExecutionFailed message) = ''task execution failed: '' @ message"
| "runtime_error_display RetriesExhausted = ''task retries exhausted without success''"
| "runtime_error_display (InternalInvariantViolation code) = ''internal executor invariant failed ('' @ code @ '')''"

definition invalid_resource_limits_display :: "string \<Rightarrow> string" where
  "invalid_resource_limits_display field = ''resource limit '' @ quoted field @ '' must be non-zero''"

section \<open>Executions\<close>

definition cancelled_display :: string where
  "cancelled_display = ''execution was cancelled''"

primrec forced_cancellation_error_display :: "forced_cancellation_error \<Rightarrow> string" where
  "forced_cancellation_error_display NotAllowed = ''execution did not opt into forced cancellation''"
| "forced_cancellation_error_display NoTrackedFuture = ''execution has no active tracked async body''"

definition join_result_error_display :: "join_result_error \<Rightarrow> string" where
  "join_result_error_display error = ''typed task result was already taken''"

primrec execution_wait_error_display :: "(execution_id \<Rightarrow> string) \<Rightarrow> execution_wait_error \<Rightarrow> string" where
  "execution_wait_error_display show_id (WouldJoin current target) =
     ''execution '' @ show_id current @ '' cannot wait for itself or ancestor execution '' @ show_id target"

primrec spawn_child_error_display :: "spawn_child_error \<Rightarrow> string" where
  "spawn_child_error_display ParentClosing = ''parent execution is closing child admission''"
| "spawn_child_error_display SpawnExecutorUnavailable = ''parent runtime is unavailable''"
| "spawn_child_error_display (LimitReached maximum) = ''tracked child limit reached ('' @ decimal maximum @ '')''"

definition event_subscribe_error_display :: "event_subscribe_error \<Rightarrow> string" where
  "event_subscribe_error_display error = ''task event subscriber limit reached''"

datatype (plugins only: size) event_recv_error = EventsClosed | EventsLagged u64

primrec event_recv_error_display :: "event_recv_error \<Rightarrow> string" where
  "event_recv_error_display EventsClosed = ''task event stream is closed''"
| "event_recv_error_display (EventsLagged skipped) =
     ''task event stream lagged by '' @ decimal (unat skipped) @ '' events''"

section \<open>Lanes\<close>

definition invalid_priority_display :: "u8 \<Rightarrow> string" where
  "invalid_priority_display value = ''priority '' @ decimal (unat value) @ '' is outside the supported 0..=7 range''"

definition invalid_ordering_key_display :: "nat \<times> nat \<Rightarrow> string" where
  "invalid_ordering_key_display error =
     ''ordering key is '' @ decimal (fst error) @ '' bytes; maximum is '' @ decimal (snd error) @ '' bytes''"

primrec spawn_error_display :: "spawn_error \<Rightarrow> string" where
  "spawn_error_display SpQueueFull = ''lane queue is full''"
| "spawn_error_display SpLaneClosing = ''lane is closing''"
| "spawn_error_display SpExecutorUnavailable = ''lane runtime is unavailable''"
| "spawn_error_display SpExecutorShuttingDown = ''executor is shutting down''"
| "spawn_error_display AdmissionTimedOut = ''lane admission timed out''"
| "spawn_error_display AdmissionDeadlineExceeded = ''retry deadline elapsed before admission''"
| "spawn_error_display SpTimerUnavailable = ''Tokio time driver is unavailable''"
| "spawn_error_display WaitingProducerLimitReached = ''lane waiting-producer limit reached''"
| "spawn_error_display OrderingKeyLimitReached = ''lane ordering-key limit reached''"
| "spawn_error_display SequenceExhausted = ''lane admission sequence exhausted''"
| "spawn_error_display (SpInternal error) = ''lane admission failed: '' @ beaver_error_display error"

fun spawn_error_source :: "spawn_error \<Rightarrow> beaver_error option" where
  "spawn_error_source (SpInternal error) = Some error"
| "spawn_error_source _ = None"

section \<open>Scopes and slots\<close>

primrec scope_error_display :: "(execution_id \<Rightarrow> string) \<Rightarrow> scope_error \<Rightarrow> string" where
  "scope_error_display show_id ScopeIsClosed = ''scope is closed''"
| "scope_error_display show_id RotationInProgress = ''scope rotation is already in progress''"
| "scope_error_display show_id (RotateWouldJoin execution_id) =
     ''strict scope rotation would wait for current execution '' @ show_id execution_id @ '' from within that execution''"
| "scope_error_display show_id ScopeSequenceExhausted = ''scope generation sequence exhausted''"
| "scope_error_display show_id ScopeLockPoisoned = ''scope state lock was poisoned''"

primrec scope_spawn_error_display :: "scope_spawn_error \<Rightarrow> string" where
  "scope_spawn_error_display SpawnScopeClosed = ''scope is closed''"
| "scope_spawn_error_display StaleGeneration = ''scope generation is stale''"
| "scope_spawn_error_display SpawnLockPoisoned = ''scope state lock was poisoned''"
| "scope_spawn_error_display (SpawnLane error) = ''scope admission failed: '' @ spawn_error_display error"

fun scope_spawn_error_source :: "scope_spawn_error \<Rightarrow> spawn_error option" where
  "scope_spawn_error_source (SpawnLane error) = Some error"
| "scope_spawn_error_source _ = None"

definition invalid_slot_key_display :: "nat \<times> nat \<Rightarrow> string" where
  "invalid_slot_key_display error =
     ''slot key is '' @ decimal (fst error) @ '' bytes; maximum is '' @ decimal (snd error) @ '' bytes''"

primrec replace_error_display :: "(execution_id \<Rightarrow> string) \<Rightarrow> replace_error \<Rightarrow> string" where
  "replace_error_display show_id SlotIsClosed = ''task slot is closed''"
| "replace_error_display show_id (StaleRevision current proposed) =
     ''slot revision '' @ decimal (unat proposed) @ '' is stale; current revision is '' @ decimal (unat current)"
| "replace_error_display show_id (RevisionConflict revision) =
     ''slot revision '' @ decimal (unat revision) @ '' has a different task definition''"
| "replace_error_display show_id (RevisionInProgress revision) =
     ''slot revision '' @ decimal (unat revision) @ '' is still being admitted''"
| "replace_error_display show_id (ReplaceWouldJoin execution_id) =
     ''strict replacement would wait for current execution '' @ show_id execution_id @ '' from within that execution''"
| "replace_error_display show_id ReplaceSequenceExhausted = ''slot transaction sequence exhausted''"
| "replace_error_display show_id ReplaceLockPoisoned = ''task slot state lock was poisoned''"

definition replace_wait_error_display :: string where
  "replace_wait_error_display = ''task slot replace supervisor is unavailable''"

section \<open>Retries, recurring tasks and services\<close>

primrec retry_build_error_display :: "retry_build_error \<Rightarrow> string" where
  "retry_build_error_display InvalidAttemptCount = ''max_attempts must be at least one''"
| "retry_build_error_display AttemptCountTooLarge = ''max_attempts exceeds the SDK limit''"
| "retry_build_error_display RetryPolicyRequired =
     ''multiple attempts require retry_if or an explicit retry_all_errors acknowledgement''"
| "retry_build_error_display (DelayCountMismatch expected actual) =
     ''retry delay count mismatch: expected '' @ decimal expected @ '', got '' @ decimal actual"
| "retry_build_error_display InvalidBackoffMultiplier = ''exponential multiplier must be finite and at least one''"
| "retry_build_error_display BackoffCapBelowBase = ''exponential backoff cap must not be below its base''"
| "retry_build_error_display InvalidJitterRatio = ''jitter ratio must be finite and between zero and one''"
| "retry_build_error_display ZeroAttemptTimeout = ''attempt timeout must be greater than zero''"
| "retry_build_error_display ConflictingDeadline = ''deadline and overall_timeout are mutually exclusive''"
| "retry_build_error_display DurationOverflow = ''retry duration arithmetic overflowed''"

primrec recurring_build_error_display :: "recurring_build_error \<Rightarrow> string" where
  "recurring_build_error_display EmptySchedule = ''step schedule must contain a delay''"
| "recurring_build_error_display ZeroFailureBudget = ''continued tick failures require a non-zero budget''"
| "recurring_build_error_display ZeroRestartBudget = ''restart budget must be non-zero''"
| "recurring_build_error_display ZeroRestartWindow = ''restart window must be non-zero''"
| "recurring_build_error_display RecDurationOverflow = ''schedule duration overflows Instant''"
| "recurring_build_error_display RecInvalidJitterRatio =
     ''schedule jitter ratio must be finite and between zero and one''"

primrec service_build_error_display :: "service_build_error \<Rightarrow> string" where
  "service_build_error_display SvcRestartPolicyRequired = ''restart trigger requires a restart policy''"
| "service_build_error_display SvcZeroRestartBudget = ''restart budget must be non-zero''"
| "service_build_error_display SvcZeroRestartWindow = ''restart window must be non-zero''"
| "service_build_error_display SvcZeroHookTimeout = ''shutdown hook timeout must be non-zero''"

primrec service_wait_error_display :: "service_wait_error \<Rightarrow> string" where
  "service_wait_error_display StoppedBeforeReady = ''service stopped before readiness''"
| "service_wait_error_display SupervisorUnavailable = ''service supervisor unavailable''"

section \<open>Shutdown\<close>

primrec shutdown_error_display :: "shutdown_error \<Rightarrow> string" where
  "shutdown_error_display (ShutdownConfigConflict existing) = ''shutdown already started with different options''"
| "shutdown_error_display InvalidGracePeriod = ''shutdown grace period overflowed''"
| "shutdown_error_display ShutdownLockPoisoned = ''shutdown lifecycle lock was poisoned''"

primrec shutdown_wait_error_display :: "shutdown_wait_error \<Rightarrow> string" where
  "shutdown_wait_error_display (SupervisorFailed error) = ''shutdown failed: '' @ beaver_error_display error"
| "shutdown_wait_error_display ShutdownSupervisorUnavailable = ''shutdown supervisor unavailable''"
| "shutdown_wait_error_display ShutdownTimerUnavailable =
     ''Tokio time driver is unavailable; shutdown continues without a grace timer''"

fun shutdown_wait_error_source :: "shutdown_wait_error \<Rightarrow> beaver_error option" where
  "shutdown_wait_error_source (SupervisorFailed error) = Some error"
| "shutdown_wait_error_source _ = None"

end
