(* ===== verification/BB_Beaver.thy ===== *)
theory BB_Beaver
  imports BB_Shutdown BB_Lane BB_Display
begin

text \<open>
  The executor (\<open>beaver.rs\<close>): construction, the maps of lanes, scopes, slots and named dams with their
  limits, the lifecycle, cancellation, release, and shutdown.  Identities of fresh objects, which weak
  references are alive and what the parts answer are inputs.  A panic while locks are held poisons
  them; the only one in this file is that of Tokio's channel for an unusable capacity.
\<close>

section \<open>State\<close>

datatype (plugins only: size) lifecycle = LifeRunning | LifeShuttingDown | LifeStopped

record named_entry =
  ne_dam :: nat
  ne_long_resident :: bool

record beaver =
  bv_default :: "nat option"
  bv_named :: "(string \<times> named_entry) list"
  bv_lifecycle :: lifecycle
  bv_lifecycle_poisoned :: bool
  bv_named_poisoned :: bool
  bv_lanes :: "(string \<times> lane_config \<times> lane_id) list"
  bv_admission_open :: bool
  bv_shutdown :: "shutdown_process option"
  bv_scopes :: "(string \<times> nat \<times> lane_id) list"
  bv_slots :: "(string \<times> nat \<times> lane_id) list"
  bv_limits :: resource_limits

record beaver_builder =
  bb_name :: string
  bb_buffer :: nat
  bb_handle :: bool
  bb_limits :: resource_limits

definition beaver_builder_new :: "string \<Rightarrow> nat \<Rightarrow> beaver_builder" where
  "beaver_builder_new name buffer = \<lparr>bb_name = name, bb_buffer = buffer, bb_handle = False, bb_limits = default_limits\<rparr>"

text \<open>\<open>max_permits\<close> is Tokio's bound on channel capacities.\<close>

definition build_with_handle :: "nat \<Rightarrow> nat \<Rightarrow> nat \<Rightarrow> resource_limits \<Rightarrow> beaver_error + beaver" where
  "build_with_handle max_permits dam buffer limits =
     (case limits_validate limits of
        Inl field \<Rightarrow> Inl (InvalidResourceLimit field)
      | Inr _ \<Rightarrow>
          if buffer = 0 \<or> max_permits < buffer then Inl InvalidLaneCapacity
          else Inr \<lparr>bv_default = Some dam, bv_named = [], bv_lifecycle = LifeRunning, bv_lifecycle_poisoned = False,
                    bv_named_poisoned = False, bv_lanes = [], bv_admission_open = True, bv_shutdown = None,
                    bv_scopes = [], bv_slots = [], bv_limits = limits\<rparr>)"

definition beaver_build :: "nat \<Rightarrow> bool \<Rightarrow> nat \<Rightarrow> beaver_builder \<Rightarrow> beaver_error + beaver" where
  "beaver_build max_permits in_runtime dam b =
     (if \<not> bb_handle b \<and> \<not> in_runtime then Inl RuntimeUnavailable
      else build_with_handle max_permits dam (bb_buffer b) (bb_limits b))"

section \<open>Admission\<close>

text \<open>The lifecycle lock and the test at the start of every submission.\<close>

definition require_running :: "beaver \<Rightarrow> beaver_error + unit" where
  "require_running b =
     (if bv_lifecycle_poisoned b then Inl LockPoisoned
      else if bv_lifecycle b \<noteq> LifeRunning then Inl ExecutorShuttingDown
      else Inr ())"

definition create_lane :: "lane_config \<Rightarrow> lane_id \<Rightarrow> beaver \<Rightarrow> (beaver_error + lane_id) \<times> beaver" where
  "create_lane cfg fresh b =
     (case lane_config_validate cfg of
        Inl error \<Rightarrow> (Inl error, b)
      | Inr _ \<Rightarrow>
          (case require_running b of
             Inl error \<Rightarrow> (Inl error, b)
           | Inr _ \<Rightarrow>
               if \<not> bv_admission_open b then (Inl ExecutorShuttingDown, b)
               else case map_of (bv_lanes b) (cfg_name cfg) of
                 Some (existing, lane) \<Rightarrow>
                   if existing = cfg then (Inr lane, b) else (Inl (LaneConfigConflict (cfg_name cfg)), b)
               | None \<Rightarrow>
                   if unat (max_lanes (bv_limits b)) \<le> length (bv_lanes b)
                   then (Inl (ResourceLimitExceeded ''lanes''), b)
                   else (Inr fresh, b\<lparr>bv_lanes := AList.update (cfg_name cfg) (cfg, fresh) (bv_lanes b)\<rparr>)))"

text \<open>\<open>alive\<close> says which weak references still have an owner; dead ones are removed first.\<close>

definition create_scope :: "(nat \<Rightarrow> bool) \<Rightarrow> string \<Rightarrow> lane_id \<Rightarrow> nat \<Rightarrow> beaver \<Rightarrow> (beaver_error + nat) \<times> beaver" where
  "create_scope alive name lane fresh b =
     (case require_running b of
        Inl error \<Rightarrow> (Inl error, b)
      | Inr _ \<Rightarrow>
          let b' = b\<lparr>bv_scopes := filter (\<lambda>(_, scope, _). alive scope) (bv_scopes b)\<rparr> in
          (case map_of (bv_scopes b') name of
             Some (scope, bound) \<Rightarrow> if bound = lane then (Inr scope, b') else (Inl (ScopeConfigConflict name), b')
           | None \<Rightarrow>
               if unat (max_scopes (bv_limits b)) \<le> length (bv_scopes b')
               then (Inl (ResourceLimitExceeded ''scopes''), b')
               else (Inr fresh, b'\<lparr>bv_scopes := AList.update name (fresh, lane) (bv_scopes b')\<rparr>)))"

definition create_task_slot :: "(nat \<Rightarrow> bool) \<Rightarrow> string \<Rightarrow> lane_id \<Rightarrow> nat \<Rightarrow> beaver \<Rightarrow> (beaver_error + nat) \<times> beaver" where
  "create_task_slot alive key lane fresh b =
     (case require_running b of
        Inl error \<Rightarrow> (Inl error, b)
      | Inr _ \<Rightarrow>
          let b' = b\<lparr>bv_slots := filter (\<lambda>(_, slot, _). alive slot) (bv_slots b)\<rparr> in
          (case map_of (bv_slots b') key of
             Some (slot, bound) \<Rightarrow> if bound = lane then (Inr slot, b') else (Inl (SlotConfigConflict key), b')
           | None \<Rightarrow>
               if unat (max_slots (bv_limits b)) \<le> length (bv_slots b')
               then (Inl (ResourceLimitExceeded ''task slots''), b')
               else (Inr fresh, b'\<lparr>bv_slots := AList.update key (fresh, lane) (bv_slots b')\<rparr>)))"

text \<open>\<open>spawn\<close>, \<open>spawn_future\<close>, \<open>spawn_recurring\<close> and \<open>start_service\<close>: the lifecycle lock is held while the execution is prepared and registered.\<close>

definition beaver_spawn :: "(beaver_error + execution_id) \<Rightarrow> beaver \<Rightarrow> beaver_error + execution_id" where
  "beaver_spawn answer b = (case require_running b of Inl error \<Rightarrow> Inl error | Inr _ \<Rightarrow> answer)"

text \<open>\<open>enqueue\<close> up to the dam it hands the task to.\<close>

definition enqueue_default :: "beaver \<Rightarrow> beaver_error + nat" where
  "enqueue_default b =
     (case require_running b of
        Inl error \<Rightarrow> Inl error
      | Inr _ \<Rightarrow> (case bv_default b of Some dam \<Rightarrow> Inr dam | None \<Rightarrow> Inl NoDam))"

text \<open>
  \<open>enqueue_on_new_thread\<close> up to the dam; the result is None when creating the dam panics, which poisons
  the two locks held.
\<close>

definition enqueue_named ::
  "nat \<Rightarrow> string \<Rightarrow> nat \<Rightarrow> bool \<Rightarrow> nat \<Rightarrow> beaver \<Rightarrow> (beaver_error + nat) option \<times> beaver" where
  "enqueue_named max_permits name buffer long_resident fresh b =
     (case require_running b of
        Inl error \<Rightarrow> (Some (Inl error), b)
      | Inr _ \<Rightarrow>
          if bv_named_poisoned b then (Some (Inl LockPoisoned), b)
          else case map_of (bv_named b) name of
            Some entry \<Rightarrow>
              (Some (Inr (ne_dam entry)),
               b\<lparr>bv_named := AList.update name (entry\<lparr>ne_long_resident := long_resident\<rparr>) (bv_named b)\<rparr>)
          | None \<Rightarrow>
              if buffer = 0 \<or> max_permits < buffer
              then (None, b\<lparr>bv_lifecycle_poisoned := True, bv_named_poisoned := True\<rparr>)
              else (Some (Inr fresh),
                    b\<lparr>bv_named := AList.update name \<lparr>ne_dam = fresh, ne_long_resident = long_resident\<rparr> (bv_named b)\<rparr>))"

section \<open>Cancellation and release\<close>

text \<open>The dams to cancel, in order; the typed executions were cancelled before.\<close>

definition beaver_cancel_all :: "beaver \<Rightarrow> (beaver_error + unit) \<times> nat list \<times> beaver" where
  "beaver_cancel_all b =
     (let default = (case bv_default b of None \<Rightarrow> [] | Some dam \<Rightarrow> [dam]) in
      if bv_named_poisoned b then (Inl LockPoisoned, default, b)
      else (Inr (), default @ map (\<lambda>(_, entry). ne_dam entry) (bv_named b), b\<lparr>bv_named := []\<rparr>))"

definition cancel_non_long_resident :: "beaver \<Rightarrow> (beaver_error + unit) \<times> nat list \<times> beaver" where
  "cancel_non_long_resident b =
     (let default = (case bv_default b of None \<Rightarrow> [] | Some dam \<Rightarrow> [dam]) in
      if bv_named_poisoned b then (Inl LockPoisoned, default, b)
      else (Inr (),
            default @ map (\<lambda>(_, entry). ne_dam entry) (filter (\<lambda>(_, entry). \<not> ne_long_resident entry) (bv_named b)),
            b\<lparr>bv_named := filter (\<lambda>(_, entry). ne_long_resident entry) (bv_named b)\<rparr>))"

definition release_by_name :: "string \<Rightarrow> beaver \<Rightarrow> (beaver_error + nat list) \<times> beaver" where
  "release_by_name name b =
     (if bv_named_poisoned b then (Inl LockPoisoned, b)
      else (Inr (case map_of (bv_named b) name of None \<Rightarrow> [] | Some entry \<Rightarrow> [ne_dam entry]),
            b\<lparr>bv_named := AList.delete name (bv_named b)\<rparr>))"

section \<open>Shutdown\<close>

text \<open>\<open>shutdown\<close>: the clock is read for the validation and again for the process.\<close>

definition beaver_shutdown ::
  "instant \<Rightarrow> instant \<Rightarrow> shutdown_options \<Rightarrow> beaver \<Rightarrow> (shutdown_error + shutdown_process) \<times> beaver" where
  "beaver_shutdown now1 now2 options b =
     (case validate_options now1 options of
        Inl error \<Rightarrow> (Inl error, b)
      | Inr _ \<Rightarrow>
          (case bv_shutdown b of
             Some existing \<Rightarrow>
               if bv_lifecycle_poisoned b then (Inl ShutdownLockPoisoned, b)
               else if bv_lifecycle b = LifeStopped \<or> sp_options existing = options then (Inr existing, b)
               else (Inl (ShutdownConfigConflict (sp_options existing)), b)
           | None \<Rightarrow>
               (case shutdown_process_new now2 options of
                  Inl error \<Rightarrow> (Inl error, b)
                | Inr process \<Rightarrow>
                    if bv_lifecycle_poisoned b \<or> bv_lifecycle b \<noteq> LifeRunning then (Inl ShutdownLockPoisoned, b)
                    else (Inr process, b\<lparr>bv_admission_open := False, bv_lifecycle := LifeShuttingDown,
                                         bv_shutdown := Some process\<rparr>))))"

text \<open>What the supervisor takes out of the executor when it starts.\<close>

definition take_dams :: "beaver \<Rightarrow> nat list \<times> beaver" where
  "take_dams b =
     ((case bv_default b of None \<Rightarrow> [] | Some dam \<Rightarrow> [dam]) @ map (\<lambda>(_, entry). ne_dam entry) (bv_named b),
      b\<lparr>bv_default := None, bv_named := []\<rparr>)"

text \<open>The rest of the supervisor; it or its guard stops the lifecycle (poison is recovered from).\<close>

definition finish_shutdown :: "shutdown_env \<Rightarrow> supervisor_end \<Rightarrow> nat list \<Rightarrow> beaver \<Rightarrow> beaver \<times> shutdown_effect list" where
  "finish_shutdown env stop dams b =
     (case bv_shutdown b of
        None \<Rightarrow> (b, [])
      | Some process \<Rightarrow>
          let (process', effects) = run_shutdown_supervisor env stop dams (map (\<lambda>(_, _, lane). lane) (bv_lanes b)) process in
          (b\<lparr>bv_shutdown := Some process', bv_lifecycle := LifeStopped\<rparr>, effects))"

text \<open>\<open>destroy\<close> after its call of \<open>shutdown\<close>: the process it waits for, and what it makes of the outcome.\<close>

definition destroy_waits_for :: "(shutdown_error + shutdown_process) \<Rightarrow> beaver \<Rightarrow> beaver_error + shutdown_process" where
  "destroy_waits_for result b =
     (case result of
        Inr process \<Rightarrow> Inr process
      | Inl (ShutdownConfigConflict options) \<Rightarrow>
          (case bv_shutdown b of Some existing \<Rightarrow> Inr existing | None \<Rightarrow> Inl LockPoisoned)
      | Inl InvalidGracePeriod \<Rightarrow> Inl (WorkerFailed ''shutdown grace period overflowed'')
      | Inl ShutdownLockPoisoned \<Rightarrow> Inl LockPoisoned)"

definition destroy_result ::
  "(shutdown_wait_error + shutdown_outcome) \<Rightarrow> beaver_error + unit" where
  "destroy_result outcome =
     (case outcome of
        Inr (ShutdownStopped report) \<Rightarrow>
          (case rp_worker_failures report of [] \<Rightarrow> Inr () | message # _ \<Rightarrow> Inl (WorkerFailed message))
      | Inr (ShutdownOutcomeTimedOut snap pending) \<Rightarrow> Inl ShutdownTimedOut
      | Inl error \<Rightarrow> Inl (WorkerFailed (shutdown_wait_error_display error)))"

section \<open>Steps\<close>

inductive beaver_step :: "beaver \<Rightarrow> beaver \<Rightarrow> bool" where
  step_lane: "create_lane cfg fresh b = (r, b') \<Longrightarrow> beaver_step b b'"
| step_scope: "create_scope alive name lane fresh b = (r, b') \<Longrightarrow> beaver_step b b'"
| step_slot: "create_task_slot alive key lane fresh b = (r, b') \<Longrightarrow> beaver_step b b'"
| step_named: "enqueue_named max_permits name buffer long_resident fresh b = (r, b') \<Longrightarrow> beaver_step b b'"
| step_cancel_all: "beaver_cancel_all b = (r, dams, b') \<Longrightarrow> beaver_step b b'"
| step_cancel_some: "cancel_non_long_resident b = (r, dams, b') \<Longrightarrow> beaver_step b b'"
| step_release: "release_by_name name b = (r, b') \<Longrightarrow> beaver_step b b'"
| step_shutdown: "beaver_shutdown now1 now2 options b = (r, b') \<Longrightarrow> beaver_step b b'"
| step_take: "bv_lifecycle b = LifeShuttingDown \<Longrightarrow> take_dams b = (dams, b') \<Longrightarrow> beaver_step b b'"
| step_finish: "bv_lifecycle b = LifeShuttingDown \<Longrightarrow> finish_shutdown env stop dams b = (b', effects) \<Longrightarrow> beaver_step b b'"

inductive_cases beaver_stepE: "beaver_step b b'"

definition beaver_init :: "beaver \<Rightarrow> bool" where
  "beaver_init b \<longleftrightarrow> (\<exists>max_permits dam buffer limits. build_with_handle max_permits dam buffer limits = Inr b)"

end
