(* ===== verification/BB_Beaver_Props.thy ===== *)
theory BB_Beaver_Props
  imports BB_Beaver
begin

text \<open>
  What holds of the executor: its maps stay within their limits, a shutdown is accepted once and for
  all, whoever waits for it gets an answer, its report is complete; and what one unusable capacity
  does to it.
\<close>

section \<open>The report\<close>

lemma final_records_all:
  "final_records env exceeded forced (map (\<lambda>(i, snap). en_summary env i) initial) initial =
     (map (\<lambda>(i, snap). \<lparr>sd_execution = i, sd_snapshot = snap, sd_exceeded = i \<in> set exceeded, sd_forced = i \<in> set forced,
        sd_final_exit = en_summary env i, sd_cleanup = final_cleanup_outcome (en_cleanup env i)\<rparr>) initial, [])"
  by (induction initial) (auto simp: Let_def)

lemma publish_grace_grace: "sp_grace (publish_grace c p) = (case sp_grace p of None \<Rightarrow> Some c | some \<Rightarrow> some)"
  by (auto simp: publish_grace_def split: option.splits)

text \<open>
  C37. A shutdown that runs to its end reports every execution of its initial snapshot exactly once,
  in the order of their identities, each with the exit it was waited for; an execution is reported
  as forced only if it exceeded the deadline; and no summary is missing or left over.
\<close>

theorem shutdown_report_is_complete:
  assumes "run_shutdown_supervisor env RanToEnd dams lanes p = (p', effects)"
  shows "\<exists>report exceeded forced. sp_final p' = Some (Inr report)
    \<and> map sd_execution (rp_tasks report) = sort (map fst (en_initial env))
    \<and> (\<forall>r \<in> set (rp_tasks report). sd_final_exit r = en_summary env (sd_execution r) \<and> (sd_forced r \<longrightarrow> sd_exceeded r))
    \<and> snd (final_records env exceeded forced (completion_summaries env) (en_initial env)) = []"
proof -
  obtain p1 exceeded forced fx where g: "grace_phase env p = (p1, exceeded, forced, fx)" by (cases "grace_phase env p")
  have sub: "set forced \<subseteq> set exceeded"
    using g by (auto simp: grace_phase_def Let_def split: if_splits grace_timer.splits)
  let ?report = "final_report env exceeded forced"
  have "sp_final p' = Some (Inr ?report)"
    using assms g by (auto simp: run_shutdown_supervisor_def Let_def publish_final_def)
  moreover have recs: "rp_tasks ?report = sort_key sd_execution (map (\<lambda>(i, snap). \<lparr>sd_execution = i, sd_snapshot = snap,
      sd_exceeded = i \<in> set exceeded, sd_forced = i \<in> set forced, sd_final_exit = en_summary env i,
      sd_cleanup = final_cleanup_outcome (en_cleanup env i)\<rparr>) (en_initial env))"
    by (simp add: final_report_def completion_summaries_def final_records_all)
  have "map sd_execution (rp_tasks ?report) = sort (map fst (en_initial env))"
    unfolding recs by (simp add: map_sort_key comp_def case_prod_beta)
  ultimately show ?thesis using sub
    by (intro exI [of _ ?report] exI [of _ exceeded] exI [of _ forced])
      (auto simp: recs completion_summaries_def final_records_all)
qed

definition demo_snapshot :: "execution_id \<Rightarrow> task_snapshot" where
  "demo_snapshot i = \<lparr>snap_execution_id = i, snap_task_spec_id = i, snap_state = Running 1, snap_stop_cause = None,
     snap_final_exit = None, snap_kind = Finite, snap_lane_id = None, snap_scope_id = None, snap_scope_generation = None\<rparr>"

definition demo_shutdown_env :: shutdown_env where
  "demo_shutdown_env = \<lparr>en_initial = [(5, demo_snapshot 5), (3, demo_snapshot 3)], en_timer = DeadlineFirst,
     en_terminal = (\<lambda>i. i = 5), en_forced = (\<lambda>i. Inr ForcedRequested), en_exit_at = (\<lambda>i. None),
     en_cleanup_at = (\<lambda>i. ProgressNotRequired), en_terminal_after = (\<lambda>i. i = 5), en_callbacks_at = [],
     en_elapsed_at = 5, en_summary = (\<lambda>i. SumCompleted), en_workers = [None], en_cleanup = (\<lambda>i. ProgressNotRequired),
     en_callbacks = [], en_elapsed = 7\<rparr>"

definition demo_process :: shutdown_process where
  "demo_process = \<lparr>sp_options = default_shutdown_options\<lparr>so_on_timeout := AbortAllowed\<rparr>, sp_accepted_at = 0,
     sp_grace_deadline = 5, sp_grace = None, sp_final = None\<rparr>"

lemma shutdown_report_is_complete_witness:
  "\<exists>report. sp_final (fst (run_shutdown_supervisor demo_shutdown_env RanToEnd [0] [] demo_process)) = Some (Inr report)
     \<and> map sd_execution (rp_tasks report) = [3, 5]"
  using shutdown_report_is_complete [of demo_shutdown_env "[0]" "[]" demo_process _ _, OF prod.collapse [symmetric]]
  by (auto simp: demo_shutdown_env_def)

section \<open>Invariants of the executor\<close>

definition answered :: "shutdown_process \<Rightarrow> bool" where
  "answered p \<longleftrightarrow> wait_grace_poll p \<noteq> None \<and> wait_final_poll p \<noteq> None"

lemma supervisor_answers: "answered (fst (run_shutdown_supervisor env stop dams lanes p))"
  by (cases stop; cases "grace_phase env p")
    (auto simp: run_shutdown_supervisor_def Let_def answered_def guard_drop_def publish_failure_def publish_final_def
      wait_grace_poll_def wait_final_poll_def publish_grace_def)

lemma supervisor_options [simp]: "sp_options (fst (run_shutdown_supervisor env stop dams lanes p)) = sp_options p"
proof -
  obtain p1 exceeded forced effects where g: "grace_phase env p = (p1, exceeded, forced, effects)" by (cases "grace_phase env p")
  then have "sp_options p1 = sp_options p"
    by (auto simp: grace_phase_def Let_def publish_timer_unavailable_def publish_grace_def publish_timeout_def
        split: if_splits grace_timer.splits)
  with g show ?thesis
    by (auto simp: run_shutdown_supervisor_def Let_def guard_drop_def publish_failure_def publish_final_def publish_grace_def
        split: supervisor_end.splits)
qed

text \<open>A map with a limit.\<close>

definition fits :: "usize \<Rightarrow> (string \<times> 'v) list \<Rightarrow> bool" where
  "fits limit m \<longleftrightarrow> distinct (keys m) \<and> length m \<le> unat limit"

definition maps_ok :: "beaver \<Rightarrow> bool" where
  "maps_ok b \<longleftrightarrow> distinct (keys (bv_named b)) \<and> fits (max_lanes (bv_limits b)) (bv_lanes b)
   \<and> fits (max_scopes (bv_limits b)) (bv_scopes b) \<and> fits (max_slots (bv_limits b)) (bv_slots b)"

definition life_ok :: "beaver \<Rightarrow> bool" where
  "life_ok b \<longleftrightarrow> (bv_admission_open b \<longleftrightarrow> bv_lifecycle b = LifeRunning) \<and> (bv_shutdown b = None \<longleftrightarrow> bv_lifecycle b = LifeRunning)
   \<and> (bv_lifecycle b = LifeRunning \<longrightarrow> bv_default b \<noteq> None)
   \<and> (bv_lifecycle b = LifeStopped \<longrightarrow> (\<exists>p. bv_shutdown b = Some p \<and> answered p))"

definition beaver_inv :: "beaver \<Rightarrow> bool" where
  "beaver_inv b \<longleftrightarrow> maps_ok b \<and> life_ok b"

lemma keys_filter_distinct: "distinct (keys m) \<Longrightarrow> distinct (keys (filter P m))"
  by (induction m) auto

lemma length_filter_limit: "length m \<le> k \<Longrightarrow> length (filter P m) \<le> k"
  by (meson length_filter_le order_trans)

lemma fits_filter: "fits limit m \<Longrightarrow> fits limit (filter P m)"
  by (simp add: fits_def keys_filter_distinct length_filter_limit)

lemma fits_update: "fits limit m \<Longrightarrow> map_of m k = None \<Longrightarrow> \<not> unat limit \<le> length m \<Longrightarrow> fits limit (AList.update k v m)"
  by (simp add: fits_def map_of_notin_keys hmap_simps)

lemma create_lane_fits:
  assumes "create_lane cfg fresh b = (r, b')"
  shows "\<exists>m. b' = b\<lparr>bv_lanes := m\<rparr> \<and> (fits (max_lanes (bv_limits b)) (bv_lanes b) \<longrightarrow> fits (max_lanes (bv_limits b)) m)"
proof (cases "b' = b")
  case True
  then show ?thesis by (intro exI [of _ "bv_lanes b"]) simp
next
  case False
  then have "b' = b\<lparr>bv_lanes := AList.update (cfg_name cfg) (cfg, fresh) (bv_lanes b)\<rparr>"
    "map_of (bv_lanes b) (cfg_name cfg) = None" "\<not> unat (max_lanes (bv_limits b)) \<le> length (bv_lanes b)"
    using assms by (auto simp: create_lane_def split: sum.splits if_splits option.splits prod.splits)
  then show ?thesis by (intro exI [of _ "AList.update (cfg_name cfg) (cfg, fresh) (bv_lanes b)"]) (simp add: fits_update)
qed

lemma create_scope_fits:
  assumes "create_scope alive name lane fresh b = (r, b')"
  shows "\<exists>m. b' = b\<lparr>bv_scopes := m\<rparr> \<and> (fits (max_scopes (bv_limits b)) (bv_scopes b) \<longrightarrow> fits (max_scopes (bv_limits b)) m)"
proof (cases "b' = b")
  case True
  then show ?thesis by (intro exI [of _ "bv_scopes b"]) simp
next
  case False
  let ?m = "filter (\<lambda>(_, scope, _). alive scope) (bv_scopes b)"
  have "b' = b\<lparr>bv_scopes := ?m\<rparr> \<or> (b' = b\<lparr>bv_scopes := AList.update name (fresh, lane) ?m\<rparr>
      \<and> map_of ?m name = None \<and> \<not> unat (max_scopes (bv_limits b)) \<le> length ?m)"
    using assms False by (auto simp: create_scope_def Let_def split: sum.splits if_splits option.splits prod.splits)
  then show ?thesis
  proof (elim disjE conjE)
    assume "b' = b\<lparr>bv_scopes := ?m\<rparr>"
    then show ?thesis by (intro exI [of _ ?m]) (simp add: fits_filter)
  next
    assume "b' = b\<lparr>bv_scopes := AList.update name (fresh, lane) ?m\<rparr>" "map_of ?m name = None"
      "\<not> unat (max_scopes (bv_limits b)) \<le> length ?m"
    then show ?thesis by (intro exI [of _ "AList.update name (fresh, lane) ?m"]) (simp add: fits_filter fits_update)
  qed
qed

lemma create_task_slot_fits:
  assumes "create_task_slot alive key lane fresh b = (r, b')"
  shows "\<exists>m. b' = b\<lparr>bv_slots := m\<rparr> \<and> (fits (max_slots (bv_limits b)) (bv_slots b) \<longrightarrow> fits (max_slots (bv_limits b)) m)"
proof (cases "b' = b")
  case True
  then show ?thesis by (intro exI [of _ "bv_slots b"]) simp
next
  case False
  let ?m = "filter (\<lambda>(_, slot, _). alive slot) (bv_slots b)"
  have "b' = b\<lparr>bv_slots := ?m\<rparr> \<or> (b' = b\<lparr>bv_slots := AList.update key (fresh, lane) ?m\<rparr>
      \<and> map_of ?m key = None \<and> \<not> unat (max_slots (bv_limits b)) \<le> length ?m)"
    using assms False by (auto simp: create_task_slot_def Let_def split: sum.splits if_splits option.splits prod.splits)
  then show ?thesis
  proof (elim disjE conjE)
    assume "b' = b\<lparr>bv_slots := ?m\<rparr>"
    then show ?thesis by (intro exI [of _ ?m]) (simp add: fits_filter)
  next
    assume "b' = b\<lparr>bv_slots := AList.update key (fresh, lane) ?m\<rparr>" "map_of ?m key = None"
      "\<not> unat (max_slots (bv_limits b)) \<le> length ?m"
    then show ?thesis by (intro exI [of _ "AList.update key (fresh, lane) ?m"]) (simp add: fits_filter fits_update)
  qed
qed

lemma enqueue_named_effect:
  assumes "enqueue_named max_permits name buffer long_resident fresh b = (r, b')"
  shows "b' = b \<or> b' = b\<lparr>bv_lifecycle_poisoned := True, bv_named_poisoned := True\<rparr>
    \<or> (\<exists>m. b' = b\<lparr>bv_named := m\<rparr> \<and> (distinct (keys (bv_named b)) \<longrightarrow> distinct (keys m)))"
proof (cases "b' = b \<or> b' = b\<lparr>bv_lifecycle_poisoned := True, bv_named_poisoned := True\<rparr>")
  case False
  then obtain k v where "b' = b\<lparr>bv_named := AList.update k v (bv_named b)\<rparr>"
    using assms by (auto simp: enqueue_named_def split: sum.splits if_splits option.splits)
  then show ?thesis using distinct_update [of "bv_named b" k v] by blast
qed blast

lemma beaver_shutdown_effect:
  assumes "beaver_shutdown now1 now2 options b = (r, b')"
  shows "b' = b \<or> (\<exists>p. b' = b\<lparr>bv_admission_open := False, bv_lifecycle := LifeShuttingDown, bv_shutdown := Some p\<rparr>
    \<and> r = Inr p \<and> sp_options p = options \<and> bv_lifecycle b = LifeRunning \<and> bv_shutdown b = None \<and> \<not> bv_lifecycle_poisoned b)"
proof (cases "b' = b")
  case False
  obtain u where v: "validate_options now1 options = Inr u"
    using assms False by (cases "validate_options now1 options") (simp_all add: beaver_shutdown_def)
  have none: "bv_shutdown b = None"
    using assms False v by (cases "bv_shutdown b") (auto simp: beaver_shutdown_def split: if_splits)
  obtain p where p: "shutdown_process_new now2 options = Inr p"
    using assms False v none by (cases "shutdown_process_new now2 options") (simp_all add: beaver_shutdown_def)
  then have "sp_options p = options" by (auto simp: shutdown_process_new_def split: option.splits)
  with assms False v none p show ?thesis by (auto simp: beaver_shutdown_def split: if_splits)
qed simp


text \<open>The updates that keep the invariant.\<close>

lemma beaver_inv_maps:
  assumes "beaver_inv b"
  shows "fits (max_lanes (bv_limits b)) (bv_lanes b) \<longrightarrow> fits (max_lanes (bv_limits b)) m1 \<Longrightarrow> beaver_inv (b\<lparr>bv_lanes := m1\<rparr>)"
    and "fits (max_scopes (bv_limits b)) (bv_scopes b) \<longrightarrow> fits (max_scopes (bv_limits b)) m2 \<Longrightarrow> beaver_inv (b\<lparr>bv_scopes := m2\<rparr>)"
    and "fits (max_slots (bv_limits b)) (bv_slots b) \<longrightarrow> fits (max_slots (bv_limits b)) m2 \<Longrightarrow> beaver_inv (b\<lparr>bv_slots := m2\<rparr>)"
    and "distinct (keys (bv_named b)) \<longrightarrow> distinct (keys m3) \<Longrightarrow> beaver_inv (b\<lparr>bv_named := m3\<rparr>)"
  using assms by (simp_all add: beaver_inv_def maps_ok_def life_ok_def)

lemma beaver_inv_poison: "beaver_inv b \<Longrightarrow> beaver_inv (b\<lparr>bv_lifecycle_poisoned := True, bv_named_poisoned := True\<rparr>)"
  by (simp add: beaver_inv_def maps_ok_def life_ok_def)

lemma beaver_inv_life:
  "beaver_inv b \<Longrightarrow> beaver_inv (b\<lparr>bv_admission_open := False, bv_lifecycle := LifeShuttingDown, bv_shutdown := Some p\<rparr>)"
  by (simp add: beaver_inv_def maps_ok_def life_ok_def)

lemma beaver_inv_stopped:
  "\<lbrakk>beaver_inv b; bv_lifecycle b = LifeShuttingDown; answered p\<rbrakk>
   \<Longrightarrow> beaver_inv (b\<lparr>bv_shutdown := Some p, bv_lifecycle := LifeStopped\<rparr>)"
  by (simp add: beaver_inv_def maps_ok_def life_ok_def)

lemma beaver_step_inv:
  assumes "beaver_inv b" and "beaver_step b b'"
  shows "beaver_inv b'"
  using assms(2)
proof (cases rule: beaver_step.cases)
  case (step_lane cfg fresh r)
  from create_lane_fits [OF step_lane] beaver_inv_maps(1) [OF assms(1)] show ?thesis by blast
next
  case (step_scope alive name lane fresh r)
  from create_scope_fits [OF step_scope] beaver_inv_maps(2) [OF assms(1)] show ?thesis by blast
next
  case (step_slot alive key lane fresh r)
  from create_task_slot_fits [OF step_slot] beaver_inv_maps(3) [OF assms(1)] show ?thesis by blast
next
  case (step_named max_permits name buffer long_resident fresh r)
  from enqueue_named_effect [OF step_named] beaver_inv_maps(4) [OF assms(1)] beaver_inv_poison [OF assms(1)] assms(1)
  show ?thesis by blast
next
  case (step_shutdown now1 now2 options r)
  from beaver_shutdown_effect [OF step_shutdown] beaver_inv_life [OF assms(1)] assms(1) show ?thesis by blast
next
  case (step_finish env stop dams effects)
  with assms(1) obtain p where p: "bv_shutdown b = Some p" by (auto simp: beaver_inv_def life_ok_def)
  let ?p' = "fst (run_shutdown_supervisor env stop dams (map (\<lambda>(_, _, lane). lane) (bv_lanes b)) p)"
  from step_finish(2) have b': "b' = b\<lparr>bv_shutdown := Some ?p', bv_lifecycle := LifeStopped\<rparr>"
    by (simp add: finish_shutdown_def p case_prod_beta)
  show ?thesis unfolding b' by (rule beaver_inv_stopped [OF assms(1) step_finish(1) supervisor_answers])
next
  case (step_cancel_all r dams)
  then have "b' = b \<or> b' = b\<lparr>bv_named := []\<rparr>" by (auto simp: beaver_cancel_all_def Let_def split: if_splits)
  with beaver_inv_maps(4) [OF assms(1), of "[]"] assms(1) show ?thesis by auto
next
  case (step_cancel_some r dams)
  then have "b' = b \<or> b' = b\<lparr>bv_named := filter (\<lambda>(_, entry). ne_long_resident entry) (bv_named b)\<rparr>"
    by (auto simp: cancel_non_long_resident_def Let_def split: if_splits)
  with beaver_inv_maps(4) [OF assms(1), of "filter (\<lambda>(_, entry). ne_long_resident entry) (bv_named b)"] assms(1)
  show ?thesis by (auto simp: keys_filter_distinct)
next
  case (step_release name r)
  then have "b' = b \<or> b' = b\<lparr>bv_named := AList.delete name (bv_named b)\<rparr>"
    by (auto simp: release_by_name_def split: if_splits)
  with beaver_inv_maps(4) [OF assms(1), of "AList.delete name (bv_named b)"] assms(1)
  show ?thesis by (auto simp: distinct_keys_delete)
next
  case (step_take dams)
  then have "b' = b\<lparr>bv_default := None, bv_named := []\<rparr>" by (auto simp: take_dams_def)
  with beaver_inv_maps(4) [OF assms(1), of "[]"] step_take(1) show ?thesis by (simp add: beaver_inv_def maps_ok_def life_ok_def)
qed

interpretation executors: invariant_system beaver_init beaver_step beaver_inv
proof
  show "beaver_inv b" if "beaver_init b" for b
  proof -
    from that obtain max_permits dam buffer limits where "build_with_handle max_permits dam buffer limits = Inr b"
      unfolding beaver_init_def by blast
    then show ?thesis
      by (cases "limits_validate limits")
        (auto simp: build_with_handle_def beaver_inv_def maps_ok_def life_ok_def fits_def split: if_splits)
  qed
  show "beaver_inv b'" if "beaver_inv b" "beaver_step b b'" for b b'
    using that by (rule beaver_step_inv)
qed

section \<open>Effects every step respects\<close>




lemma step_poison:
  assumes "beaver_step b b'" and "bv_lifecycle_poisoned b"
  shows "bv_lifecycle_poisoned b'"
  using assms(1)
proof (cases rule: beaver_step.cases)
  case (step_lane cfg fresh r)
  from create_lane_fits [OF step_lane] assms(2) show ?thesis by (auto )
next
  case (step_scope alive name lane fresh r)
  from create_scope_fits [OF step_scope] assms(2) show ?thesis by (auto )
next
  case (step_slot alive key lane fresh r)
  from create_task_slot_fits [OF step_slot] assms(2) show ?thesis by (auto )
next
  case (step_named max_permits name buffer long_resident fresh r)
  from enqueue_named_effect [OF step_named] assms(2) show ?thesis by (auto )
next
  case (step_shutdown now1 now2 options r)
  from beaver_shutdown_effect [OF step_shutdown] assms(2) show ?thesis by (auto )
qed (use assms(2) in \<open>auto simp: beaver_cancel_all_def cancel_non_long_resident_def release_by_name_def take_dams_def
    finish_shutdown_def  Let_def case_prod_beta split: if_splits option.splits\<close>)

interpretation poison: stable_observation beaver_step "\<lambda>b. if bv_lifecycle_poisoned b then Some () else None"
  by unfold_locales (auto dest: step_poison split: if_splits)

section \<open>Properties\<close>

text \<open>
  The executor stays within its limits: lanes, scopes and slots never exceed what was configured
  and have different names; while it runs it has its default dam and admits, and once it does not run
  it admits nothing.
\<close>

theorem executor_stays_bounded:
  assumes "reach beaver_init beaver_step b"
  shows "maps_ok b \<and> (bv_admission_open b \<longleftrightarrow> bv_lifecycle b = LifeRunning)
    \<and> (bv_lifecycle b = LifeRunning \<longrightarrow> enqueue_default b \<noteq> Inl NoDam)"
proof -
  have inv: "maps_ok b" "life_ok b" using executors.reach_inv [OF assms] by (simp_all add: beaver_inv_def)
  then have "enqueue_default b \<noteq> Inl NoDam" if "bv_lifecycle b = LifeRunning"
    using that by (auto simp: life_ok_def enqueue_default_def require_running_def)
  with inv show ?thesis by (simp add: life_ok_def)
qed

definition demo_beaver :: beaver where
  "demo_beaver = projr (build_with_handle 1000 0 8 default_limits)"

lemma demo_beaver_eq: "build_with_handle 1000 0 8 default_limits = Inr demo_beaver"
  by (simp add: demo_beaver_def build_with_handle_def default_limits_valid)

lemma demo_beaver_reach: "reach beaver_init beaver_step demo_beaver"
  using demo_beaver_eq by (intro reach_init) (auto simp: beaver_init_def)

lemma demo_beaver_simps:
  "bv_lifecycle demo_beaver = LifeRunning" "bv_shutdown demo_beaver = None" "bv_named demo_beaver = []"
  "\<not> bv_lifecycle_poisoned demo_beaver" "\<not> bv_named_poisoned demo_beaver" "bv_default demo_beaver = Some 0"
  by (simp_all add: demo_beaver_def build_with_handle_def default_limits_valid)

lemma executor_stays_bounded_witness: "maps_ok demo_beaver \<and> enqueue_default demo_beaver \<noteq> Inl NoDam"
  using executor_stays_bounded [OF demo_beaver_reach] demo_beaver_simps by simp


lemma demo_shutdown:
  "\<exists>p b. beaver_shutdown 0 0 default_shutdown_options demo_beaver = (Inr p, b) \<and> sp_options p = default_shutdown_options"
  by (simp add: beaver_shutdown_def validate_options_def shutdown_process_new_def demo_beaver_simps
      default_shutdown_options_def instant_checked_add_def instant_limit_def nanos_per_sec_def)


text \<open>
  C39. Whoever waits for a shutdown gets an answer: an executor that has stopped, whether its
  supervisor ran to the end or was dropped by its runtime at any of its waits, has published both the
  outcome of the grace period and the final result.
\<close>

theorem stopped_executor_has_answered:
  assumes "reach beaver_init beaver_step b" and "bv_lifecycle b = LifeStopped"
  shows "\<exists>p. bv_shutdown b = Some p \<and> wait_grace_poll p \<noteq> None \<and> wait_final_poll p \<noteq> None"
  using executors.reach_inv [OF assms(1)] assms(2) by (auto simp: beaver_inv_def life_ok_def answered_def)

lemma stopped_executor_has_answered_witness:
  "\<exists>(b :: beaver) p. bv_shutdown b = Some p \<and> wait_final_poll p = Some (Inl (SupervisorFailed supervisor_cancelled))
     \<and> wait_grace_poll p \<noteq> None"
proof -
  from demo_shutdown obtain p b where shut: "beaver_shutdown 0 0 default_shutdown_options demo_beaver = (Inr p, b)" by blast
  have b: "bv_lifecycle b = LifeShuttingDown" "bv_shutdown b = Some p"
    using shut by (auto simp: beaver_shutdown_def validate_options_def demo_beaver_simps split: option.splits sum.splits if_splits)
  obtain b' effects where fin: "finish_shutdown demo_shutdown_env DroppedWaiting [0] b = (b', effects)"
    by (cases "finish_shutdown demo_shutdown_env DroppedWaiting [0] b")
  then have b': "bv_lifecycle b' = LifeStopped" "\<exists>q. bv_shutdown b' = Some q \<and> sp_final q = Some (Inl supervisor_cancelled)"
    using b(2) by (auto simp: finish_shutdown_def run_shutdown_supervisor_def Let_def guard_drop_def publish_failure_def
        split: prod.splits)
  have "reach beaver_init beaver_step b'"
    by (rule reach_step [OF reach_step [OF demo_beaver_reach beaver_step.step_shutdown [OF shut]] beaver_step.step_finish [OF b(1) fin]])
  from stopped_executor_has_answered [OF this b'(1)] obtain q where q: "bv_shutdown b' = Some q" "wait_grace_poll q \<noteq> None" by blast
  with b'(2) have "wait_final_poll q = Some (Inl (SupervisorFailed supervisor_cancelled))" by (simp add: wait_final_poll_def)
  with q show ?thesis by blast
qed

text \<open>
  C40. One unusable capacity disables the executor for good.  When a running executor is asked to
  enqueue on a new named dam with capacity zero (or above Tokio's bound), the channel's constructor
  panics while the lifecycle lock is held: whatever is called afterwards, every submission and every
  shutdown is refused with the poisoned lock, so the executor can neither be used nor shut down.
\<close>

theorem bad_capacity_disables_executor:
  assumes "reach beaver_init beaver_step b" and "require_running b = Inr ()" and "\<not> bv_named_poisoned b"
    and "map_of (bv_named b) name = None" and "buffer = 0 \<or> max_permits < buffer"
    and "enqueue_named max_permits name buffer long_resident fresh b = (r, b1)" and "beaver_step\<^sup>*\<^sup>* b1 b2"
  shows "r = None \<and> require_running b2 = Inl LockPoisoned
    \<and> (\<forall>now1 now2 options. \<exists>error. fst (beaver_shutdown now1 now2 options b2) = Inl error)"
proof -
  have r: "r = None" and b1: "bv_lifecycle_poisoned b1" using assms(2-6) by (auto simp: enqueue_named_def)
  have poisoned: "bv_lifecycle_poisoned b2"
    using poison.steps_stable [OF assms(7), of "()"] b1 by (simp split: if_splits)
  then have "\<exists>error. fst (beaver_shutdown now1 now2 options b2) = Inl error" for now1 now2 options
    by (cases "validate_options now1 options"; cases "shutdown_process_new now2 options"; cases "bv_shutdown b2")
      (simp_all add: beaver_shutdown_def)
  with r poisoned show ?thesis by (simp add: require_running_def)
qed

lemma bad_capacity_disables_executor_witness:
  "\<exists>b. enqueue_named 1000 ''heartbeat'' 0 True 1 demo_beaver = (None, b) \<and> require_running b = Inl LockPoisoned"
proof -
  obtain r b where step: "enqueue_named 1000 ''heartbeat'' 0 True 1 demo_beaver = (r, b)"
    by (cases "enqueue_named 1000 ''heartbeat'' 0 True 1 demo_beaver")
  have "require_running demo_beaver = Inr ()" by (simp add: require_running_def demo_beaver_simps)
  from bad_capacity_disables_executor [OF demo_beaver_reach this _ _ _ step rtranclp.rtrancl_refl] step show ?thesis
    by (auto simp: demo_beaver_simps)
qed

end
