(* ===== verification/BB_Builders.thy ===== *)
theory BB_Builders
  imports BB_Tasks BB_Retry_Props BB_Recurring BB_Service BB_Lane BB_Shutdown BB_Beaver BB_Submission
begin

text \<open>
  The setters of the builders and option records of the library, one definition each, and what callers
  may do with them: a retry builder is used by any sequence of its setters, in any order, before it
  is built.  The result: however a retry specification was put together, it retries only what
  the caller opted into.
\<close>

section \<open>Options of the executor, lanes and submissions\<close>

definition runtime_handle :: "beaver_builder \<Rightarrow> beaver_builder" where
  "runtime_handle b = b\<lparr>bb_handle := True\<rparr>"

definition builder_resource_limits :: "resource_limits \<Rightarrow> beaver_builder \<Rightarrow> beaver_builder" where
  "builder_resource_limits limits b = b\<lparr>bb_limits := limits\<rparr>"

text \<open>\<open>new\<close> and \<open>new_with_handle\<close> only call these two.\<close>

definition beaver_try_new :: "nat \<Rightarrow> bool \<Rightarrow> nat \<Rightarrow> string \<Rightarrow> nat \<Rightarrow> beaver_error + beaver" where
  "beaver_try_new max_permits in_runtime dam name buffer = beaver_build max_permits in_runtime dam (beaver_builder_new name buffer)"

definition try_new_with_handle :: "nat \<Rightarrow> bool \<Rightarrow> nat \<Rightarrow> string \<Rightarrow> nat \<Rightarrow> beaver_error + beaver" where
  "try_new_with_handle max_permits in_runtime dam name buffer =
     beaver_build max_permits in_runtime dam (runtime_handle (beaver_builder_new name buffer))"

definition options_priority :: "u8 \<Rightarrow> spawn_options \<Rightarrow> spawn_options" where
  "options_priority priority o1 = o1\<lparr>opt_priority := priority\<rparr>"

definition options_ordering_key :: "ordering_key \<Rightarrow> spawn_options \<Rightarrow> spawn_options" where
  "options_ordering_key key o1 = o1\<lparr>opt_ordering_key := Some key\<rparr>"

definition config_capacity :: "usize \<Rightarrow> lane_config \<Rightarrow> lane_config" where
  "config_capacity capacity cfg = cfg\<lparr>cfg_capacity := capacity\<rparr>"

definition config_concurrency :: "usize \<Rightarrow> lane_config \<Rightarrow> lane_config" where
  "config_concurrency concurrency cfg = cfg\<lparr>cfg_concurrency := concurrency\<rparr>"

definition config_lifetime :: "lane_lifetime \<Rightarrow> lane_config \<Rightarrow> lane_config" where
  "config_lifetime lifetime cfg = cfg\<lparr>cfg_lifetime := lifetime\<rparr>"

definition options_mode :: "shutdown_mode \<Rightarrow> shutdown_options \<Rightarrow> shutdown_options" where
  "options_mode mode o1 = o1\<lparr>so_mode := mode\<rparr>"

definition options_grace_period :: "duration \<Rightarrow> shutdown_options \<Rightarrow> shutdown_options" where
  "options_grace_period grace_period o1 = o1\<lparr>so_grace_period := grace_period\<rparr>"

definition options_on_timeout :: "shutdown_timeout_action \<Rightarrow> shutdown_options \<Rightarrow> shutdown_options" where
  "options_on_timeout action o1 = o1\<lparr>so_on_timeout := action\<rparr>"

definition spec_tag :: "string \<Rightarrow> task_spec \<Rightarrow> task_spec" where
  "spec_tag tag spec = spec\<lparr>ts_tag := Some tag\<rparr>"

definition spec_abort_policy :: "abort_policy \<Rightarrow> task_spec \<Rightarrow> task_spec" where
  "spec_abort_policy policy spec = spec\<lparr>ts_abort_policy := policy\<rparr>"

section \<open>Legacy tasks\<close>

definition fixed_count_tag :: "string \<Rightarrow> fixed_count_builder \<Rightarrow> fixed_count_builder" where
  "fixed_count_tag tag b = b\<lparr>fcb_tag := Some tag\<rparr>"

definition fixed_count_progress :: "progress_ref \<Rightarrow> fixed_count_builder \<Rightarrow> fixed_count_builder" where
  "fixed_count_progress p b = b\<lparr>fcb_progress := Some p\<rparr>"

definition fixed_count_listener :: "listener_ref \<Rightarrow> fixed_count_builder \<Rightarrow> fixed_count_builder" where
  "fixed_count_listener listener b = b\<lparr>fcb_listener := Some listener\<rparr>"

definition time_interval_tag :: "string \<Rightarrow> time_interval_builder \<Rightarrow> time_interval_builder" where
  "time_interval_tag tag b = b\<lparr>tib_tag := Some tag\<rparr>"

definition time_interval_listener :: "listener_ref \<Rightarrow> time_interval_builder \<Rightarrow> time_interval_builder" where
  "time_interval_listener listener b = b\<lparr>tib_listener := Some listener\<rparr>"

definition periodic_interval :: "duration \<Rightarrow> periodic_builder \<Rightarrow> periodic_builder" where
  "periodic_interval d b = b\<lparr>pb_interval := d\<rparr>"

definition periodic_initial_delay :: "bool \<Rightarrow> periodic_builder \<Rightarrow> periodic_builder" where
  "periodic_initial_delay delay b = b\<lparr>pb_initial_delay := delay\<rparr>"

definition periodic_tag :: "string \<Rightarrow> periodic_builder \<Rightarrow> periodic_builder" where
  "periodic_tag tag b = b\<lparr>pb_tag := Some tag\<rparr>"

definition periodic_listener :: "listener_ref \<Rightarrow> periodic_builder \<Rightarrow> periodic_builder" where
  "periodic_listener listener b = b\<lparr>pb_listener := Some listener\<rparr>"

definition range_tag :: "string \<Rightarrow> range_interval_builder \<Rightarrow> range_interval_builder" where
  "range_tag tag b = b\<lparr>rib_tag := Some tag\<rparr>"

definition range_listener :: "listener_ref \<Rightarrow> range_interval_builder \<Rightarrow> range_interval_builder" where
  "range_listener listener b = b\<lparr>rib_listener := Some listener\<rparr>"

section \<open>Schedules, recurring tasks and services\<close>

definition schedule_initial_delay :: "duration \<Rightarrow> 'f schedule \<Rightarrow> 'f schedule" where
  "schedule_initial_delay delay s = s\<lparr>sch_initial_delay := delay\<rparr>"

definition schedule_missed_tick_policy :: "missed_tick_policy \<Rightarrow> 'f schedule \<Rightarrow> 'f schedule" where
  "schedule_missed_tick_policy policy s = s\<lparr>sch_missed_tick_policy := policy\<rparr>"

definition schedule_resume_policy :: "resume_policy \<Rightarrow> 'f schedule \<Rightarrow> 'f schedule" where
  "schedule_resume_policy policy s = s\<lparr>sch_resume_policy := policy\<rparr>"

definition schedule_jitter :: "'f jitter \<Rightarrow> 'f schedule \<Rightarrow> 'f schedule" where
  "schedule_jitter j s = s\<lparr>sch_jitter := Some j\<rparr>"

definition restart_window :: "duration \<Rightarrow> restart_policy \<Rightarrow> restart_policy" where
  "restart_window window policy = policy\<lparr>rp_window := window\<rparr>"

definition restart_backoff :: "duration \<Rightarrow> restart_policy \<Rightarrow> restart_policy" where
  "restart_backoff backoff policy = policy\<lparr>rp_backoff := backoff\<rparr>"

definition recurring_schedule :: "'f schedule \<Rightarrow> 'f recurring_builder \<Rightarrow> 'f recurring_builder" where
  "recurring_schedule schedule b = b\<lparr>cb_schedule := schedule\<rparr>"

definition recurring_initial_delay :: "duration \<Rightarrow> 'f recurring_builder \<Rightarrow> 'f recurring_builder" where
  "recurring_initial_delay delay b = b\<lparr>cb_schedule := (cb_schedule b)\<lparr>sch_initial_delay := delay\<rparr>\<rparr>"

definition recurring_failure_policy :: "tick_failure_policy \<Rightarrow> 'f recurring_builder \<Rightarrow> 'f recurring_builder" where
  "recurring_failure_policy policy b = b\<lparr>cb_failure_policy := policy\<rparr>"

definition recurring_panic_policy :: "panic_policy \<Rightarrow> 'f recurring_builder \<Rightarrow> 'f recurring_builder" where
  "recurring_panic_policy policy b = b\<lparr>cb_panic_policy := policy\<rparr>"

definition recurring_tag :: "string \<Rightarrow> 'f recurring_builder \<Rightarrow> 'f recurring_builder" where
  "recurring_tag tag b = b\<lparr>cb_tag := Some tag\<rparr>"

definition recurring_abort_policy :: "abort_policy \<Rightarrow> 'f recurring_builder \<Rightarrow> 'f recurring_builder" where
  "recurring_abort_policy policy b = b\<lparr>cb_abort_policy := policy\<rparr>"

definition service_hook :: "service_spec \<Rightarrow> service_spec" where
  "service_hook b = b\<lparr>sv_has_hook := True\<rparr>"

definition service_hook_timeout :: "duration \<Rightarrow> service_spec \<Rightarrow> service_spec" where
  "service_hook_timeout timeout b = b\<lparr>sv_hook_timeout := timeout\<rparr>"

definition service_abort_policy :: "abort_policy \<Rightarrow> service_spec \<Rightarrow> service_spec" where
  "service_abort_policy policy b = b\<lparr>sv_abort_policy := policy\<rparr>"

definition service_tag :: "string \<Rightarrow> service_spec \<Rightarrow> service_spec" where
  "service_tag tag b = b\<lparr>sv_tag := Some tag\<rparr>"

section \<open>Retries\<close>

definition backoff_fixed :: "duration \<Rightarrow> 'f backoff" where
  "backoff_fixed delay = BackoffFixed delay"

definition backoff_explicit :: "duration list \<Rightarrow> 'f backoff" where
  "backoff_explicit delays = BackoffExplicit delays"

definition backoff_exponential :: "duration \<Rightarrow> 'f \<Rightarrow> duration \<Rightarrow> 'f backoff" where
  "backoff_exponential base multiplier cap = BackoffExponential base multiplier cap"

definition set_max_attempts :: "u32 \<Rightarrow> 'f retry_builder \<Rightarrow> 'f retry_builder" where
  "set_max_attempts max_attempts b = b\<lparr>rb_max_attempts := max_attempts\<rparr>"

definition set_backoff :: "'f backoff \<Rightarrow> 'f retry_builder \<Rightarrow> 'f retry_builder" where
  "set_backoff backoff b = b\<lparr>rb_backoff := backoff\<rparr>"

definition set_delays :: "duration list \<Rightarrow> 'f retry_builder \<Rightarrow> 'f retry_builder" where
  "set_delays delays b = b\<lparr>rb_backoff := backoff_explicit delays\<rparr>"

definition set_fixed_delay :: "duration \<Rightarrow> 'f retry_builder \<Rightarrow> 'f retry_builder" where
  "set_fixed_delay delay b = b\<lparr>rb_backoff := backoff_fixed delay\<rparr>"

definition set_retry_jitter :: "'f jitter \<Rightarrow> 'f retry_builder \<Rightarrow> 'f retry_builder" where
  "set_retry_jitter j b = b\<lparr>rb_jitter := Some j\<rparr>"

definition set_attempt_timeout :: "duration \<Rightarrow> 'f retry_builder \<Rightarrow> 'f retry_builder" where
  "set_attempt_timeout timeout b = b\<lparr>rb_attempt_timeout := Some timeout\<rparr>"

definition retry_timed_out_attempts :: "'f retry_builder \<Rightarrow> 'f retry_builder" where
  "retry_timed_out_attempts b = b\<lparr>rb_retry_timed_out_attempts := True\<rparr>"

definition set_deadline :: "instant \<Rightarrow> 'f retry_builder \<Rightarrow> 'f retry_builder" where
  "set_deadline at b = b\<lparr>rb_deadline := Some at\<rparr>"

definition set_overall_timeout :: "duration \<Rightarrow> 'f retry_builder \<Rightarrow> 'f retry_builder" where
  "set_overall_timeout timeout b = b\<lparr>rb_overall_timeout := Some timeout\<rparr>"

definition set_retry_tag :: "string \<Rightarrow> 'f retry_builder \<Rightarrow> 'f retry_builder" where
  "set_retry_tag tag b = b\<lparr>rb_tag := Some tag\<rparr>"

definition set_retry_abort_policy :: "abort_policy \<Rightarrow> 'f retry_builder \<Rightarrow> 'f retry_builder" where
  "set_retry_abort_policy policy b = b\<lparr>rb_abort_policy := policy\<rparr>"

lemmas retry_setters = set_max_attempts_def set_backoff_def set_delays_def set_fixed_delay_def set_retry_jitter_def
  set_attempt_timeout_def retry_timed_out_attempts_def set_deadline_def set_overall_timeout_def set_retry_tag_def
  set_retry_abort_policy_def retry_if_def retry_all_errors_def

text \<open>One call of a setter, and a builder after any number of calls.\<close>

datatype (plugins only: size) 'f retry_setting =
    MaxAttempts u32
  | SetBackoff "'f backoff"
  | SetDelays "duration list"
  | SetFixedDelay duration
  | SetJitter "'f jitter"
  | RetryIf
  | RetryAllErrors
  | SetAttemptTimeout duration
  | RetryTimedOutAttempts
  | SetDeadline instant
  | SetOverallTimeout duration
  | SetTag string
  | SetAbortPolicy abort_policy

primrec retry_set :: "'f retry_setting \<Rightarrow> 'f retry_builder \<Rightarrow> 'f retry_builder" where
  "retry_set (MaxAttempts n) = set_max_attempts n"
| "retry_set (SetBackoff backoff) = set_backoff backoff"
| "retry_set (SetDelays delays) = set_delays delays"
| "retry_set (SetFixedDelay delay) = set_fixed_delay delay"
| "retry_set (SetJitter j) = set_retry_jitter j"
| "retry_set RetryIf = retry_if"
| "retry_set RetryAllErrors = retry_all_errors"
| "retry_set (SetAttemptTimeout timeout) = set_attempt_timeout timeout"
| "retry_set RetryTimedOutAttempts = retry_timed_out_attempts"
| "retry_set (SetDeadline at) = set_deadline at"
| "retry_set (SetOverallTimeout timeout) = set_overall_timeout timeout"
| "retry_set (SetTag tag) = set_retry_tag tag"
| "retry_set (SetAbortPolicy policy) = set_retry_abort_policy policy"

definition configured :: "'f retry_setting list \<Rightarrow> 'f retry_builder" where
  "configured settings = fold retry_set settings retry_builder_new"

text \<open>What the calls amount to: the last of the two policies, and the last number of attempts.\<close>

fun policy_of :: "'f retry_setting \<Rightarrow> bool option" where
  "policy_of RetryIf = Some False"
| "policy_of RetryAllErrors = Some True"
| "policy_of _ = None"

fun attempts_of :: "'f retry_setting \<Rightarrow> u32 option" where
  "attempts_of (MaxAttempts n) = Some n"
| "attempts_of _ = None"

definition last_given :: "('s \<Rightarrow> 'a option) \<Rightarrow> 's list \<Rightarrow> 'a option" where
  "last_given f settings = fold (\<lambda>s given. case f s of None \<Rightarrow> given | Some y \<Rightarrow> Some y) settings None"

lemma last_given_snoc: "last_given f (settings @ [x]) = (case f x of None \<Rightarrow> last_given f settings | Some y \<Rightarrow> Some y)"
  by (simp add: last_given_def split: option.split)

lemma configured_snoc: "configured (settings @ [x]) = retry_set x (configured settings)"
  by (simp add: configured_def)

lemma configured_policy:
  "rb_has_predicate (configured settings) \<longleftrightarrow> last_given policy_of settings = Some False"
  "rb_retry_all_errors (configured settings) \<longleftrightarrow> last_given policy_of settings = Some True"
  "rb_max_attempts (configured settings) = (case last_given attempts_of settings of None \<Rightarrow> 1 | Some n \<Rightarrow> n)"
  "rb_retry_timed_out_attempts (configured settings) \<longleftrightarrow> RetryTimedOutAttempts \<in> set settings"
proof (induction settings rule: rev_induct)
  case Nil
  show 1: "rb_has_predicate (configured []) \<longleftrightarrow> last_given policy_of ([] :: 'f retry_setting list) = Some False"
    "rb_retry_all_errors (configured []) \<longleftrightarrow> last_given policy_of ([] :: 'f retry_setting list) = Some True"
    "rb_max_attempts (configured []) = (case last_given attempts_of ([] :: 'f retry_setting list) of None \<Rightarrow> 1 | Some n \<Rightarrow> n)"
    "rb_retry_timed_out_attempts (configured []) \<longleftrightarrow> RetryTimedOutAttempts \<in> set ([] :: 'f retry_setting list)"
    by (simp_all add: configured_def retry_builder_new_def last_given_def)
next
  case (snoc x settings)
  then show
    "rb_has_predicate (configured (settings @ [x])) \<longleftrightarrow> last_given policy_of (settings @ [x]) = Some False"
    "rb_retry_all_errors (configured (settings @ [x])) \<longleftrightarrow> last_given policy_of (settings @ [x]) = Some True"
    "rb_max_attempts (configured (settings @ [x])) = (case last_given attempts_of (settings @ [x]) of None \<Rightarrow> 1 | Some n \<Rightarrow> n)"
    "rb_retry_timed_out_attempts (configured (settings @ [x])) \<longleftrightarrow> RetryTimedOutAttempts \<in> set (settings @ [x])"
    by (cases x; simp add: configured_snoc last_given_snoc retry_setters)+
qed

lemma built_fields:
  assumes "retry_build F now fresh b = Inr spec"
  shows "rs_has_predicate spec = rb_has_predicate b" "rs_retry_all_errors spec = rb_retry_all_errors b"
    "rs_retry_timed_out_attempts spec = rb_retry_timed_out_attempts b" "rs_max_attempts spec = rb_max_attempts b"
  using assms by (auto simp: retry_build_def split: if_splits sum.splits)

section \<open>Properties\<close>

text \<open>
  C24. A retry repeats only what its caller opted into.  Take any sequence of setter calls on a new
  builder and any run of the specification it builds.  The run never calls more attempts than the
  last \<open>max_attempts\<close> asked for, one if it was never called.  An attempt that is followed by another
  either timed out, and \<open>retry_timed_out_attempts\<close> was called, or failed, and then the last of
  \<open>retry_if\<close> and \<open>retry_all_errors\<close> decides: under \<open>retry_if\<close> the predicate accepted the error.  With
  neither of the two there is no second attempt.
\<close>

theorem retries_are_opted_into:
  assumes "retry_build F now fresh (configured settings) = Inr spec" and "run_retry F spec limit env = (res, evs)"
  shows "length (calls_of evs) \<le> (case last_given attempts_of settings of None \<Rightarrow> 1 | Some n \<Rightarrow> unat n)
    \<and> (\<forall>i. 1 \<le> i \<and> i < length (calls_of evs) \<longrightarrow>
        (case attempt_result spec limit (env i) of
           Some OutTimedOut \<Rightarrow> RetryTimedOutAttempts \<in> set settings
         | Some (OutFailed err) \<Rightarrow>
             (case last_given policy_of settings of
                None \<Rightarrow> False
              | Some all \<Rightarrow> all \<or> ae_predicate (env i) = Some True)
         | _ \<Rightarrow> False))
    \<and> (last_given policy_of settings = None \<longrightarrow> length (calls_of evs) \<le> 1)"
proof -
  from run_retry_facts [OF assms(1)] obtain ds k
    where max: "rs_max_attempts spec = rb_max_attempts (configured settings)" and facts: "loop_facts spec limit env 1 ds (res, evs) k"
    unfolding assms(2) [symmetric] by blast
  from facts have k: "k \<le> unat (rs_max_attempts spec)" and calls: "length (calls_of evs) = k"
    and retried: "\<And>i. 1 \<le> i \<Longrightarrow> i < k \<Longrightarrow> retried_attempt spec limit (env i)" by (auto simp: loop_facts_def)
  note fields = built_fields [OF assms(1)] configured_policy [of settings]
  have ok: "policy_ok spec" by (rule retry_build_spec [OF assms(1)])
  then have one: "k \<le> 1" if "last_given policy_of settings = None"
    using that k fields by (auto simp: policy_ok_def)
  have bound: "k \<le> (case last_given attempts_of settings of None \<Rightarrow> 1 | Some n \<Rightarrow> unat n)"
    using k max fields(7) by (auto split: option.splits)
  have "case attempt_result spec limit (env i) of
      Some OutTimedOut \<Rightarrow> RetryTimedOutAttempts \<in> set settings
    | Some (OutFailed err) \<Rightarrow>
        (case last_given policy_of settings of None \<Rightarrow> False | Some all \<Rightarrow> all \<or> ae_predicate (env i) = Some True)
    | _ \<Rightarrow> False" if i: "1 \<le> i" "i < k" for i
  proof -
    obtain all where all: "last_given policy_of settings = Some all" using one i by fastforce
    from retried [OF i] fields show ?thesis
      by (auto simp: retried_attempt_def all split: option.splits attempt_outcome.splits)
  qed
  with bound one calls show ?thesis by simp
qed

definition demo_settings :: "int retry_setting list" where
  "demo_settings = [RetryAllErrors, MaxAttempts 3, SetBackoff (backoff_exponential 10 2 15), RetryIf]"

lemma demo_settings_builder: "configured demo_settings = demo_builder"
  by (simp add: configured_def demo_settings_def demo_builder_def retry_setters retry_builder_new_def backoff_exponential_def)

theorem retries_are_opted_into_witness:
  "\<exists>spec. retry_build demo_floats 0 0 (configured demo_settings) = Inr spec
    \<and> length (calls_of (snd (run_retry demo_floats spec (Some 50) demo_env))) \<le> 3"
proof -
  obtain spec where spec: "retry_build demo_floats 0 0 (configured demo_settings) = Inr spec"
    using demo_build demo_settings_builder by auto
  obtain res evs where run: "run_retry demo_floats spec (Some 50) demo_env = (res, evs)"
    by (cases "run_retry demo_floats spec (Some 50) demo_env")
  from retries_are_opted_into [OF spec run] spec run show ?thesis
    by (auto simp: demo_settings_def last_given_def)
qed

end
