(* ===== verification/BB_Lane_Loss.thy ===== *)
theory BB_Lane_Loss
  imports BB_Submission_Claims
begin

text \<open>
  What happens to the work of a lane whose dispatcher ends, because the last owner of the lane is dropped
  or because the runtime goes away: the dispatcher's guard empties the lane, drops the starts it
  finds in the queue and cancels what runs.  The result: nobody waits for ever for an execution that
  will not be started.
\<close>

section \<open>The end of a dispatcher\<close>

definition cancelled_by :: "lane_signal list \<Rightarrow> execution_id list" where
  "cancelled_by signals = List.map_filter (\<lambda>signal. case signal of CancelRunning i reason \<Rightarrow> Some i | _ \<Rightarrow> None) signals"

definition dropped_by :: "lane_signal list \<Rightarrow> execution_id list" where
  "dropped_by signals = List.map_filter (\<lambda>signal. case signal of DropStart i \<Rightarrow> Some i | _ \<Rightarrow> None) signals"

definition dispatcher_gone :: "deployment \<Rightarrow> deployment" where
  "dispatcher_gone d =
     (case dispatcher_stopped (lane_of d) of
        (s, signals) \<Rightarrow>
          cancel_all_of ExecutorShutdown (cancelled_by signals) (fold drop_start (dropped_by signals) (put_lane s d)))"

text \<open>\<open>LaneCore::drop\<close>: close, cancel, abort the dispatcher.\<close>

definition lane_core_drop :: "deployment \<Rightarrow> deployment" where
  "lane_core_drop d = dispatcher_gone (close_and_cancel ExecutorShutdown d)"

section \<open>Dropping starts, cancelling runners\<close>

definition droppable :: "deployment \<Rightarrow> execution_id \<Rightarrow> bool" where
  "droppable d i \<longleftrightarrow> (\<exists>c. core_of d i = Some c \<and> ec_execution_id c = i \<and> core_live c \<and> stop_cause (ec_state c) = None)"

definition dropped_core :: "exec_core \<Rightarrow> exec_core" where
  "dropped_core = committed (ExecutorStopped StopRunnerCancelled)"

lemma drop_starts:
  assumes "distinct is" and "\<forall>i \<in> set is. droppable d i"
  shows "(\<forall>j. core_of (fold drop_start is d) j = (if j \<in> set is then map_option dropped_core (core_of d j) else core_of d j))
    \<and> set (reg_active (dp_registry (fold drop_start is d))) = set (reg_active (dp_registry d)) - set is
    \<and> dp_lane (fold drop_start is d) = dp_lane d \<and> dp_admission_open (fold drop_start is d) = dp_admission_open d"
  using assms
proof (induction "is" arbitrary: d)
  case (Cons i rest)
  obtain c where c: "core_of d i = Some c" "ec_execution_id c = i" "core_live c" using Cons.prems(2) by (auto simp: droppable_def)
  then have t: "terminal (ec_state c) = None" "ec_registered c" "ec_has_registry c" by (simp_all add: core_live_def)
  note f = commit_exit_fields [OF c(1) t(1) c(2), of "ExecutorStopped StopRunnerCancelled", folded drop_start_def dropped_core_def]
  have i: "i \<notin> set rest" "distinct rest" using Cons.prems(1) by simp_all
  have same: "dp_lane (drop_start i d) = dp_lane d" "dp_admission_open (drop_start i d) = dp_admission_open d"
    by (simp_all add: drop_start_def)
  have "\<forall>k \<in> set rest. droppable (drop_start i d) k"
  proof
    fix k assume k: "k \<in> set rest"
    then have "k \<noteq> i" using i by blast
    with Cons.prems(2) k f(1) [of k] show "droppable (drop_start i d) k" by (simp add: droppable_def)
  qed
  note IH = Cons.IH [OF i(2) this]
  have "core_of (fold drop_start (i # rest) d) j
      = (if j \<in> set (i # rest) then map_option dropped_core (core_of d j) else core_of d j)" for j
    using IH f(1) [of j] c(1) i(1) by (cases "j = i") simp_all
  moreover have "set (reg_active (dp_registry (fold drop_start (i # rest) d))) = set (reg_active (dp_registry d)) - set (i # rest)"
    using IH f(2) t by auto
  ultimately show ?case using IH same by simp
qed simp

text \<open>An execution that a stop request changes only by recording the request.\<close>

definition unhooked :: "deployment \<Rightarrow> execution_id \<Rightarrow> bool" where
  "unhooked d i \<longleftrightarrow> (\<exists>c. core_of d i = Some c \<and> ec_execution_id c = i \<and> (ec_queued_cancel_hook c = None \<or> terminal (ec_state c) \<noteq> None))"

lemma stop_unhooked:
  assumes "unhooked d i"
  shows "\<exists>c. core_of d i = Some c \<and> core_of (snd (stop_execution cause i d)) = (core_of d)(i \<mapsto>
      if terminal (ec_state c) = None \<and> stop_cause (ec_state c) = None then stopped_core cause c else c)
    \<and> dp_lane (snd (stop_execution cause i d)) = dp_lane d \<and> dp_admission_open (snd (stop_execution cause i d)) = dp_admission_open d
    \<and> reg_active (dp_registry (snd (stop_execution cause i d))) = reg_active (dp_registry d)"
proof -
  obtain c where c: "core_of d i = Some c" "ec_execution_id c = i" "ec_queued_cancel_hook c = None \<or> terminal (ec_state c) \<noteq> None"
    using assms by (auto simp: unhooked_def)
  show ?thesis
  proof (cases "terminal (ec_state c) = None \<and> stop_cause (ec_state c) = None")
    case True
    with c show ?thesis by (intro exI [of _ c]) (auto simp: stop_requested [OF c(1)] run_events Let_def fun_eq_iff)
  next
    case False
    with c stop_not_requested [OF c(1,2)] show ?thesis by (intro exI [of _ c]) (auto simp: fun_eq_iff)
  qed
qed

definition stopping_or_ended :: "deployment \<Rightarrow> execution_id \<Rightarrow> bool" where
  "stopping_or_ended d i \<longleftrightarrow> (\<exists>c. core_of d i = Some c \<and> (stop_cause (ec_state c) \<noteq> None \<or> terminal (ec_state c) \<noteq> None))"

lemma cancel_unhooked:
  assumes "\<forall>i \<in> set is. unhooked d i"
  shows "(\<forall>i \<in> set is. stopping_or_ended (cancel_all_of reason is d) i)
    \<and> (\<forall>j. j \<notin> set is \<longrightarrow> core_of (cancel_all_of reason is d) j = core_of d j)
    \<and> (\<forall>j. stopping_or_ended d j \<longrightarrow> core_of (cancel_all_of reason is d) j = core_of d j)
    \<and> dp_lane (cancel_all_of reason is d) = dp_lane d
    \<and> dp_admission_open (cancel_all_of reason is d) = dp_admission_open d
    \<and> reg_active (dp_registry (cancel_all_of reason is d)) = reg_active (dp_registry d)"
  using assms unfolding cancel_all_of_def
proof (induction "is" arbitrary: d)
  case (Cons i rest)
  let ?d = "snd (stop_execution (CancelCause reason) i d)"
  obtain c where c: "core_of d i = Some c" and d: "core_of ?d = (core_of d)(i \<mapsto>
      if terminal (ec_state c) = None \<and> stop_cause (ec_state c) = None then stopped_core (CancelCause reason) c else c)"
    "dp_lane ?d = dp_lane d" "dp_admission_open ?d = dp_admission_open d" "reg_active (dp_registry ?d) = reg_active (dp_registry d)"
    using stop_unhooked [of d i "CancelCause reason"] Cons.prems by auto
  have "\<forall>k \<in> set rest. unhooked ?d k"
    using Cons.prems c by (auto simp: unhooked_def d(1))
  note IH = Cons.IH [OF this]
  have here: "stopping_or_ended ?d i" by (auto simp: d(1) stopping_or_ended_def)
  have kept: "core_of ?d j = core_of d j" if "stopping_or_ended d j" for j
    using that c by (auto simp: d(1) stopping_or_ended_def)
  have later: "stopping_or_ended ?d j" if "stopping_or_ended d j" for j
    using that kept [OF that] by (simp add: stopping_or_ended_def)
  show ?case
  proof (intro conjI allI ballI impI)
    fix k assume "k \<in> set (i # rest)"
    then consider "k \<in> set rest" | "k = i" by auto
    then show "stopping_or_ended (fold (\<lambda>i d. snd (stop_execution (CancelCause reason) i d)) (i # rest) d) k"
      using IH here by cases (auto simp: stopping_or_ended_def)
  qed (use IH kept later c in \<open>auto simp: d\<close>)
qed simp

lemma dispatcher_stopped_signals:
  "dropped_by (snd (dispatcher_stopped s)) = keys (ls_entries s)"
  "cancelled_by (snd (dispatcher_stopped s)) = filter (\<lambda>i. i \<notin> set (keys (ls_entries s))) (ls_active s)"
  by (simp_all add: dropped_by_def cancelled_by_def dispatcher_stopped_def Let_def List.map_filter_def comp_def)

lemma dispatcher_stopped_lane:
  "ls_queue (fst (dispatcher_stopped s)) = []" "ls_closing (fst (dispatcher_stopped s))"
  "ls_runtime_unavailable (fst (dispatcher_stopped s))" "ls_active (fst (dispatcher_stopped s)) = []"
  by (simp_all add: dispatcher_stopped_def Let_def same_but_permits_fields [OF same_but_permits_ops(2)])

section \<open>Properties\<close>

text \<open>
  C16. A dispatcher that ends strands nobody.  Take any reachable state and let the dispatcher of the
  lane end there.  Every execution that was queued is terminal with the exit of a cancelled runner,
  published to all who wait for it, and is no longer active; every other execution that the lane held
  has been told to stop or has ended; the active executions are those that have a runner; whatever the
  lane did not hold is untouched; and the lane refuses every submission from then on.
\<close>

theorem lost_dispatcher_strands_nobody:
  assumes "reach dep_init (dep_step p) d"
  shows "(\<forall>i \<in> set (ls_queue (lane_of d)). \<exists>c. core_of (dispatcher_gone d) i = Some c
        \<and> ec_terminal_watch c = Some (SumExecutorStopped StopRunnerCancelled) \<and> i \<notin> set (reg_active (dp_registry (dispatcher_gone d))))
    \<and> (\<forall>i \<in> set (ls_active (lane_of d)). stopping_or_ended (dispatcher_gone d) i)
    \<and> set (reg_active (dp_registry (dispatcher_gone d))) = set (dp_started d) \<union> set (dp_running d)
    \<and> (\<forall>i. i \<notin> set (ls_active (lane_of d)) \<longrightarrow> core_of (dispatcher_gone d) i = core_of d i)
    \<and> ls_queue (lane_of (dispatcher_gone d)) = []
    \<and> fst (submit p i sub scope options ticket (dispatcher_gone d))
        = Inl (if dp_admission_open d then SpExecutorUnavailable else SpExecutorShuttingDown)"
proof -
  have inv: "deployment_inv p d" by (rule deployment.reach_inv [OF assms])
  let ?qs = "keys (ls_entries (lane_of d))"
  have qs: "set ?qs = queued d" "distinct ?qs" and active: "queued d \<subseteq> set (ls_active (lane_of d))"
    using deployment_parts(1,2) [OF inv] by (simp_all add: lane_inv_def state_inv_def queue_inv_def)
  define rs where "rs = filter (\<lambda>i. i \<notin> set ?qs) (ls_active (lane_of d))"
  define d1 where "d1 = put_lane (fst (dispatcher_stopped (lane_of d))) d"
  define d2 where "d2 = fold drop_start ?qs d1"
  have d': "dispatcher_gone d = cancel_all_of ExecutorShutdown rs d2"
    using dispatcher_stopped_signals [of "lane_of d"] by (simp add: dispatcher_gone_def d2_def d1_def rs_def case_prod_beta)
  have "droppable d1 k" if "k \<in> set ?qs" for k
  proof -
    have k: "k \<in> queued d" using qs that by simp
    then obtain c where c: "core_of d k = Some c" using deployment_known [OF inv] by blast
    with deployment_core [OF inv c] k core_identity [OF inv c] show ?thesis by (simp add: droppable_def d1_def core_ok_def core_queued_def)
  qed
  then have "\<forall>k \<in> set ?qs. droppable d1 k" by blast
  note dropped = drop_starts [OF qs(2) this, folded d2_def]
  have rs: "k \<notin> queued d" "core_of d2 k = core_of d k" if "k \<in> set rs" for k
    using that dropped qs by (simp_all add: rs_def d1_def)
  have "unhooked d2 k" if k: "k \<in> set rs" for k
  proof -
    have "k \<in> set (ls_active (lane_of d))" using k by (simp add: rs_def)
    then obtain c where c: "core_of d k = Some c" using lane_active_cores [OF inv] by blast
    with deployment_core [OF inv c] rs [OF k] core_identity [OF inv c] show ?thesis
      by (auto simp: unhooked_def core_ok_def core_dead_def split: if_splits)
  qed
  then have "\<forall>k \<in> set rs. unhooked d2 k" by blast
  note cancelled = cancel_unhooked [OF this, of ExecutorShutdown, folded d']
  have queue: "\<exists>c. core_of (dispatcher_gone d) k = Some c \<and> ec_terminal_watch c = Some (SumExecutorStopped StopRunnerCancelled)
      \<and> terminal (ec_state c) \<noteq> None" if k: "k \<in> queued d" for k
  proof -
    obtain c where c: "core_of d k = Some c" using deployment_known [OF inv] k by blast
    with deployment_core [OF inv c] k have "stop_cause (ec_state c) = None" by (simp add: core_ok_def core_queued_def)
    moreover have "core_of d2 k = Some (dropped_core c)" using dropped qs k c by (simp add: d1_def)
    moreover have "core_of (dispatcher_gone d) k = core_of d2 k" using cancelled rs(1) [of k] k by blast
    ultimately show ?thesis by (auto simp: dropped_core_def committed_def Let_def)
  qed
  have reg: "set (reg_active (dp_registry (dispatcher_gone d))) = with_runner d"
    using cancelled dropped qs deployment_parts(7,8) [OF inv] by (auto simp: d1_def)
  have held: "stopping_or_ended (dispatcher_gone d) k" if k: "k \<in> set (ls_active (lane_of d))" for k
  proof (cases "k \<in> queued d")
    case True
    from queue [OF this] show ?thesis unfolding stopping_or_ended_def by blast
  next
    case False
    with k qs have "k \<in> set rs" by (simp add: rs_def)
    with cancelled show ?thesis by blast
  qed
  have others: "core_of (dispatcher_gone d) k = core_of d k" if k: "k \<notin> set (ls_active (lane_of d))" for k
  proof -
    have "k \<notin> set rs" "k \<notin> set ?qs" using k active qs by (auto simp: rs_def)
    with cancelled dropped show ?thesis by (simp add: d1_def)
  qed
  have lane: "lane_of (dispatcher_gone d) = fst (dispatcher_stopped (lane_of d))" "dp_admission_open (dispatcher_gone d) = dp_admission_open d"
    using cancelled dropped by (simp_all add: d1_def)
  have "fst (submit p i sub scope options ticket (dispatcher_gone d))
      = Inl (if dp_admission_open d then SpExecutorUnavailable else SpExecutorShuttingDown)"
    using lane dispatcher_stopped_lane by (simp add: submit_def check_try_admission_for_def)
  moreover have "k \<notin> with_runner d" if "k \<in> queued d" for k using that deployment_parts(7) [OF inv] by blast
  moreover have "\<forall>k \<in> queued d. \<exists>c. core_of (dispatcher_gone d) k = Some c
      \<and> ec_terminal_watch c = Some (SumExecutorStopped StopRunnerCancelled) \<and> k \<notin> set (reg_active (dp_registry (dispatcher_gone d)))"
    using queue calculation(2) unfolding reg by blast
  ultimately show ?thesis using reg held others lane(1) dispatcher_stopped_lane(1) by auto
qed

theorem lost_dispatcher_strands_nobody_witness:
  "\<exists>c. core_of (dispatcher_gone dep4) 1 = Some c \<and> ec_terminal_watch c = Some (SumExecutorStopped StopRunnerCancelled)"
proof -
  have "1 \<in> set (ls_queue (lane_of dep4))" by (simp add: dep4_state dep3_state lane_state3)
  with lost_dispatcher_strands_nobody [OF dep_reach(5), THEN conjunct1] show ?thesis by blast
qed

end
