(* ===== verification/BB_History.thy ===== *)
theory BB_History
  imports BB_Registry
begin

text \<open>
  What the terminal history of the registry says is true, and stays true: each of its records is the exit
  that its execution has, no execution has two records, and what a query for a summary answers is the
  answer of every later query that finds the execution.
\<close>

definition terminal_of :: "registry_state \<Rightarrow> execution_id \<Rightarrow> task_exit_summary option" where
  "terminal_of r i = (case map_of (reg_cores r) i of None \<Rightarrow> None | Some c \<Rightarrow> terminal (ec_state c))"

lemma terminal_of_Some: "terminal_of r i = Some smry \<longleftrightarrow> (\<exists>c. map_of (reg_cores r) i = Some c \<and> terminal (ec_state c) = Some smry)"
  by (auto simp: terminal_of_def split: option.split)

definition history_true :: "registry_state \<Rightarrow> bool" where
  "history_true r \<longleftrightarrow> distinct (map fst (reg_history r)) \<and> (\<forall>(i, smry, at) \<in> set (reg_history r). terminal_of r i = Some smry)"

lemma history_trueD: "history_true r \<Longrightarrow> (i, smry, at) \<in> set (reg_history r) \<Longrightarrow> terminal_of r i = Some smry"
  by (auto simp: history_true_def)

lemma history_true_suffix:
  assumes "history_true r" and "reg_history r = old @ reg_history r'"
    and "\<And>i smry. terminal_of r i = Some smry \<Longrightarrow> terminal_of r' i = Some smry"
  shows "history_true r'"
  unfolding history_true_def
proof
  show "distinct (map fst (reg_history r'))" using assms(1,2) by (simp add: history_true_def)
  have "(i, smry, at) \<in> set (reg_history r)" if "(i, smry, at) \<in> set (reg_history r')" for i smry at
    using assms(2) that by simp
  with history_trueD [OF assms(1)] assms(3)
  show "\<forall>(i, smry, at) \<in> set (reg_history r'). terminal_of r' i = Some smry" by blast
qed

section \<open>Terminal exits are stable\<close>

lemma commit_effect:
  assumes "commit c cell exit = (won, c', cell', [RegistryFinish j smry])"
  shows "terminal (ec_state c) = None" and "terminal (ec_state c') = Some smry" and "j = ec_execution_id c"
  using assms by (auto simp: commit_def commit_locked_def commit_publish_def Let_def split: if_splits prod.splits)

lemma commit_keeps_terminal: "commit c cell exit = (won, c', cell', effects) \<Longrightarrow> terminal (ec_state c) = Some smry \<Longrightarrow>
  terminal (ec_state c') = Some smry"
  by (auto simp: commit_def commit_locked_def)

lemma registry_commit_terminal:
  assumes "registry_commit now stamp j cell exit r = (won, cell', r')" and "terminal_of r i = Some smry"
  shows "terminal_of r' i = Some smry"
proof (cases "map_of (reg_cores r) j")
  case None
  with assms show ?thesis by (simp add: registry_commit_def)
next
  case (Some c)
  obtain w c' ce eff where e: "commit c cell exit = (w, c', ce, eff)" using prod_cases4 by blast
  then have "map_of (reg_cores r') = (map_of (reg_cores r))(j \<mapsto> c')"
    using assms(1) Some by (auto simp: registry_commit_def Let_def map_of_update split: list.splits exec_effect.splits)
  with assms(2) Some commit_keeps_terminal [OF e] show ?thesis by (auto simp: terminal_of_Some)
qed

lemma registry_terminal_stable:
  assumes step: "registry_step s s'" and t: "terminal_of (snd s) i = Some smry"
  shows "terminal_of (snd s') i = Some smry"
proof -
  obtain c where c: "map_of (reg_cores (snd s)) i = Some c" "terminal (ec_state c) = Some smry"
    using t by (auto simp: terminal_of_Some)
  from step c show ?thesis
  proof cases
    case (create j r d t)
    with c(1) have "j \<noteq> i" using map_of_in_keys [of "reg_cores r" i c] by auto
    with create c show ?thesis by (simp add: terminal_of_Some map_of_update)
  next
    case (core_op r j d d' t)
    with c show ?thesis by (auto simp: terminal_of_Some map_of_update)
  next
    case (register j r res r' t)
    with c core_register_keeps [OF register(3), of i c] show ?thesis by (auto simp: terminal_of_Some)
  next
    case (terminal_commit t j cell exit r won cell' r')
    with registry_commit_terminal [OF terminal_commit(3)] t show ?thesis by simp
  next
    case (subscribed r res r' t)
    with c show ?thesis by (auto simp: registry_subscribe_def terminal_of_Some split: option.splits sum.splits)
  next
    case (cancel_many selector reason r report r' t)
    with c cancel_controls_terminal [of r i c reason "select_controls selector r"] show ?thesis
      by (auto simp: cancel_snapshot_def terminal_of_Some)
  next
    case (owners_gone t r)
    with c cancel_controls_terminal [of r i c ExecutorShutdown "reg_active r"] show ?thesis
      by (auto simp: lifetime_drop_def terminal_of_Some)
  next
    case (resumed_all r n r' t)
    with c show ?thesis
      by (auto simp: registry_notify_resumed_def map_of_map_keyed notify_resumed_def terminal_of_Some simp del: map_map)
  qed (auto simp: event_stream_drop_def registry_history_def registry_summary_def Let_def terminal_of_Some)
qed

interpretation registry_terminal: stable_observation registry_step "\<lambda>s. terminal_of (snd s) i"
  by unfold_locales (rule registry_terminal_stable)

section \<open>The history is true\<close>

lemma record_effects_history: "reg_history (fold record_effect effects r) = reg_history r"
proof (induction effects arbitrary: r)
  case (Cons e effects)
  then show ?case by (cases e) (simp_all add: emit_def)
qed simp

lemma cancel_controls_history: "reg_history (snd (cancel_controls reason ids r)) = reg_history r"
proof (induction ids arbitrary: r)
  case (Cons i rest)
  have "reg_history (fst (snd (control_cancel reason i r))) = reg_history r"
    by (auto simp: control_cancel_def record_effects_history split: option.split prod.split)
  with Cons show ?case by (simp add: case_prod_beta)
qed simp

lemma finish_history:
  obtains old h where "reg_history r = old @ h"
    and "reg_history (registry_finish now stamp i smry r) = h \<or> reg_history (registry_finish now stamp i smry r) = h @ [(i, smry, stamp)]"
proof -
  let ?h = "evict_expired (terminal_history_ttl (reg_limits r)) now (reg_history r)"
    and ?n = "unat (terminal_history_capacity (reg_limits r))"
  obtain old where old: "reg_history r = old @ ?h" using evict_suffix by blast
  have result: "reg_history (registry_finish now stamp i smry r) =
      (if ?n = 0 then ?h else (if length ?h = ?n then tl ?h else ?h) @ [(i, smry, stamp)])"
    by (simp add: registry_finish_def Let_def emit_def)
  show thesis
  proof (cases "?n \<noteq> 0 \<and> length ?h = ?n")
    case True
    then have "?h = [hd ?h] @ tl ?h" by (cases ?h) auto
    with old have "reg_history r = (old @ [hd ?h]) @ tl ?h" by (metis append.assoc)
    moreover have "reg_history (registry_finish now stamp i smry r) = tl ?h @ [(i, smry, stamp)]" using True result by simp
    ultimately show thesis by (blast intro: that)
  next
    case False
    then have "reg_history (registry_finish now stamp i smry r) = ?h
        \<or> reg_history (registry_finish now stamp i smry r) = ?h @ [(i, smry, stamp)]" using result by auto
    with old show thesis by (rule that)
  qed
qed

lemma history_true_finish:
  assumes "history_true r" and "terminal_of r i = None" and "\<And>j x. terminal_of r j = Some x \<Longrightarrow> terminal_of r1 j = Some x"
    and "terminal_of r1 i = Some smry" and "reg_history r1 = reg_history r"
  shows "history_true (registry_finish now stamp i smry r1)"
proof -
  let ?r = "registry_finish now stamp i smry r1"
  obtain old h where h: "reg_history r = old @ h" and h': "reg_history ?r = h \<or> reg_history ?r = h @ [(i, smry, stamp)]"
    using finish_history [of r1] assms(5) by metis
  have same: "terminal_of ?r j = terminal_of r1 j" for j by (simp add: terminal_of_def)
  have "history_true (r1\<lparr>reg_history := h\<rparr>)"
    using history_true_suffix [OF assms(1), of old "r1\<lparr>reg_history := h\<rparr>"] h assms(3) by (simp add: terminal_of_def)
  then have "distinct (map fst h)" and old_records: "\<And>j x at. (j, x, at) \<in> set h \<Longrightarrow> terminal_of r1 j = Some x"
    by (auto simp: history_true_def terminal_of_def)
  moreover have "(i, x, at) \<notin> set h" for x at
    using history_trueD [OF assms(1), of i x at] h assms(2) by auto
  then have "i \<notin> fst ` set h" by force
  ultimately show ?thesis using h' assms(4) unfolding history_true_def same by auto
qed

lemma history_true_commit:
  assumes inv: "registry_inv (t, r)" and "history_true r" and commit: "registry_commit t t i cell exit r = (won, cell', r')"
  shows "history_true r'"
proof (cases "map_of (reg_cores r) i")
  case None
  with assms show ?thesis by (simp add: registry_commit_def)
next
  case (Some c)
  obtain w c' ce eff where e: "commit c cell exit = (w, c', ce, eff)" using prod_cases4 by blast
  define r1 where "r1 = r\<lparr>reg_cores := AList.update i c' (reg_cores r)\<rparr>"
  have kept: "terminal_of r1 j = Some x" if "terminal_of r j = Some x" for j x
    using that Some commit_keeps_terminal [OF e] by (auto simp: terminal_of_Some r1_def map_of_update)
  have r': "r' = (case eff of [RegistryFinish j smry] \<Rightarrow> registry_finish t t j smry r1 | _ \<Rightarrow> r1)"
    using commit Some e by (auto simp: registry_commit_def Let_def r1_def split: list.splits exec_effect.splits)
  show ?thesis
  proof (cases "\<exists>j smry. eff = [RegistryFinish j smry]")
    case True
    then obtain j smry where eff: "eff = [RegistryFinish j smry]" by blast
    note facts = commit_effect [OF e [unfolded eff]]
    have "j = i" using inv Some facts(3) by (simp add: registry_inv_def cores_ok_def)
    moreover have "terminal_of r i = None" using Some facts(1) by (simp add: terminal_of_def)
    moreover have "terminal_of r1 i = Some smry" using facts(2) by (simp add: terminal_of_def r1_def map_of_update)
    ultimately show ?thesis
      using history_true_finish [OF assms(2) _ kept, of i smry] by (simp add: r' eff r1_def)
  next
    case False
    then have "r' = r1" using r' by (auto split: list.splits exec_effect.splits)
    with history_true_suffix [OF assms(2), of "[]" r1] kept show ?thesis by (simp add: r1_def)
  qed
qed

lemma history_true_step:
  assumes step: "registry_step s s'" and inv: "registry_inv s" "history_true (snd s)"
  shows "history_true (snd s')"
proof -
  have suffix: "history_true (snd s')" if "reg_history (snd s) = old @ reg_history (snd s')" for old
    using history_true_suffix [OF inv(2) that registry_terminal_stable [OF step]] .
  from step show ?thesis
  proof cases
    case (register i r res r' t)
    have "reg_history r2 = reg_history r0" if "registry_register c r0 = (x, r2)" for c x r0 r2
      using that by (auto simp: registry_register_def Let_def emit_def split: if_splits option.splits)
    then have "reg_history r' = reg_history r"
      using register(3) by (fastforce simp: core_register_def Let_def split: option.splits if_splits sum.splits prod.splits)
    with register suffix [of "[]"] show ?thesis by simp
  next
    case (terminal_commit t i cell exit r won cell' r')
    with history_true_commit inv show ?thesis by auto
  next
    case (subscribed r res r' t)
    then have "reg_history r' = reg_history r" by (auto simp: registry_subscribe_def split: option.splits sum.splits)
    with subscribed suffix [of "[]"] show ?thesis by simp
  next
    case (read_history t r records r')
    then have "reg_history r' = evict_expired (terminal_history_ttl (reg_limits r)) t (reg_history r)"
      by (auto simp: registry_history_def Let_def)
    with read_history suffix evict_suffix show ?thesis by (metis snd_conv)
  next
    case (read_summary t i r res r')
    then have "reg_history r' = evict_expired (terminal_history_ttl (reg_limits r)) t (reg_history r)"
      by (auto simp: registry_summary_def Let_def)
    with read_summary suffix evict_suffix show ?thesis by (metis snd_conv)
  next
    case (cancel_many selector reason r report r' t)
    with suffix [of "[]"] cancel_controls_history [of reason "select_controls selector r" r] show ?thesis
      by (simp add: cancel_snapshot_def)
  next
    case (owners_gone t r)
    with suffix [of "[]"] cancel_controls_history [of ExecutorShutdown "reg_active r" r] show ?thesis
      by (simp add: lifetime_drop_def)
  qed (use suffix [of "[]"] in \<open>auto simp: event_stream_drop_def registry_notify_resumed_def\<close>)
qed

lemma history_true_init: "registry_init s \<Longrightarrow> history_true (snd s)"
  by (auto simp: registry_init_def registry_new_def history_true_def)

interpretation histories: invariant_system registry_init registry_step "\<lambda>s. registry_inv s \<and> history_true (snd s)"
  by unfold_locales (blast intro: registry_inv_init history_true_init registry_inv_step history_true_step)+

lemma find_set: "find P xs = Some x \<Longrightarrow> P x \<and> x \<in> set xs"
  by (induction xs) (auto split: if_splits)

section \<open>Properties\<close>

text \<open>An execution that was registered and has ended.\<close>

definition reg5 where "reg5 = snd (snd (registry_commit 0 0 4 None (Completed (0 :: nat) :: (nat, nat) task_exit) reg4))"

lemma reg_reach5: "reach registry_init registry_step (0, reg5)"
proof (rule reach_step [OF reg_reach4])
  show "registry_step (0, reg4) (0, reg5)"
    unfolding reg5_def
    by (rule registry_step.terminal_commit [where won = "fst (registry_commit 0 0 4 None (Completed (0 :: nat) :: (nat, nat) task_exit) reg4)"
          and cell' = "fst (snd (registry_commit 0 0 4 None (Completed (0 :: nat) :: (nat, nat) task_exit) reg4))"]) simp
qed

text \<open>
  C18. The terminal history tells the truth, for good.  In every reachable state of the registry a query
  for the summary of an execution that finds one answers with the exit that the execution has, and
  with the exit it will have after whatever happens later; and the history, read at any time, holds at
  most one record of an execution and only true ones.
\<close>

theorem history_tells_the_truth:
  assumes "reach registry_init registry_step s" and "registry_step\<^sup>*\<^sup>* s s'"
  shows "(\<forall>smry. fst (registry_summary now i (snd s)) = Some smry \<longrightarrow> terminal_of (snd s') i = Some smry)
    \<and> distinct (map fst (fst (registry_history now (snd s))))
    \<and> (\<forall>(j, smry) \<in> set (fst (registry_history now (snd s))). terminal_of (snd s') j = Some smry)"
proof -
  have ok: "history_true (snd s)" using histories.reach_inv [OF assms(1)] by simp
  let ?h = "evict_expired (terminal_history_ttl (reg_limits (snd s))) now (reg_history (snd s))"
  obtain old where old: "reg_history (snd s) = old @ ?h" using evict_suffix by blast
  have later: "terminal_of (snd s') j = Some smry" if "(j, smry, at) \<in> set ?h" for j smry at
  proof -
    have "(j, smry, at) \<in> set (reg_history (snd s))" using old that by (metis Un_iff set_append)
    from registry_terminal.steps_stable [OF assms(2) history_trueD [OF ok this]] show ?thesis .
  qed
  have "distinct (map fst ?h)" using ok old unfolding history_true_def by (metis distinct_append map_append)
  moreover have "map fst (fst (registry_history now (snd s))) = map fst ?h"
    by (simp add: registry_history_def Let_def case_prod_beta)
  moreover have "terminal_of (snd s') i = Some smry" if found: "fst (registry_summary now i (snd s)) = Some smry" for smry
  proof -
    from found obtain j at where e: "find (\<lambda>(j, _, _). j = i) (rev ?h) = Some (j, smry, at)"
      by (auto simp: registry_summary_def Let_def)
    from find_set [OF e] have "(i, smry, at) \<in> set ?h" by auto
    then show ?thesis by (rule later)
  qed
  moreover have "terminal_of (snd s') j = Some smry" if "(j, smry) \<in> set (fst (registry_history now (snd s)))" for j smry
    using that later by (auto simp: registry_history_def Let_def)
  ultimately show ?thesis by auto
qed

theorem history_tells_the_truth_witness:
  "fst (registry_summary 0 4 reg5) = Some SumCompleted \<and> terminal_of (snd (5, lifetime_drop reg5)) 4 = Some SumCompleted"
proof -
  have found: "fst (registry_summary 0 4 (snd (0 :: nat, reg5))) = Some SumCompleted"
    by (simp add: reg5_def reg_defs registry_commit_def commit_def commit_locked_def commit_publish_def result_store_def
        registry_finish_def registry_summary_def evict_expired_def emit_def snapshot_def nanos_per_sec_def duration_since_def)
  have "registry_step\<^sup>*\<^sup>* (0, reg5) (5, lifetime_drop reg5)"
    using registry_step.tick [of 0 reg5 5] registry_step.owners_gone [of 5 reg5] by (metis add_0 converse_rtranclp_into_rtranclp r_into_rtranclp)
  from history_tells_the_truth [OF reg_reach5 this, of 0 4] found show ?thesis by simp
qed

end
