(* ===== verification/BB_Executor.thy ===== *)
theory BB_Executor
  imports BB_Beaver BB_Submission_Claims BB_History
begin





text \<open>\<open>execution_control\<close>, \<open>execution_summary\<close> and the typed half of \<open>cancel_all\<close>.\<close>

definition execution_control :: "execution_id \<Rightarrow> registry_state \<Rightarrow> execution_id option" where
  "execution_control i r = (if i \<in> set (reg_active r) then Some i else None)"

definition active_controls :: "registry_state \<Rightarrow> execution_id list" where
  "active_controls r = reg_active r"

definition cancel_all_typed :: "deployment \<Rightarrow> deployment" where
  "cancel_all_typed d = cancel_all_of UserRequested (active_controls (dp_registry d)) d"

section \<open>Facts\<close>


lemma snapshot_id [simp]: "snap_execution_id (snapshot c) = ec_execution_id c"
  by (simp add: snapshot_def)

section \<open>Properties\<close>



end
