(* ===== verification/BB_Handles.thy ===== *)
theory BB_Handles
  imports BB_Lifecycle
begin

text \<open>
  What owners and bodies of an execution do to its core through their handles: \<open>TaskHandle\<close>,
  \<open>TaskControlHandle\<close>, \<open>CancelOnDrop\<close>, \<open>WorkContext\<close> and \<open>AttemptContext\<close>.  A future is a poll: \<open>None\<close> means
  pending, and the state in which it is polled again is part of what it returns.  The result: a join
  answers once the runner has finished, with the exit the execution has, and only once.
\<close>

section \<open>Owners\<close>

text \<open>\<open>wait\<close> reads the terminal watch; the core it borrows keeps the sender alive.\<close>

definition wait_poll :: "exec_core \<Rightarrow> task_exit_summary option" where
  "wait_poll c = ec_terminal_watch c"

text \<open>
  \<open>join\<close> looks at the state once, when it is first polled; afterwards it waits for the watch.  In both
  cases it then takes the result out of the cell.
\<close>

datatype (plugins only: code size) join_stage = JoinFresh | JoinWaiting

definition join_take ::
  "('t, 'e) result_cell \<Rightarrow> (join_result_error + ('t, 'e) task_exit) \<times> ('t, 'e) result_cell" where
  "join_take cell =
     (case result_take cell of
        (None, cell') \<Rightarrow> (Inl AlreadyTaken, cell')
      | (Some exit, cell') \<Rightarrow> (Inr exit, cell'))"

definition join_poll ::
  "join_stage \<Rightarrow> exec_core \<Rightarrow> ('t, 'e) result_cell
   \<Rightarrow> (join_result_error + ('t, 'e) task_exit) option \<times> join_stage \<times> ('t, 'e) result_cell" where
  "join_poll stage c cell =
     (let taken = (case join_take cell of (answer, cell') \<Rightarrow> (Some answer, JoinWaiting, cell'))
      in if stage = JoinFresh \<and> is_terminal (public_state (ec_state c)) then taken
         else case wait_poll c of
                None \<Rightarrow> (None, JoinWaiting, cell)
              | Some _ \<Rightarrow> taken)"

text \<open>The request is made before the future exists; dropping the future does not take it back.\<close>

definition cancel_and_wait :: "cancel_reason \<Rightarrow> exec_core \<Rightarrow> exec_core \<times> exec_effect list" where
  "cancel_and_wait reason c = snd (cancel reason c)"

definition cancel_on_drop_dropped :: "cancel_reason \<Rightarrow> exec_core \<Rightarrow> exec_core \<times> exec_effect list" where
  "cancel_on_drop_dropped reason c = snd (cancel reason c)"

section \<open>Bodies\<close>

definition context_begin_attempt :: "u32 \<Rightarrow> exec_core \<Rightarrow> exec_core \<times> exec_effect list" where
  "context_begin_attempt attempt c = set_active_state (Running attempt) (begin_attempt attempt c)"

text \<open>
  \<open>resumed_after\<close>: the first poll compares the epoch before it looks for a cancellation; when it is woken,
  the cancellation is looked at first.
\<close>

datatype (plugins only: code size) cancelled_error = CancelledError

definition resumed_epoch :: "u64 \<Rightarrow> exec_core \<Rightarrow> (cancelled_error + u64) option" where
  "resumed_epoch observed c = (if ec_resume_epoch c \<noteq> observed then Some (Inr (ec_resume_epoch c)) else None)"

definition resumed_after_first :: "u64 \<Rightarrow> exec_core \<Rightarrow> (cancelled_error + u64) option" where
  "resumed_after_first observed c =
     (case resumed_epoch observed c of
        Some answer \<Rightarrow> Some answer
      | None \<Rightarrow> if ec_cancellation c then Some (Inl CancelledError) else None)"

definition resumed_after_woken :: "u64 \<Rightarrow> exec_core \<Rightarrow> (cancelled_error + u64) option" where
  "resumed_after_woken observed c =
     (if ec_cancellation c then Some (Inl CancelledError) else resumed_epoch observed c)"

text \<open>\<open>AttemptContext\<close>: what an attempt may know of its time.\<close>

definition attempt_elapsed :: "instant \<Rightarrow> instant \<Rightarrow> duration" where
  "attempt_elapsed accepted_at now = duration_since now accepted_at"

definition attempt_remaining_budget :: "instant option \<Rightarrow> instant \<Rightarrow> duration option" where
  "attempt_remaining_budget limit now = map_option (\<lambda>at. duration_since at now) limit"

section \<open>Facts\<close>

lemma notify_resumed_epoch: "ec_resume_epoch (notify_resumed c) = ec_resume_epoch c + 1"
proof (cases "unat (ec_resume_epoch c) < 2 ^ 64 - 1")
  case False
  with unsigned_less [of "ec_resume_epoch c", where 'a = nat] have "unat (ec_resume_epoch c) = unat (- 1 :: u64)" by (simp add: unsigned_minus_1_eq_mask mask_eq_exp_minus_1)
  then have "ec_resume_epoch c = - 1" by (simp only: word_unat_eq_iff)
  then show ?thesis by (simp add: notify_resumed_def checked_add_def)
qed (simp add: notify_resumed_def checked_add_def)

lemma notify_resumed_times: "ec_resume_epoch ((notify_resumed ^^ n) c) = ec_resume_epoch c + of_nat n"
  by (induction n) (simp_all add: notify_resumed_epoch)

lemma notify_resumed_cancellation: "ec_cancellation ((notify_resumed ^^ n) c) = ec_cancellation c"
  by (induction n) (simp_all add: notify_resumed_def)

text \<open>A body that waits for a resume notification is given one, unless it has missed a whole round of them.\<close>

lemma resume_is_not_missed:
  assumes "0 < n" and "n < 2 ^ 64" and "\<not> ec_cancellation c"
  shows "resumed_after_woken (ec_resume_epoch c) ((notify_resumed ^^ n) c) = Some (Inr (ec_resume_epoch c + of_nat n))"
proof -
  have "unat (of_nat n :: u64) = n" using assms(2) by (simp add: unat_of_nat take_bit_nat_eq_self)
  then have "(of_nat n :: u64) \<noteq> 0" using assms(1) by (metis less_numeral_extra(3) unat_0)
  then show ?thesis
    using assms(3) by (simp add: resumed_after_woken_def resumed_epoch_def notify_resumed_times notify_resumed_cancellation)
qed

text \<open>An accepted cancellation through a handle is seen by the body, and by every later request.\<close>

lemma cancel_and_wait_requests:
  assumes "terminal (ec_state c) = None" and "stop_cause (ec_state c) = None"
  shows "stop_cause (ec_state (fst (cancel_and_wait reason c))) = Some (CancelCause reason)
    \<and> ec_cancellation (fst (cancel_and_wait reason c))"
  using assms
  by (auto simp: cancel_and_wait_def cancel_def request_stop_def request_stop_mark_def request_stop_publish_def Let_def)

section \<open>Properties\<close>

text \<open>
  C10. Joining an execution answers once its runner has finished, whenever the join began.  In
  every reachable state a pending join has taken nothing and the runner has not finished; an exit it
  answers with is the one the execution has, no result was delivered before, and the delivery is a
  step of the execution after which every join answers that the result is taken; and that it was taken is said only
  when it was delivered.
\<close>

theorem join_answers:
  assumes "reach exec_init exec_step s" and "join_poll stage (sys_core s) (sys_cell s) = (answer, stage', cell')"
  shows "(answer = None \<longrightarrow> sys_runner s \<noteq> RunnerFinished \<and> cell' = sys_cell s)
    \<and> (\<forall>exit. answer = Some (Inr exit) \<longrightarrow>
        terminal (ec_state (sys_core s)) = Some (summary exit) \<and> sys_delivered s = []
        \<and> exec_step s (s\<lparr>sys_cell := cell', sys_delivered := [exit]\<rparr>)
        \<and> fst (join_poll JoinFresh (sys_core s) cell') = Some (Inl AlreadyTaken))
    \<and> (answer = Some (Inl AlreadyTaken) \<longrightarrow>
        (\<exists>exit. sys_delivered s = [exit] \<and> terminal (ec_state (sys_core s)) = Some (summary exit)))"
proof -
  have inv: "core_wf (sys_core s)" "result_inv s" "runner_inv s"
    using lifecycle.reach_inv [OF assms(1)] by (simp_all add: exec_inv_def)
  note ended = core_wf_terminal_iff [OF inv(1)]
  have "sys_runner s = RunnerFinished \<Longrightarrow> ec_terminal_watch (sys_core s) \<noteq> None"
    using runner_end_is_terminal [OF assms(1)] by blast
  then have pending: "answer = None \<Longrightarrow> sys_runner s \<noteq> RunnerFinished \<and> cell' = sys_cell s"
    using assms(2) by (auto simp: join_poll_def wait_poll_def Let_def split: if_splits option.splits prod.splits)
  have taken: "join_take (sys_cell s) = (r, cell') \<and> terminal (ec_state (sys_core s)) \<noteq> None" if "answer = Some r" for r
    using assms(2) that ended inv(1)
    by (auto simp: join_poll_def wait_poll_def core_wf_def Let_def split: if_splits option.splits prod.splits)
  have given: "terminal (ec_state (sys_core s)) = Some (summary exit) \<and> sys_delivered s = []
      \<and> exec_step s (s\<lparr>sys_cell := cell', sys_delivered := [exit]\<rparr>)
      \<and> fst (join_poll JoinFresh (sys_core s) cell') = Some (Inl AlreadyTaken)" if a: "answer = Some (Inr exit)" for exit
  proof -
    have cell: "sys_cell s = Some exit" "cell' = None" and "terminal (ec_state (sys_core s)) \<noteq> None"
      using taken [OF a] by (auto simp: join_take_def result_take_def split: option.splits)
    then have t: "terminal (ec_state (sys_core s)) = Some (summary exit)" "sys_delivered s = []" and "is_terminal (public_state (ec_state (sys_core s)))"
      using inv(2) ended by (auto simp: result_inv_def)
    moreover from this cell have "try_join (sys_core s) (sys_cell s) = (Inr (Some exit), cell')"
      by (simp add: try_join_def result_take_def)
    ultimately show ?thesis
      using exec_step.result_joined [of s exit cell'] cell by (simp add: join_poll_def join_take_def result_take_def)
  qed
  have gone: "\<exists>exit. sys_delivered s = [exit] \<and> terminal (ec_state (sys_core s)) = Some (summary exit)"
    if a: "answer = Some (Inl AlreadyTaken)"
    using taken [OF a] inv(2) by (auto simp: join_take_def result_take_def result_inv_def split: option.splits)
  show ?thesis using pending given gone by blast
qed

theorem join_answers_witness:
  "fst (join_poll JoinWaiting (sys_core run6p) (sys_cell run6p)) = Some (Inr (Cancelled UserRequested))
   \<and> terminal (ec_state (sys_core run6p)) = Some (SumCancelled UserRequested)"
proof -
  have r: "reach exec_init exec_step run6p" by (rule reach_step [OF run_reach6 run_steps6p])
  have "join_poll JoinWaiting (sys_core run6p) (sys_cell run6p) = (Some (Inr (Cancelled UserRequested)), JoinWaiting, None)"
    by (simp add: join_poll_def wait_poll_def join_take_def run_defs core_compute)
  with join_answers [OF r this] show ?thesis by simp
qed

end
