(* ===== verification/Spec2Isabelle.thy ===== *)
theory Spec2Isabelle
  imports BB_Lifecycle BB_Registry BB_Lane_Props BB_Lane_Waiters BB_Dam_Claims BB_Retry_Props BB_Recurring_Props BB_Service_Props
    BB_Slot_Props BB_Scope_Lane_Claims BB_Beaver_Props BB_Builders BB_Lane_Loss BB_Executor BB_Handles
begin

text \<open>
  A verification library of \<open>busybeaver\<close>, a Rust library that runs user work on Tokio under structured
  supervision.  It models the library's own logic as executable HOL functions and transition systems and
  proves what makes it correct.  Paths below are relative to \<open>src/src\<close>.

  \<^bold>\<open>The program.\<close>  A \<open>Beaver\<close> (\<open>beaver.rs\<close>) is an executor.  It owns bounded lanes (\<open>lane.rs\<close>), scopes
  (\<open>scope.rs\<close>), task slots (\<open>slot.rs\<close>), legacy queues called dams (\<open>dam.rs\<close>), one registry of executions and
  one shutdown (\<open>shutdown.rs\<close>).  Everything it runs is an execution (\<open>execution.rs\<close>): a state machine with
  one terminal exit, a typed result that is delivered once, a set of tracked children and a stop request
  that is accepted once.  What runs inside an execution is a future, a retry (\<open>retry.rs\<close>), a recurring task
  (\<open>recurring.rs\<close>) or a service (\<open>service.rs\<close>).  A lane queues executions by priority and ordering key and starts
  them; a scope groups submissions to a lane into generations that can be rotated and cancelled together; a
  slot keeps one current execution that newer revisions replace; a dam runs legacy tasks (\<open>task.rs\<close> and
  the four files of its kinds) one after the other.

  \<^bold>\<open>Theories and sources.\<close>

  \<^item> \<^theory_text>\<open>BB_Prelude\<close>: durations, instants, checked and saturating machine arithmetic, hash maps as association
    lists, ordered maps as sorted ones, reachability, and the two locales every transition system interprets.
  \<^item> \<^theory_text>\<open>BB_Types\<close>: \<open>error.rs\<close>, \<open>ids.rs\<close>, \<open>work_result.rs\<close>, the limits of \<open>observation.rs\<close>, and the states, exits,
    summaries and failures of \<open>execution.rs\<close>, \<open>retry.rs\<close>, \<open>recurring.rs\<close>, \<open>service.rs\<close> and \<open>shutdown.rs\<close>.
  \<^item> \<^theory_text>\<open>BB_Display\<close>: what the \<open>Display\<close> implementations print.
  \<^item> \<^theory_text>\<open>BB_Execution\<close>, \<^theory_text>\<open>BB_Lifecycle\<close>: \<open>ExecutionCore\<close>, \<open>ResultCell\<close>, \<open>ChildSet\<close>, and one execution with its runner,
    handles and children as the transition system \<open>exec_step\<close>.
  \<^item> \<^theory_text>\<open>BB_Handles\<close>: the handles, controls and contexts of \<open>execution.rs\<close> on top of a core.
  \<^item> \<^theory_text>\<open>BB_Registry\<close>: \<open>ExecutionRegistry\<close> of \<open>execution.rs\<close> with the subscriptions of \<open>observation.rs\<close>.
    \<^theory_text>\<open>BB_History\<close>: its terminal history compared with the exits of the executions.
  \<^item> \<^theory_text>\<open>BB_Lane\<close>, \<^theory_text>\<open>BB_Lane_Inv\<close>, \<^theory_text>\<open>BB_Lane_Fair\<close>, \<^theory_text>\<open>BB_Lane_Props\<close>, \<^theory_text>\<open>BB_Lane_Waiters\<close>: \<open>LaneState\<close> and \<open>LaneShared\<close> of
    \<open>lane.rs\<close> as \<open>lane_step\<close>; its invariant; the rank that bounds how often an entry is overtaken; its
    properties; the waiting producers as \<open>spawn_step\<close>.
  \<^item> \<^theory_text>\<open>BB_Submission\<close>, \<^theory_text>\<open>BB_Submission_Props\<close>, \<^theory_text>\<open>BB_Submission_Claims\<close>: lane, registry and executions over one
    state, from preparation to the terminal commit, as \<open>dep_step\<close>.
  \<^item> \<^theory_text>\<open>BB_Lane_Loss\<close>: a lane whose dispatcher ends, over the same state: \<open>DispatcherGuard\<close> and the drop of \<open>LaneCore\<close>.
  \<^item> \<^theory_text>\<open>BB_Scope\<close>, \<^theory_text>\<open>BB_Scope_Props\<close>, \<^theory_text>\<open>BB_Scope_Tree\<close>: the objects of \<open>scope.rs\<close> as a store with \<open>scope_step\<close>, their
    invariant, and the tree of child scopes.
  \<^item> \<^theory_text>\<open>BB_Scope_Lane\<close>, \<^theory_text>\<open>BB_Scope_Lane_Claims\<close>: scopes over a lane, as \<open>world_step\<close>.
  \<^item> \<^theory_text>\<open>BB_Slot\<close>, \<^theory_text>\<open>BB_Slot_Props\<close>: \<open>slot.rs\<close> as \<open>slot_step\<close>.
  \<^item> \<^theory_text>\<open>BB_Range\<close>, \<^theory_text>\<open>BB_Tasks\<close>: \<open>range_interval_task.rs\<close>, \<open>fixed_count_task.rs\<close>, \<open>time_interval_task.rs\<close>,
    \<open>periodic_task.rs\<close>, \<open>task.rs\<close>.
  \<^item> \<^theory_text>\<open>BB_Dam\<close>, \<^theory_text>\<open>BB_Dam_Props\<close>, \<^theory_text>\<open>BB_Dam_Claims\<close>: \<open>dam.rs\<close> as \<open>dam_step\<close>, the answers of listeners and work being inputs.
  \<^item> \<^theory_text>\<open>BB_Retry\<close>, \<^theory_text>\<open>BB_Retry_Props\<close>: \<open>retry.rs\<close>.  \<^theory_text>\<open>BB_Restart\<close>: the restart budget that \<open>recurring.rs\<close> and
    \<open>service.rs\<close> share.  \<^theory_text>\<open>BB_Recurring\<close>, \<^theory_text>\<open>BB_Recurring_Props\<close>: \<open>recurring.rs\<close>.  \<^theory_text>\<open>BB_Service\<close>,
    \<^theory_text>\<open>BB_Service_Props\<close>: \<open>service.rs\<close>.
  \<^item> \<^theory_text>\<open>BB_Builders\<close>: the setters of all builders and option records.
  \<^item> \<^theory_text>\<open>BB_Shutdown\<close>, \<^theory_text>\<open>BB_Beaver\<close>, \<^theory_text>\<open>BB_Beaver_Props\<close>: \<open>shutdown.rs\<close> and \<open>beaver.rs\<close>; the executor is \<open>beaver_step\<close>.
    \<^theory_text>\<open>BB_Executor\<close>: \<open>Beaver::snapshot\<close> and the queries of the index of active executions.

  \<^bold>\<open>How code becomes definitions.\<close>  A struct is a record, an enum a datatype with the source's constructors, an
  error a value of a sum.  Integers keep their width (\<open>u32\<close>, \<open>u64\<close>, \<open>usize\<close> are words) with the source's checked,
  saturating or wrapping operations; durations and instants are nanoseconds with the bounds of the standard
  library (an instant at or beyond \<open>instant_limit\<close> is the overflow of \<open>checked_add\<close>).  A \<open>HashMap\<close> is an
  association list with distinct keys, a \<open>BTreeMap\<close> one sorted by key.  Identities are random UUIDs in the code and
  natural numbers here: operations that draw one take it as an argument, and where freshness matters the
  step that draws it requires it.  \<open>Arc\<close> is sharing in a store; a \<open>Weak\<close> reference is an identity together
  with the input that says whether the object is alive.

  \<^bold>\<open>Atomicity.\<close>  The code protects its state by mutexes and atomics.  Each region under a lock, and each atomic
  access that another thread can observe in between, is one function; what a region does after unlocking
  (events, notifications, hooks) is returned as a list of effects.  The transition systems take those regions as their
  steps, in any order: \<open>exec_step\<close> (runner, handles, children), \<open>registry_step\<close>, \<open>lane_step\<close> and \<open>spawn_step\<close>,
  \<open>dam_step\<close> (callers between two accesses, the worker at every point, in the attempt loops too), \<open>slot_step\<close> and
  \<open>scope_step\<close> (supervisors cut at their lock regions and waits), \<open>beaver_step\<close>.  Two places are coarser.
  \<open>collect_scope_controls\<close>, which locks one scope after the other, is one step.  \<open>dep_step\<close> and \<open>world_step\<close> take
  whole calls one after the other; what goes wrong when their lock regions interleave is shown on the finer systems
  (\<open>refused_registration_keeps_running\<close>, \<open>late_registration_leaks\<close>).

  \<^bold>\<open>Inputs.\<close>  User code (work, factories, hooks, predicates, listeners) may do anything: how it answers, panics
  included, is an argument.  So are clock readings, which of several ready futures \<open>select!\<close> takes, whether the
  runtime still accepts tasks, and what a part outside the model of a theory answers (the lane, for scopes and
  slots alone).  Floating point is a record \<open>float_ops\<close> of operations about which nothing is assumed.
  Tokio's greatest channel capacity is the argument \<open>max_permits\<close>.  Of Tokio the model uses what it documents:
  a notification permit is kept until it is taken, a watch channel keeps the last value, a bounded channel is first in
  first out, a dropped future runs its destructors, \<open>JoinHandle\<close> reports panics and aborts.  The locks recover from
  poisoning, or guard regions that cannot panic (those of \<open>dam.rs\<close>, \<open>scope.rs\<close> and \<open>slot.rs\<close>); in \<open>beaver.rs\<close>, where a region can panic and the code does not
  recover, the poison flags are part of the state.

  \<^bold>\<open>Locales.\<close>  \<open>invariant_system\<close> (an invariant that holds initially and is kept by every step holds in every reachable
  state) is interpreted by every transition system: \<open>lifecycle\<close>, \<open>registry\<close>, \<open>lane_system\<close>, \<open>waiters\<close>, \<open>dam\<close>,
  \<open>slots\<close>, \<open>scopes\<close>, \<open>scope_trees\<close>, \<open>deployment\<close>, \<open>worlds\<close>, \<open>histories\<close>, \<open>executors\<close> and a few more.  \<open>stable_observation\<close> (an
  observation that, once made, no step changes) is the terminal exit of an execution (\<open>terminal_exit\<close>, and \<open>registry_terminal\<close> for
  those the registry knows), the first stop cause (\<open>first_stop\<close>), the accepted shutdown options (\<open>shutdowns\<close>) and the
  poison flag (\<open>poison\<close>).  \<open>restart_budget\<close> is the contract of a grant function, provided by \<open>restart_admit\<close> of recurring
  tasks (\<open>restarts\<close>) and by \<open>service_grant\<close> of services (\<open>service_restarts\<close>).

  \<^bold>\<open>What is shown.\<close>
  Executions: the terminal exit is chosen once and is explained by the accepted stop; a join answers once the runner
  has finished, at most once with the result; children end before their parent; snapshots are consistent.
  Lane: bounds, one running execution per key, work-conserving dispatch, bounded overtaking, no lost wake-up,
  draining after close.
  Submissions: lane and registry agree; the answer of a submission is true; submitting and cancelling undo each other;
  a terminal execution is touched by nothing; a dispatcher that ends strands nobody;
  the snapshot of the executor shows what runs.
  Registry: cancellation snapshots are exact; the history tells the truth.
  Scopes: admission never returns to an older generation, strict rotation waits for everything, cancellation reaches
  the live descendants and their executions in the lane, a live execution is tracked by the scope it names.
  Slots: the newest replacement wins, strict replacements are installed alone, nothing is forgotten.
  Dams: cancellation reaches everything submitted before, listeners are told the end once.
  Retry: the compact plan is the dense table, a run refines the plan, and retries happen only when the
  setters opted into them.  Recurring tasks and services: restart budgets,
  the fixed-rate grid, the hook is accounted once, the end is published.
  Range tasks: the compiled lookup follows the documented rule.
  Executor: limits, an irrevocable shutdown with a complete report that always answers, and the one input that disables it.

  \<^bold>\<open>Loops and bounds.\<close>  Structural recursion where the code iterates over data.  \<open>collect_scope_controls\<close> recurses over child
  scopes with a depth; \<open>collecting_ends\<close> shows that the number of scopes is enough in every reachable state.  The loops of
  recurring tasks and services may never end: one iteration is a function, a run is any number \<open>n\<close> of iterations,
  and the theorems hold for every \<open>n\<close>.  The retry loop is recursion over its plan, which is finite.  Generations, attempts, revisions,
  and the tickets and sequence numbers of a lane are words with the checked addition of the code, exhaustion being one of its answers.

  \<^bold>\<open>Not modelled.\<close>  Logging and tracing (\<open>internal.rs\<close>), the runtime selection of \<open>platform/spawn.rs\<close>, re-exports (\<open>lib.rs\<close>),
  documentation tests (\<open>github_docs.rs\<close>): they decide nothing.  \<open>Debug\<close> output, \<open>Clone\<close> and \<open>Error\<close> implementations, and getters that only
  return a field.  \<open>work.rs\<close> and \<open>work_fn.rs\<close>, whose traits and adapters only call the closure they hold.  Tests, benches and scripts.
\<close>

end
